(* ===== verification/PC_Prelude.thy ===== *)
theory PC_Prelude
  imports Main "HOL-Library.Word" "HOL-Library.Multiset" "HOL-Library.Product_Lexorder"
    "HOL-Library.List_Lexorder"
begin

text \<open>
  Shared vocabulary of the development: the machine integers of the Rust sources, the outcomes
  of fallible code (a panic, a \<open>Result\<close>), the integer operations of the Rust standard library
  that the sources call, and the generic lemmas on words, lists and maps the components use.

  The node and the WebAssembly runtime are built with the release profile of
  \<open>src/Cargo.toml\<close>, which leaves overflow checks off: a plain \<open>+\<close>, \<open>-\<close> or \<open>*\<close> on an
  unsigned integer wraps around, which is the arithmetic of \<open>'a word\<close>.
\<close>

section \<open>Machine integers\<close>

type_synonym u8 = "8 word"
type_synonym u16 = "16 word"
type_synonym u32 = "32 word"
type_synonym u64 = "64 word"
type_synonym u128 = "128 word"
type_synonym bytes = "u8 list"

named_theorems word_nat_simps
  \<open>equations that move word arithmetic without overflow to natural numbers\<close>

definition checked_sub :: "'a::len word \<Rightarrow> 'a word \<Rightarrow> 'a word option" where
  "checked_sub a b = (if b \<le> a then Some (a - b) else None)"

definition saturating_add :: "'a::len word \<Rightarrow> 'a word \<Rightarrow> 'a word" where
  "saturating_add a b = (if unat a + unat b < 2 ^ LENGTH('a) then a + b else - 1)"

definition saturating_sub :: "'a::len word \<Rightarrow> 'a word \<Rightarrow> 'a word" where
  "saturating_sub a b = (if b \<le> a then a - b else 0)"

text \<open>Conversion to a narrower unsigned type (\<open>try_into\<close>, \<open>try_from\<close>): it fails when the
  value does not fit.\<close>

definition try_narrow :: "'a::len word \<Rightarrow> 'b::len word option" where
  "try_narrow a = (if unat a < 2 ^ LENGTH('b) then Some (of_nat (unat a)) else None)"

definition try_of_nat :: "nat \<Rightarrow> 'b::len word option" where
  "try_of_nat n = (if n < 2 ^ LENGTH('b) then Some (of_nat n) else None)"

lemma checked_sub_Some_iff:
  "checked_sub a b = Some c \<longleftrightarrow> b \<le> a \<and> c = a - b"
  by (auto simp: checked_sub_def)

lemma checked_sub_None_iff: "checked_sub a b = None \<longleftrightarrow> a < b"
  by (auto simp: checked_sub_def)

lemma unat_sub_le [word_nat_simps]: "b \<le> a \<Longrightarrow> unat (a - b) = unat a - unat b"
  by (rule unat_sub)

lemma unat_add_no_overflow [word_nat_simps]:
  fixes a b :: "'a::len word"
  assumes "unat a + unat b < 2 ^ LENGTH('a)"
  shows "unat (a + b) = unat a + unat b"
  using assms by (simp add: unat_word_ariths)

lemma unat_mult_no_overflow [word_nat_simps]:
  fixes a b :: "'a::len word"
  assumes "unat a * unat b < 2 ^ LENGTH('a)"
  shows "unat (a * b) = unat a * unat b"
  using assms by (simp add: unat_word_ariths)

lemma unat_of_nat_fits [word_nat_simps]:
  "n < 2 ^ LENGTH('a) \<Longrightarrow> unat (of_nat n :: 'a::len word) = n"
  by (simp add: unat_of_nat)

lemma unat_sum_list_no_overflow:
  fixes ws :: "'a::len word list"
  assumes "sum_list (map unat ws) < 2 ^ LENGTH('a)"
  shows "unat (sum_list ws) = sum_list (map unat ws)"
  using assms
proof (induction ws)
  case Nil
  then show ?case by simp
next
  case (Cons w ws)
  then have "unat (sum_list ws) = sum_list (map unat ws)" by simp
  with Cons.prems show ?case by (simp add: unat_add_no_overflow)
qed

lemma try_of_nat_Some_iff:
  "try_of_nat n = Some (b :: 'b::len word) \<longleftrightarrow> unat b = n"
proof
  assume "try_of_nat n = Some b"
  then show "unat b = n" by (auto simp: try_of_nat_def unat_of_nat_fits split: if_splits)
next
  assume "unat b = n"
  then show "try_of_nat n = Some b" using unsigned_less [of b] by (auto simp: try_of_nat_def)
qed

lemma unat_saturating_add:
  fixes a b :: "'a::len word"
  shows "unat (saturating_add a b) = min (unat a + unat b) (2 ^ LENGTH('a) - 1)"
proof -
  have "unat (- 1 :: 'a word) = 2 ^ LENGTH('a) - 1"
    by (simp add: unsigned_minus_1_eq_mask mask_eq_exp_minus_1)
  then show ?thesis
    by (auto simp: saturating_add_def unat_add_no_overflow min_def)
qed

lemma try_narrow_Some_iff:
  "try_narrow (a :: 'a::len word) = Some (b :: 'b::len word) \<longleftrightarrow> unat b = unat a"
proof
  assume "try_narrow a = Some b"
  then show "unat b = unat a"
    by (auto simp: try_narrow_def unsigned_ucast_eq take_bit_nat_eq_self split: if_splits)
next
  assume eq: "unat b = unat a"
  then have "unat a < 2 ^ LENGTH('b)" by (metis unsigned_less)
  then show "try_narrow a = Some b"
    by (simp add: try_narrow_def flip: eq)
qed

lemma fits_try_narrow:
  "unat (a :: 'a::len word) < 2 ^ LENGTH('b::len) \<Longrightarrow> \<exists>b :: 'b word. try_narrow a = Some b"
  by (simp add: try_narrow_def)

text \<open>Widening conversions (\<open>u128::from\<close>, \<open>usize::from\<close>) keep the value.\<close>

lemma unat_ucast_widen [word_nat_simps]:
  fixes a :: "'a::len word"
  assumes "LENGTH('a) \<le> LENGTH('b::len)"
  shows "unat (ucast a :: 'b word) = unat a"
proof -
  have "unat a < 2 ^ LENGTH('a)" by (rule unsigned_less)
  also have "(2 :: nat) ^ LENGTH('a) \<le> 2 ^ LENGTH('b)" using assms by (simp add: power_increasing)
  finally have "unat a < 2 ^ LENGTH('b)" .
  then show ?thesis by (simp add: unsigned_ucast_eq take_bit_nat_eq_self)
qed

section \<open>Outcomes\<close>

text \<open>
  \<open>'a exec\<close> is the outcome of code that may panic (\<open>panic!\<close>, \<open>expect\<close>, \<open>unwrap\<close>, an
  out-of-range index); \<open>'e + 'a\<close> is Rust's \<open>Result\<close>, \<open>Inl\<close> the error. Code that does both
  has type \<open>('e + 'a) exec\<close>.
\<close>

datatype 'a exec = Panic | Ret 'a

fun exec_bind :: "'a exec \<Rightarrow> ('a \<Rightarrow> 'b exec) \<Rightarrow> 'b exec" where
  "exec_bind Panic f = Panic"
| "exec_bind (Ret x) f = f x"

fun exec_map :: "('a \<Rightarrow> 'b) \<Rightarrow> 'a exec \<Rightarrow> 'b exec" where
  "exec_map f Panic = Panic"
| "exec_map f (Ret x) = Ret (f x)"

fun expect :: "'a option \<Rightarrow> 'a exec" where
  "expect None = Panic"
| "expect (Some x) = Ret x"

text \<open>The \<open>?\<close> operator on a \<open>Result\<close>, and \<open>ok_or\<close>.\<close>

fun try_bind :: "'e + 'a \<Rightarrow> ('a \<Rightarrow> 'e + 'b) \<Rightarrow> 'e + 'b" where
  "try_bind (Inl e) f = Inl e"
| "try_bind (Inr x) f = f x"

fun ok_or :: "'a option \<Rightarrow> 'e \<Rightarrow> 'e + 'a" where
  "ok_or None e = Inl e"
| "ok_or (Some x) e = Inr x"

fun ok :: "'e + 'a \<Rightarrow> 'a option" where
  "ok (Inl e) = None"
| "ok (Inr x) = Some x"

fun map_err :: "('e \<Rightarrow> 'f) \<Rightarrow> 'e + 'a \<Rightarrow> 'f + 'a" where
  "map_err f (Inl e) = Inl (f e)"
| "map_err f (Inr x) = Inr x"

definition ensure :: "bool \<Rightarrow> 'e \<Rightarrow> 'e + unit" where
  "ensure b e = (if b then Inr () else Inl e)"

text \<open>A loop whose body may panic.\<close>

fun exec_fold :: "('a \<Rightarrow> 's \<Rightarrow> 's exec) \<Rightarrow> 'a list \<Rightarrow> 's \<Rightarrow> 's exec" where
  "exec_fold f [] s = Ret s"
| "exec_fold f (x # xs) s = exec_bind (f x s) (exec_fold f xs)"

text \<open>Integer division panics on a zero divisor.\<close>

definition exec_div :: "'a::len word \<Rightarrow> 'a word \<Rightarrow> 'a word exec" where
  "exec_div a b = (if b = 0 then Panic else Ret (a div b))"

text \<open>Inversion of the steps of an execution, for \<open>auto simp: run_simps\<close>.\<close>

named_theorems run_simps

lemma exec_bind_Ret_iff [run_simps]:
  "exec_bind m f = Ret y \<longleftrightarrow> (\<exists>x. m = Ret x \<and> f x = Ret y)"
  by (cases m) auto

lemma exec_map_Ret_iff [run_simps]: "exec_map f m = Ret y \<longleftrightarrow> (\<exists>x. m = Ret x \<and> f x = y)"
  by (cases m) auto

lemma expect_Ret_iff [run_simps]: "expect m = Ret x \<longleftrightarrow> m = Some x"
  by (cases m) auto

lemma try_bind_Inr_iff [simp]:
  "try_bind m f = Inr y \<longleftrightarrow> (\<exists>x. m = Inr x \<and> f x = Inr y)"
  by (cases m) auto

lemma ok_or_Inr_iff [simp]: "ok_or m e = Inr x \<longleftrightarrow> m = Some x"
  by (cases m) auto

lemma ok_Some_iff [simp]: "ok r = Some x \<longleftrightarrow> r = Inr x"
  by (cases r) auto

lemma map_err_Inr_iff [simp]: "map_err f r = Inr x \<longleftrightarrow> r = Inr x"
  by (cases r) auto

lemma ensure_Inr_iff [simp]: "ensure b e = Inr u \<longleftrightarrow> b"
  by (simp add: ensure_def)

lemma ensure_Inl_iff [simp]: "ensure b e = Inl e' \<longleftrightarrow> \<not> b \<and> e' = e"
  by (auto simp: ensure_def)

section \<open>Computations with state\<close>

text \<open>Fallible code of the node that reads and writes a cache: from a cache to an outcome and a cache.\<close>

type_synonym ('s, 'e, 'a) io = "'s \<Rightarrow> ('e + 'a) exec \<times> 's"

definition io_bind :: "('s, 'e, 'a) io \<Rightarrow> ('a \<Rightarrow> ('s, 'e, 'b) io) \<Rightarrow> ('s, 'e, 'b) io" where
  "io_bind m f s =
     (case m s of
        (Panic, s') \<Rightarrow> (Panic, s')
      | (Ret (Inl e), s') \<Rightarrow> (Ret (Inl e), s')
      | (Ret (Inr x), s') \<Rightarrow> f x s')"

definition io_lift :: "('e + 'a) exec \<Rightarrow> ('s, 'e, 'a) io" where
  "io_lift r s = (r, s)"

definition io_map_err :: "('e \<Rightarrow> 'f) \<Rightarrow> ('s, 'e, 'a) io \<Rightarrow> ('s, 'f, 'a) io" where
  "io_map_err f m s = (case m s of (r, s') \<Rightarrow> (exec_map (map_err f) r, s'))"

lemma io_bind_Inr_iff [run_simps]:
  "io_bind m f s = (Ret (Inr y), s'') \<longleftrightarrow> (\<exists>x s'. m s = (Ret (Inr x), s') \<and> f x s' = (Ret (Inr y), s''))"
  by (auto simp: io_bind_def split: prod.splits exec.splits sum.splits)

lemma io_lift_Inr_iff [run_simps]: "io_lift r s = (Ret (Inr x), s') \<longleftrightarrow> r = Ret (Inr x) \<and> s' = s"
  by (auto simp: io_lift_def)

lemma io_map_err_Inr_iff [run_simps]: "io_map_err f m s = (Ret (Inr x), s') \<longleftrightarrow> m s = (Ret (Inr x), s')"
  by (auto simp: io_map_err_def run_simps split: prod.splits)

lemma io_bind_step: "m s = (Ret (Inr x), s') \<Longrightarrow> io_bind m f s = f x s'"
  by (simp add: io_bind_def)

section \<open>Natural numbers\<close>

lemma div_eq_iff_interval:
  fixes n :: nat
  assumes "0 < d"
  shows "n = x div d \<longleftrightarrow> n * d \<le> x \<and> x < (n + 1) * d"
proof
  assume "n = x div d"
  then show "n * d \<le> x \<and> x < (n + 1) * d"
    using dividend_less_div_times [OF assms, of x] by simp
next
  assume "n * d \<le> x \<and> x < (n + 1) * d"
  then show "n = x div d" by (intro div_nat_eqI [symmetric]) (simp_all add: mult.commute)
qed

section \<open>Lists\<close>

lemma ex_nat_Suc: "(\<exists>i. Q i) \<longleftrightarrow> Q 0 \<or> (\<exists>i. Q (Suc i))"
  by (metis not0_implies_Suc)

lemma sort_eq_if_mset_eq:
  fixes xs ys :: "'a::linorder list"
  shows "mset xs = mset ys \<Longrightarrow> sort xs = sort ys"
  by (metis mset_sort properties_for_sort sorted_sort)

lemma sum_list_map_mset_cong:
  fixes f :: "'a \<Rightarrow> 'b::comm_monoid_add"
  shows "mset xs = mset ys \<Longrightarrow> sum_list (map f xs) = sum_list (map f ys)"
  by (metis mset_map sum_mset_sum_list)

lemma sum_list_mult_left:
  fixes k :: nat
  shows "sum_list (map (\<lambda>x. k * f x) xs) = k * sum_list (map f xs)"
  by (induction xs) (auto simp: distrib_left)

end
