(* ===== verification/Weighted_Random.thy ===== *)
theory Weighted_Random
  imports PC_Prelude
begin

text \<open>
  Simple weighted random selection, \<open>weighted_random.rs\<close> of the crate
  \<open>toolkit/committee-selection/selection\<close>: the cumulative scan \<open>select_with_weight\<close> and the
  seat loop \<open>select_authorities\<close>.

  The pseudo-random generator is the crate \<open>rand_chacha\<close>, which is not part of the
  repository: its operations are the fields of the record \<open>chacha20\<close>, arguments of every
  definition. \<open>chacha20_ok\<close> states what the documentation of \<open>rand\<close> promises of them:
  \<open>random_range (0..n)\<close> is below \<open>n\<close> for \<open>0 < n\<close> (it panics on the empty range), and \<open>shuffle\<close>
  permutes its slice.
\<close>

type_synonym weight = u128

record ('seed, 'rng, 'sc) chacha20 =
  from_seed :: "'seed \<Rightarrow> 'rng"
  get_seed :: "'rng \<Rightarrow> 'seed"
  random_range :: "'rng \<Rightarrow> u128 \<Rightarrow> u128 \<times> 'rng"
  shuffle :: "'sc list \<Rightarrow> 'rng \<Rightarrow> 'sc list \<times> 'rng"

definition chacha20_ok :: "('seed, 'rng, 'sc) chacha20 \<Rightarrow> bool" where
  "chacha20_ok R \<longleftrightarrow>
     (\<forall>r n. 0 < n \<longrightarrow> fst (random_range R r n) < n) \<and>
     (\<forall>xs r. mset (fst (shuffle R xs r)) = mset xs)"

section \<open>The selection\<close>

fun scan_weights :: "nat \<Rightarrow> weight \<Rightarrow> u128 \<Rightarrow> ('t \<times> weight) list \<Rightarrow> nat option" where
  "scan_weights index cumulative_weight random_number [] = None"
| "scan_weights index cumulative_weight random_number ((c, w) # cs) =
     (let cumulative_weight = cumulative_weight + w
      in if cumulative_weight > random_number then Some index
         else scan_weights (Suc index) cumulative_weight random_number cs)"

definition select_with_weight ::
  "('seed, 'rng, 'sc) chacha20 \<Rightarrow> ('t \<times> weight) list \<Rightarrow> weight \<Rightarrow> 'rng \<Rightarrow> (nat \<times> 'rng) exec" where
  "select_with_weight R candidates total_weight rand =
     (if total_weight = 0 then Panic
      else let (random_number, rand') = random_range R rand total_weight
           in exec_map (\<lambda>index. (index, rand')) (expect (scan_weights 0 0 random_number candidates)))"

function select_loop ::
  "('seed, 'rng, 'sc) chacha20 \<Rightarrow> ('t \<times> weight) list \<Rightarrow> weight \<Rightarrow> nat \<Rightarrow> 't list \<Rightarrow> 'rng \<Rightarrow>
   't list exec" where
  "select_loop R candidates total_weight seats committee rng =
     (if length committee < seats \<and> candidates \<noteq> [] then
        exec_bind (select_with_weight R candidates total_weight rng) (\<lambda>(selected_index, rng').
          if selected_index < length candidates
          then select_loop R candidates total_weight seats
                 (committee @ [fst (candidates ! selected_index)]) rng'
          else Panic)
      else Ret committee)"
  by pat_completeness auto
termination
  by (relation "measure (\<lambda>(R, cs, t, seats, committee, rng). seats - length committee)") auto

declare select_loop.simps [simp del]

definition total_weight_of :: "('t \<times> weight) list \<Rightarrow> weight" where
  "total_weight_of candidates = sum_list (map snd candidates)"

definition select_authorities_wr ::
  "('seed, 'rng, 'sc) chacha20 \<Rightarrow> ('t \<times> weight) list \<Rightarrow> 'seed \<Rightarrow> u16 \<Rightarrow> 't list option exec" where
  "select_authorities_wr R weighted_candidates seed seats =
     exec_map (\<lambda>committee. if unat seats \<le> length committee then Some committee else None)
       (select_loop R weighted_candidates (total_weight_of weighted_candidates) (unat seats) []
         (from_seed R seed))"

section \<open>Correctness of the scan\<close>

primrec weight_sum :: "('t \<times> weight) list \<Rightarrow> nat" where
  "weight_sum [] = 0"
| "weight_sum (c # cs) = unat (snd c) + weight_sum cs"

lemma weight_sum_append [simp]: "weight_sum (cs @ ds) = weight_sum cs + weight_sum ds"
  by (induction cs) auto

lemma weight_sum_alt: "weight_sum cs = sum_list (map unat (map snd cs))"
  by (induction cs) auto

lemma weight_sum_cong: "mset cs = mset ds \<Longrightarrow> weight_sum cs = weight_sum ds"
  unfolding weight_sum_alt map_map by (rule sum_list_map_mset_cong)

text \<open>The reference: candidate \<open>i\<close> owns the half-open interval of random numbers between the
  sums of the weights before and up to it.\<close>

definition owns :: "('t \<times> weight) list \<Rightarrow> nat \<Rightarrow> nat \<Rightarrow> bool" where
  "owns cs i r \<longleftrightarrow> i < length cs \<and> weight_sum (take i cs) \<le> r \<and> r < weight_sum (take (Suc i) cs)"

lemma owns_Cons_0: "owns ((c, w) # cs) 0 r \<longleftrightarrow> r < unat w"
  by (simp add: owns_def)

lemma owns_Cons_Suc: "owns ((c, w) # cs) (Suc i) r \<longleftrightarrow> unat w \<le> r \<and> owns cs i (r - unat w)"
  by (auto simp: owns_def)

lemma scan_weights_iff:
  assumes "unat cum + weight_sum cs < 2 ^ 128" and "cum \<le> r"
  shows "scan_weights idx cum r cs = Some j \<longleftrightarrow> (\<exists>i. j = idx + i \<and> owns cs i (unat r - unat cum))"
  using assms
proof (induction cs arbitrary: idx cum)
  case Nil
  then show ?case by (simp add: owns_def)
next
  case (Cons p cs)
  obtain c w where p: "p = (c, w)" by (cases p)
  from Cons.prems p have sum: "unat (cum + w) = unat cum + unat w"
    by (simp add: unat_add_no_overflow)
  from Cons.prems have cr: "unat cum \<le> unat r" by (simp add: word_le_nat_alt)
  have dec: "(\<exists>i. j = idx + i \<and> owns (p # cs) i d) \<longleftrightarrow>
      (if d < unat w then j = idx else \<exists>i. j = Suc idx + i \<and> owns cs i (d - unat w))" for d
    by (subst ex_nat_Suc) (simp add: p owns_Cons_0 owns_Cons_Suc)
  show ?case
  proof (cases "r < cum + w")
    case True
    then have "unat r - unat cum < unat w" using sum cr by (simp add: word_less_nat_alt)
    then show ?thesis using True by (simp only: dec) (auto simp: p)
  next
    case False
    then have le: "cum + w \<le> r" by simp
    then have nle: "unat w \<le> unat r - unat cum" using sum by (simp add: word_le_nat_alt)
    have "scan_weights idx cum r (p # cs) = scan_weights (Suc idx) (cum + w) r cs"
      using False by (simp add: p)
    moreover have "scan_weights (Suc idx) (cum + w) r cs = Some j \<longleftrightarrow>
        (\<exists>i. j = Suc idx + i \<and> owns cs i (unat r - unat (cum + w)))"
    proof (rule Cons.IH)
      show "unat (cum + w) + weight_sum cs < 2 ^ 128" using Cons.prems(1) sum p by simp
      show "cum + w \<le> r" by (rule le)
    qed
    ultimately show ?thesis using nle sum by (simp only: dec) simp
  qed
qed

lemma scan_weights_iff_0:
  "weight_sum cs < 2 ^ 128 \<Longrightarrow> scan_weights 0 0 r cs = Some i \<longleftrightarrow> owns cs i (unat r)"
  by (simp add: scan_weights_iff)

lemma owns_exists: "r < weight_sum cs \<Longrightarrow> \<exists>i. owns cs i r"
proof (induction cs arbitrary: r)
  case Nil
  then show ?case by simp
next
  case (Cons p cs)
  obtain c w where p: "p = (c, w)" by (cases p)
  show ?case
  proof (cases "r < unat w")
    case True
    then have "owns (p # cs) 0 r" by (simp add: p owns_Cons_0)
    then show ?thesis ..
  next
    case False
    then have "r - unat w < weight_sum cs" using Cons.prems by (simp add: p)
    then obtain i where "owns cs i (r - unat w)" using Cons.IH by blast
    then have "owns (p # cs) (Suc i) r" using False by (simp add: p owns_Cons_Suc)
    then show ?thesis ..
  qed
qed

lemma weight_sum_take_Suc:
  "i < length cs \<Longrightarrow> weight_sum (take (Suc i) cs) = weight_sum (take i cs) + unat (snd (cs ! i))"
  by (simp add: take_Suc_conv_app_nth)

lemma owns_weight_pos: "owns cs i r \<Longrightarrow> 0 < snd (cs ! i)"
proof -
  assume own: "owns cs i r"
  then have "0 < unat (snd (cs ! i))"
    unfolding owns_def using weight_sum_take_Suc [of i cs] by linarith
  then show ?thesis by (auto simp: word_gt_0)
qed

lemma weight_sum_take_le: "weight_sum (take i cs) \<le> weight_sum cs"
  by (induction cs arbitrary: i) (auto simp: take_Cons split: nat.split)

lemma unat_total_weight_of:
  "weight_sum cs < 2 ^ 128 \<Longrightarrow> unat (total_weight_of cs) = weight_sum cs"
  unfolding total_weight_of_def by (simp add: unat_sum_list_no_overflow weight_sum_alt)

lemma select_with_weight_ok:
  assumes "chacha20_ok R" and fits: "weight_sum cs < 2 ^ 128" and pos: "total_weight_of cs \<noteq> 0"
  obtains i r rng' where "random_range R rng (total_weight_of cs) = (r, rng')"
    and "owns cs i (unat r)" and "select_with_weight R cs (total_weight_of cs) rng = Ret (i, rng')"
proof -
  obtain r rng' where draw: "random_range R rng (total_weight_of cs) = (r, rng')"
    by (cases "random_range R rng (total_weight_of cs)")
  have "fst (random_range R rng (total_weight_of cs)) < total_weight_of cs"
    using assms by (simp add: chacha20_ok_def word_gt_0)
  then have "unat r < weight_sum cs"
    using draw by (simp add: word_less_nat_alt unat_total_weight_of [OF fits])
  then obtain i where own: "owns cs i (unat r)" using owns_exists by blast
  then have "scan_weights 0 0 r cs = Some i" using scan_weights_iff_0 [OF fits] by simp
  then have "select_with_weight R cs (total_weight_of cs) rng = Ret (i, rng')"
    using pos draw by (simp add: select_with_weight_def)
  with draw own show thesis by (rule that)
qed

text \<open>The candidates that may be given a seat.\<close>

definition electable :: "('t \<times> weight) list \<Rightarrow> 't set" where
  "electable cs = {c. \<exists>w. (c, w) \<in> set cs \<and> 0 < w}"

lemma owns_electable: "owns cs i r \<Longrightarrow> i < length cs \<and> fst (cs ! i) \<in> electable cs"
  using owns_weight_pos [of cs i r]
  by (auto simp: electable_def owns_def) (metis nth_mem prod.collapse)

lemma select_loop_ok:
  assumes "chacha20_ok R" and "weight_sum cs < 2 ^ 128" and "total_weight_of cs \<noteq> 0"
    and "length committee \<le> n"
  shows "\<exists>new. select_loop R cs (total_weight_of cs) n committee rng = Ret (committee @ new) \<and>
           length (committee @ new) = n \<and> set new \<subseteq> electable cs"
  using assms(4)
proof (induction "n - length committee" arbitrary: committee rng)
  case 0
  then show ?case by (subst select_loop.simps) simp
next
  case (Suc k)
  from assms(3) have ne: "cs \<noteq> []" by (auto simp: total_weight_of_def)
  obtain i r rng' where "random_range R rng (total_weight_of cs) = (r, rng')"
    and own: "owns cs i (unat r)"
    and sel: "select_with_weight R cs (total_weight_of cs) rng = Ret (i, rng')"
    by (rule select_with_weight_ok [OF assms(1-3)])
  let ?c = "fst (cs ! i)"
  have "k = n - length (committee @ [?c])" "length (committee @ [?c]) \<le> n"
    using Suc.hyps(2) by auto
  from Suc.hyps(1) [OF this, of rng'] obtain new
    where "select_loop R cs (total_weight_of cs) n (committee @ [?c]) rng' =
      Ret ((committee @ [?c]) @ new)" "length ((committee @ [?c]) @ new) = n"
      "set new \<subseteq> electable cs"
    by blast
  moreover have "length committee < n" using Suc.hyps(2) by simp
  then have "select_loop R cs (total_weight_of cs) n committee rng =
      select_loop R cs (total_weight_of cs) n (committee @ [?c]) rng'"
    using ne owns_electable [OF own] sel by (subst select_loop.simps) simp
  ultimately show ?case
    using owns_electable [OF own] by (intro exI [of _ "?c # new"]) simp
qed

lemma select_authorities_wr_ok:
  assumes "chacha20_ok R" and "weight_sum cs < 2 ^ 128" and "total_weight_of cs \<noteq> 0"
  obtains committee where "select_authorities_wr R cs seed n = Ret (Some committee)"
    and "length committee = unat n" and "set committee \<subseteq> electable cs"
  using select_loop_ok [OF assms, of "[]" "unat n" "from_seed R seed"]
  by (auto simp: select_authorities_wr_def)

lemma total_weight_of_cong: "mset cs = mset ds \<Longrightarrow> total_weight_of cs = total_weight_of ds"
  unfolding total_weight_of_def by (rule sum_list_map_mset_cong)

section \<open>Properties\<close>

text \<open>C8: The selection is exactly proportional to the weights. Among the random numbers below the
  total weight, the ones for which \<open>select_with_weight\<close> returns index \<open>i\<close> are as many as the
  weight of candidate \<open>i\<close>, whenever the sum of the weights fits the 128-bit weight type. With a
  uniform draw a seat goes to candidate \<open>i\<close> with probability \<open>w_i / (w_1 + ... + w_n)\<close>.\<close>

theorem select_with_weight_proportional:
  assumes "weight_sum cs < 2 ^ 128" and "i < length cs"
  shows "card {r. r < total_weight_of cs \<and>
           select_with_weight (R\<lparr>random_range := \<lambda>rng n. (r, rng')\<rparr>) cs (total_weight_of cs) rng =
             Ret (i, rng')} = unat (snd (cs ! i))"
proof -
  have tw: "unat (total_weight_of cs) = weight_sum cs" using assms(1) by (rule unat_total_weight_of)
  have le: "weight_sum (take (Suc i) cs) \<le> weight_sum cs" by (rule weight_sum_take_le)
  have iff: "r < total_weight_of cs \<and>
      select_with_weight (R\<lparr>random_range := \<lambda>rng n. (r, rng')\<rparr>) cs (total_weight_of cs) rng = Ret (i, rng')
      \<longleftrightarrow> owns cs i (unat r)" for r
    by (cases "scan_weights 0 0 r cs")
      (use scan_weights_iff_0 [OF assms(1), of r i] tw le in
        \<open>auto simp: select_with_weight_def word_less_nat_alt owns_def\<close>)
  have "unat ` {r. owns cs i (unat (r :: u128))} =
      {weight_sum (take i cs) ..< weight_sum (take (Suc i) cs)}"
  proof (intro equalityI subsetI)
    fix n assume n: "n \<in> {weight_sum (take i cs) ..< weight_sum (take (Suc i) cs)}"
    then have "unat (of_nat n :: u128) = n" using le assms(1) by (simp add: unat_of_nat_fits)
    then show "n \<in> unat ` {r. owns cs i (unat (r :: u128))}"
      using n assms(2) by (intro image_eqI [of _ _ "of_nat n"]) (auto simp: owns_def)
  qed (auto simp: owns_def)
  moreover have "inj_on unat {r. owns cs i (unat (r :: u128))}"
    by (rule inj_onI) (rule word_unat_eq_iff [THEN iffD2])
  ultimately have "card {r. owns cs i (unat (r :: u128))} =
      card {weight_sum (take i cs) ..< weight_sum (take (Suc i) cs)}"
    by (metis card_image)
  also have "\<dots> = unat (snd (cs ! i))" using weight_sum_take_Suc [OF assms(2)] by simp
  finally show ?thesis by (simp only: iff)
qed

text \<open>A concrete generator that satisfies the documented contract: it counts its draws.\<close>

definition counter_rng :: "(nat, nat, 'sc) chacha20" where
  "counter_rng = \<lparr>from_seed = id, get_seed = id,
     random_range = (\<lambda>r n. (of_nat (r mod unat n), Suc r)), shuffle = (\<lambda>xs r. (rev xs, Suc r))\<rparr>"

lemma counter_rng_ok: "chacha20_ok counter_rng"
proof -
  have "of_nat (r mod unat n) < n" if "0 < n" for r and n :: u128
  proof -
    have "r mod unat n < unat n" using that by (simp add: word_gt_0 unat_gt_0)
    moreover have "unat n < 2 ^ 128" using unsigned_less [of n] by simp
    ultimately show ?thesis by (simp add: word_less_nat_alt unat_of_nat_fits)
  qed
  then show ?thesis by (simp add: chacha20_ok_def counter_rng_def)
qed

theorem select_with_weight_proportional_witness:
  "card {r. r < total_weight_of [(''a'', 1), (''b'', 3)] \<and>
     select_with_weight ((counter_rng :: (nat, nat, string) chacha20)\<lparr>random_range := \<lambda>rng n. (r, 0)\<rparr>) [(''a'', 1), (''b'', 3)]
       (total_weight_of [(''a'', 1), (''b'', 3)]) 0 = Ret (1, 0)} = 3"
  using select_with_weight_proportional
    [where cs = "[(''a'', 1), (''b'', 3)]" and i = 1 and R = "counter_rng :: (nat, nat, string) chacha20" and rng' = 0 and rng = 0]
  by simp

text \<open>Weighted selection is total and fills every seat: when the weights sum to a non-zero number
  that fits the weight type, \<open>select_authorities\<close> neither panics nor returns \<open>None\<close>; it returns
  exactly the requested number of seats, each given to a candidate with a positive weight.\<close>

theorem select_authorities_wr_total:
  assumes "chacha20_ok R" and "weight_sum cs < 2 ^ 128" and "0 < weight_sum cs"
  shows "\<exists>committee. select_authorities_wr R cs seed n = Ret (Some committee) \<and>
           length committee = unat n \<and> set committee \<subseteq> electable cs"
proof -
  have "total_weight_of cs \<noteq> 0" using assms(3) unat_total_weight_of [OF assms(2)] by auto
  then show ?thesis by (rule select_authorities_wr_ok [OF assms(1,2)]) blast
qed

theorem select_authorities_wr_total_witness:
  "\<exists>committee. select_authorities_wr (counter_rng :: (nat, nat, string) chacha20) [(''a'', 1), (''b'', 3)] 0 5 = Ret (Some committee) \<and>
     length committee = 5 \<and> set committee \<subseteq> electable [(''a'', 1), (''b'', 3)]"
  using select_authorities_wr_total [OF counter_rng_ok, of "[(''a'', 1), (''b'', 3)]" 0 5] by simp

text \<open>The failures of weighted selection: with no candidates it returns \<open>None\<close> for every non-zero
  size, and with candidates whose weights sum to zero it panics on the empty sampling range.\<close>

theorem select_authorities_wr_failures:
  fixes cs :: "('t \<times> weight) list"
  shows "select_authorities_wr R ([] :: ('t \<times> weight) list) seed n = Ret (if n = 0 then Some [] else None) \<and>
   (cs \<noteq> [] \<longrightarrow> total_weight_of cs = 0 \<longrightarrow>
     select_authorities_wr R cs seed n = (if n = 0 then Ret (Some []) else Panic))"
  by (simp add: select_authorities_wr_def select_loop.simps [of _ "[]"] select_loop.simps [of _ cs]
      select_with_weight_def unat_gt_0 unat_eq_zero)

theorem select_authorities_wr_failures_witness:
  "select_authorities_wr (counter_rng :: (nat, nat, string) chacha20) [(''a'', 0)] 0 1 = Panic"
  using select_authorities_wr_failures [of "counter_rng :: (nat, nat, string) chacha20" 0 1 "[(''a'', 0)]"]
  by (simp add: total_weight_of_def)

end
