(* ===== verification/Ariadne.thy ===== *)
theory Ariadne
  imports Weighted_Random
begin

text \<open>
  The original Ariadne committee selection, \<open>ariadne.rs\<close> of
  \<open>toolkit/committee-selection/selection\<close>: the weights of the trustless (registered) and of the
  permissioned candidates are scaled so that the two groups share the seats in the ratio
  \<open>T : P\<close> of the D-parameter, then all seats are drawn by weighted selection with repetition.
\<close>

section \<open>The selection\<close>

definition trustless_candidates_with_weights ::
  "('c \<times> weight) list \<Rightarrow> u16 \<Rightarrow> nat \<Rightarrow> ('c \<times> weight) list" where
  "trustless_candidates_with_weights trustless_candidates num_trustless_candidates
     permissioned_candidates_count =
     (let weight_factor =
        (if permissioned_candidates_count > 0
         then ucast num_trustless_candidates * of_nat permissioned_candidates_count
         else 1)
      in map (\<lambda>(c, weight). (c, weight * weight_factor)) trustless_candidates)"

definition permissioned_candidates_with_weights ::
  "'c list \<Rightarrow> u16 \<Rightarrow> u16 \<Rightarrow> u128 \<Rightarrow> ('c \<times> weight) list" where
  "permissioned_candidates_with_weights permissioned_candidates num_permissioned_candidates
     num_trustless_candidates total_stake =
     (let weight =
        (if total_stake > 0 \<and> num_trustless_candidates > 0
         then ucast num_permissioned_candidates * total_stake
         else 1)
      in map (\<lambda>c. (c, weight)) permissioned_candidates)"

definition weighted_candidates_v1 ::
  "u16 \<Rightarrow> u16 \<Rightarrow> ('sc \<times> weight) list \<Rightarrow> 'sc::linorder list \<Rightarrow> ('sc \<times> weight) list" where
  "weighted_candidates_v1 num_trustless_candidates num_permissioned_candidates
     trustless_candidates permissioned_candidates =
     (let total_stake = total_weight_of trustless_candidates;
          trustless = trustless_candidates_with_weights trustless_candidates
            num_trustless_candidates (length permissioned_candidates);
          permissioned = permissioned_candidates_with_weights permissioned_candidates
            num_permissioned_candidates num_trustless_candidates total_stake
      in sort (trustless @ permissioned))"

definition select_authorities_v1 ::
  "('seed, 'rng, 'sc) chacha20 \<Rightarrow> u16 \<Rightarrow> u16 \<Rightarrow> ('sc::linorder \<times> weight) list \<Rightarrow> 'sc list \<Rightarrow> 'seed \<Rightarrow>
   'sc list option exec" where
  "select_authorities_v1 R num_trustless_candidates num_permissioned_candidates
     trustless_candidates permissioned_candidates seed =
     (let committee_size = num_trustless_candidates + num_permissioned_candidates
      in select_authorities_wr R
           (weighted_candidates_v1 num_trustless_candidates num_permissioned_candidates
              trustless_candidates permissioned_candidates)
           seed committee_size)"

section \<open>The weights\<close>

text \<open>A bound under which none of the 128-bit products of the weight computation wraps. Stake is
  at most 45 * 10^15 lovelace (below \<open>2 ^ 56\<close>) and the seats are 16-bit numbers, so it holds for up
  to \<open>2 ^ 50\<close> permissioned candidates.\<close>

definition v1_fits :: "u16 \<Rightarrow> u16 \<Rightarrow> ('sc \<times> weight) list \<Rightarrow> 'sc list \<Rightarrow> bool" where
  "v1_fits T P ts ps \<longleftrightarrow>
     (length ps + 1) * ((unat T + unat P + 1) * (weight_sum ts + 1)) < 2 ^ 128"

lemma v1_fits_le:
  assumes "v1_fits T P ts ps" and "a \<le> length ps + 1" and "b \<le> unat T + unat P + 1"
    and "c \<le> weight_sum ts + 1"
  shows "a * (b * c) < 2 ^ 128"
  using assms unfolding v1_fits_def by (meson le_less_trans mult_le_mono)

lemma weight_sum_scale:
  assumes "weight_sum ts * unat k < 2 ^ 128"
  shows "weight_sum (map (\<lambda>(c, w). (c, w * k)) ts) = weight_sum ts * unat k"
  using assms
proof (induction ts)
  case Nil
  then show ?case by simp
next
  case (Cons t ts)
  obtain c w where t: "t = (c, w)" by (cases t)
  have "unat w * unat k < 2 ^ 128" and "weight_sum ts * unat k < 2 ^ 128"
    using Cons.prems by (simp_all add: t distrib_right)
  then show ?case using Cons.IH by (simp add: t distrib_right unat_mult_no_overflow)
qed

lemma weight_sum_const: "weight_sum (map (\<lambda>c. (c, w)) ps) = length ps * unat w"
  by (induction ps) auto

lemma unat_weight_factor:
  assumes "v1_fits T P ts ps" and "ps \<noteq> []"
  shows "unat (ucast T * of_nat (length ps) :: u128) = unat T * length ps"
proof -
  have "length ps * (1 * 1) < 2 ^ 128" using assms(1) by (rule v1_fits_le) simp_all
  then have len: "unat (of_nat (length ps) :: u128) = length ps" by (simp add: unat_of_nat_fits)
  have "length ps * (unat T * 1) < 2 ^ 128" using assms(1) by (rule v1_fits_le) simp_all
  then show ?thesis
    by (subst unat_mult_no_overflow) (simp_all add: len unat_ucast_widen mult.commute)
qed

lemma weight_sum_trustless:
  assumes "v1_fits T P ts ps"
  shows "weight_sum (trustless_candidates_with_weights ts T (length ps)) =
         (if ps = [] then weight_sum ts else weight_sum ts * (unat T * length ps))"
proof (cases "ps = []")
  case True
  then show ?thesis by (simp add: trustless_candidates_with_weights_def)
next
  case False
  have "length ps * (unat T * weight_sum ts) < 2 ^ 128"
    using assms by (rule v1_fits_le) simp_all
  then show ?thesis
    using False unat_weight_factor [OF assms False]
    by (simp add: trustless_candidates_with_weights_def weight_sum_scale mult_ac)
qed

lemma weight_sum_permissioned:
  assumes "v1_fits T P ts ps"
  shows "weight_sum (permissioned_candidates_with_weights ps P T (total_weight_of ts)) =
         (if 0 < weight_sum ts \<and> 0 < T then length ps * (unat P * weight_sum ts) else length ps)"
proof -
  have "1 * (1 * weight_sum ts) < 2 ^ 128" using assms by (rule v1_fits_le) simp_all
  then have tw: "unat (total_weight_of ts) = weight_sum ts" by (simp add: unat_total_weight_of)
  then have pos: "0 < total_weight_of ts \<longleftrightarrow> 0 < weight_sum ts" by (simp add: word_less_nat_alt)
  have "1 * (unat P * weight_sum ts) < 2 ^ 128" using assms by (rule v1_fits_le) simp_all
  then have "unat (ucast P * total_weight_of ts :: u128) = unat P * weight_sum ts"
    by (subst unat_mult_no_overflow) (simp_all add: tw unat_ucast_widen)
  then show ?thesis
    by (simp add: permissioned_candidates_with_weights_def weight_sum_const pos)
qed

lemma weight_sum_weighted_v1:
  assumes "v1_fits T P ts ps"
  shows "weight_sum (weighted_candidates_v1 T P ts ps) =
         weight_sum (trustless_candidates_with_weights ts T (length ps)) +
         weight_sum (permissioned_candidates_with_weights ps P T (total_weight_of ts))"
    and "weight_sum (weighted_candidates_v1 T P ts ps) < 2 ^ 128"
proof -
  show eq: "weight_sum (weighted_candidates_v1 T P ts ps) =
      weight_sum (trustless_candidates_with_weights ts T (length ps)) +
      weight_sum (permissioned_candidates_with_weights ps P T (total_weight_of ts))"
    unfolding weighted_candidates_v1_def Let_def
    by (subst weight_sum_cong [OF mset_sort]) simp
  have "weight_sum (weighted_candidates_v1 T P ts ps) \<le>
      (length ps + 1) * ((unat T + unat P + 1) * (weight_sum ts + 1))"
    unfolding eq weight_sum_trustless [OF assms] weight_sum_permissioned [OF assms]
    by (auto simp: algebra_simps)
  then show "weight_sum (weighted_candidates_v1 T P ts ps) < 2 ^ 128"
    using assms unfolding v1_fits_def by (rule le_less_trans)
qed

lemma electable_weighted_v1:
  "electable (weighted_candidates_v1 T P ts ps) \<subseteq> electable ts \<union> set ps"
  unfolding electable_def weighted_candidates_v1_def trustless_candidates_with_weights_def
    permissioned_candidates_with_weights_def Let_def
  by (auto simp: word_gt_0 split: if_splits)

section \<open>Properties\<close>

text \<open>The D-parameter ratio is exact. With candidates of both kinds, positive stake and a positive
  number of trustless seats, the total weight of the trustless candidates relates to the total weight
  of the permissioned candidates as \<open>T\<close> to \<open>P\<close>, and within the trustless group every candidate
  keeps its share of the stake.\<close>

theorem ariadne_d_parameter_ratio:
  assumes "v1_fits T P ts ps" and "ps \<noteq> []" and "0 < weight_sum ts" and "0 < T"
  shows "unat P * weight_sum (trustless_candidates_with_weights ts T (length ps)) =
           unat T * weight_sum (permissioned_candidates_with_weights ps P T (total_weight_of ts)) \<and>
         (\<forall>i < length ts.
            unat (snd (trustless_candidates_with_weights ts T (length ps) ! i)) * weight_sum ts =
            unat (snd (ts ! i)) * weight_sum (trustless_candidates_with_weights ts T (length ps)))"
proof (intro conjI allI impI)
  show "unat P * weight_sum (trustless_candidates_with_weights ts T (length ps)) =
      unat T * weight_sum (permissioned_candidates_with_weights ps P T (total_weight_of ts))"
    using assms(2-4)
    by (simp add: weight_sum_trustless [OF assms(1)] weight_sum_permissioned [OF assms(1)])
next
  fix i assume i: "i < length ts"
  let ?k = "ucast T * of_nat (length ps) :: u128"
  have "unat (snd (ts ! i)) \<le> weight_sum ts"
    using weight_sum_take_Suc [OF i] weight_sum_take_le [of "Suc i" ts] by linarith
  then have "length ps * (unat T * unat (snd (ts ! i))) < 2 ^ 128"
    by (intro v1_fits_le [OF assms(1)]) simp_all
  then have "unat (snd (ts ! i) * ?k) = unat (snd (ts ! i)) * unat ?k"
    by (intro unat_mult_no_overflow) (simp add: unat_weight_factor [OF assms(1,2)] mult_ac)
  moreover have "snd (trustless_candidates_with_weights ts T (length ps) ! i) = snd (ts ! i) * ?k"
    using i assms(2) by (simp add: trustless_candidates_with_weights_def split_beta)
  ultimately show "unat (snd (trustless_candidates_with_weights ts T (length ps) ! i)) * weight_sum ts =
      unat (snd (ts ! i)) * weight_sum (trustless_candidates_with_weights ts T (length ps))"
    using assms(2) unat_weight_factor [OF assms(1,2)] by (simp add: weight_sum_trustless [OF assms(1)])
qed

theorem ariadne_d_parameter_ratio_witness:
  "unat (2 :: u16) * weight_sum (trustless_candidates_with_weights [(1 :: nat, 5), (2, 10)] 3
       (length [7, 8 :: nat])) =
     unat (3 :: u16) * weight_sum (permissioned_candidates_with_weights [7, 8 :: nat] 2 3
       (total_weight_of [(1 :: nat, 5), (2, 10)]))"
  using ariadne_d_parameter_ratio [of 3 2 "[(1 :: nat, 5), (2, 10)]" "[7, 8]"]
  by (simp add: v1_fits_def)

text \<open>Ariadne is total and fills every seat. If there is a permissioned candidate or a trustless
  candidate with stake, and no product of the weight computation exceeds 128 bits, the committee has
  the size \<open>T + P\<close> (as a 16-bit sum), every member is a permissioned candidate or a trustless
  candidate with positive stake, and no panic occurs.\<close>

theorem select_authorities_v1_total:
  assumes "chacha20_ok R" and "v1_fits T P ts ps" and "ps \<noteq> [] \<or> 0 < weight_sum ts"
  shows "\<exists>committee. select_authorities_v1 R T P ts ps seed = Ret (Some committee) \<and>
           length committee = unat (T + P) \<and> set committee \<subseteq> electable ts \<union> set ps"
proof -
  note W = weight_sum_weighted_v1 [OF assms(2)]
  have "0 < weight_sum (weighted_candidates_v1 T P ts ps)"
    using assms(3)
    by (auto simp: W(1) weight_sum_trustless [OF assms(2)] weight_sum_permissioned [OF assms(2)]
        word_gt_0 unat_gt_0)
  then have "total_weight_of (weighted_candidates_v1 T P ts ps) \<noteq> 0"
    using unat_total_weight_of [OF W(2)] by auto
  then obtain committee
    where "select_authorities_wr R (weighted_candidates_v1 T P ts ps) seed (T + P) =
             Ret (Some committee)"
      and "length committee = unat (T + P)"
      and "set committee \<subseteq> electable (weighted_candidates_v1 T P ts ps)"
    by (rule select_authorities_wr_ok [OF assms(1) W(2)])
  then show ?thesis
    using electable_weighted_v1 [of T P ts ps] by (auto simp: select_authorities_v1_def)
qed

theorem select_authorities_v1_total_witness:
  "\<exists>committee. select_authorities_v1 (counter_rng :: (nat, nat, nat) chacha20) 3 2
       [(1, 5), (2, 10)] [7, 8] 0 = Ret (Some committee) \<and>
     length committee = 5 \<and> set committee \<subseteq> electable [(1, 5), (2, 10)] \<union> set [7, 8]"
  using select_authorities_v1_total [OF counter_rng_ok, of 3 2 "[(1 :: nat, 5), (2, 10)]" "[7, 8]" 0]
  by (simp add: v1_fits_def)

text \<open>The committee does not depend on the order in which the candidates are listed: permuting
  the trustless candidates and permuting the permissioned candidates leaves the result unchanged.\<close>

theorem select_authorities_v1_order_independent:
  assumes "mset ts = mset ts'" and "mset ps = mset ps'"
  shows "select_authorities_v1 R T P ts ps seed = select_authorities_v1 R T P ts' ps' seed"
proof -
  have "length ps = length ps'" using assms(2) by (rule mset_eq_length)
  moreover have "total_weight_of ts = total_weight_of ts'"
    using assms(1) by (rule total_weight_of_cong)
  ultimately have "weighted_candidates_v1 T P ts ps = weighted_candidates_v1 T P ts' ps'"
    unfolding weighted_candidates_v1_def Let_def
    by (intro sort_eq_if_mset_eq)
      (simp add: trustless_candidates_with_weights_def permissioned_candidates_with_weights_def
        Let_def assms)
  then show ?thesis by (simp add: select_authorities_v1_def)
qed

theorem select_authorities_v1_order_independent_witness:
  "select_authorities_v1 (counter_rng :: (nat, nat, nat) chacha20) 3 2 [(1, 5), (2, 10)] [7, 8] 0 =
   select_authorities_v1 counter_rng 3 2 [(2, 10), (1, 5)] [8, 7] 0"
  by (rule select_authorities_v1_order_independent) simp_all

end
