(* ===== verification/Mainchain_Epoch.thy ===== *)
theory Mainchain_Epoch
  imports PC_Prelude
begin

text \<open>
  Calculations on main chain (Cardano) epochs and slots, \<open>mainchain_epoch.rs\<close> of
  \<open>toolkit/sidechain/domain\<close>. Timestamps and durations are unsigned 64-bit milliseconds, epoch
  numbers are 32-bit, slot numbers 64-bit.
\<close>

section \<open>The calculations\<close>

record mainchain_epoch_config =
  epoch_duration_millis :: u64
  slot_duration_millis :: u64
  first_epoch_timestamp_millis :: u64
  first_epoch_number :: u32
  first_slot_number :: u64

datatype epoch_derivation_error = TimestampTooSmall | EpochTooBig | EpochTooSmall | SlotTooSmall

definition slots_per_epoch :: "mainchain_epoch_config \<Rightarrow> u64" where
  "slots_per_epoch cfg = epoch_duration_millis cfg div 1000"

definition epochs_passed ::
  "mainchain_epoch_config \<Rightarrow> u64 \<Rightarrow> (epoch_derivation_error + u32) exec" where
  "epochs_passed cfg timestamp =
     (case checked_sub timestamp (first_epoch_timestamp_millis cfg) of
        None \<Rightarrow> Ret (Inl TimestampTooSmall)
      | Some time_elapsed \<Rightarrow>
          exec_map (\<lambda>q. try_bind (ok_or (try_narrow q) EpochTooBig)
                           (\<lambda>res. if res > 2147483647 then Inl EpochTooBig else Inr res))
            (exec_div time_elapsed (epoch_duration_millis cfg)))"

definition timestamp_to_mainchain_epoch ::
  "mainchain_epoch_config \<Rightarrow> u64 \<Rightarrow> (epoch_derivation_error + u32) exec" where
  "timestamp_to_mainchain_epoch cfg timestamp =
     exec_map (\<lambda>r. try_bind r (\<lambda>passed. Inr (saturating_add (first_epoch_number cfg) passed)))
       (epochs_passed cfg timestamp)"

definition timestamp_to_mainchain_slot_number ::
  "mainchain_epoch_config \<Rightarrow> u64 \<Rightarrow> (epoch_derivation_error + u64) exec" where
  "timestamp_to_mainchain_slot_number cfg timestamp =
     (case checked_sub timestamp (first_epoch_timestamp_millis cfg) of
        None \<Rightarrow> Ret (Inl TimestampTooSmall)
      | Some time_elapsed \<Rightarrow>
          exec_map (\<lambda>q. Inr (first_slot_number cfg + q))
            (exec_div time_elapsed (slot_duration_millis cfg)))"

definition mainchain_epoch_to_timestamp :: "mainchain_epoch_config \<Rightarrow> u32 \<Rightarrow> u64" where
  "mainchain_epoch_to_timestamp cfg epoch =
     (let time_elapsed = epoch_duration_millis cfg * ucast epoch
      in first_epoch_timestamp_millis cfg + time_elapsed)"

definition first_slot_of_epoch ::
  "mainchain_epoch_config \<Rightarrow> u32 \<Rightarrow> epoch_derivation_error + u64" where
  "first_slot_of_epoch cfg epoch =
     try_bind (ok_or (checked_sub epoch (first_epoch_number cfg)) EpochTooSmall)
       (\<lambda>epochs_since_first_epoch.
          let slots_since_first_epoch = ucast epochs_since_first_epoch * slots_per_epoch cfg
          in Inr (slots_since_first_epoch + first_slot_number cfg))"

definition epoch_for_slot ::
  "mainchain_epoch_config \<Rightarrow> u64 \<Rightarrow> (epoch_derivation_error + u32) exec" where
  "epoch_for_slot cfg slot =
     (case checked_sub slot (first_slot_number cfg) of
        None \<Rightarrow> Ret (Inl SlotTooSmall)
      | Some slots_since_first_slot \<Rightarrow>
          exec_map (\<lambda>q. try_bind (ok_or (try_narrow q) EpochTooBig)
                           (\<lambda>since. Inr (first_epoch_number cfg + since)))
            (exec_div slots_since_first_slot (slots_per_epoch cfg)))"

section \<open>Over the natural numbers\<close>

text \<open>The elapsed time is the one quantity the operations share.\<close>

definition elapsed :: "mainchain_epoch_config \<Rightarrow> u64 \<Rightarrow> nat" where
  "elapsed cfg t = unat t - unat (first_epoch_timestamp_millis cfg)"

lemma epochs_passed_Inr_iff:
  assumes "epoch_duration_millis cfg \<noteq> 0"
  shows "epochs_passed cfg t = Ret (Inr n) \<longleftrightarrow>
    first_epoch_timestamp_millis cfg \<le> t \<and> unat n \<le> 2147483647 \<and>
    unat n = elapsed cfg t div unat (epoch_duration_millis cfg)"
proof (cases "first_epoch_timestamp_millis cfg \<le> t")
  case True
  define q where "q = (t - first_epoch_timestamp_millis cfg) div epoch_duration_millis cfg"
  have "unat q = elapsed cfg t div unat (epoch_duration_millis cfg)"
    using True by (simp add: q_def elapsed_def unat_div unat_sub_le)
  moreover have "epochs_passed cfg t = Ret (try_bind (ok_or (try_narrow q) EpochTooBig)
      (\<lambda>res :: u32. if res > 2147483647 then Inl EpochTooBig else Inr res))"
    using True assms by (simp add: epochs_passed_def checked_sub_def exec_div_def q_def)
  ultimately show ?thesis
    using True by (auto simp: try_narrow_Some_iff word_less_nat_alt split: if_splits intro!: exI [of _ n])
next
  case False
  then show ?thesis by (simp add: epochs_passed_def checked_sub_def)
qed

lemma exec_map_try_Ret_Inr:
  "exec_map (\<lambda>r. try_bind r (\<lambda>x. Inr (f x))) m = Ret (Inr y) \<longleftrightarrow> (\<exists>x. m = Ret (Inr x) \<and> y = f x)"
proof (cases m)
  case (Ret r)
  then show ?thesis by (cases r) auto
qed simp

lemma first_slot_of_epoch_Inr:
  assumes "first_epoch_number cfg \<le> e"
    and "(unat e - unat (first_epoch_number cfg)) * unat (slots_per_epoch cfg) +
           unat (first_slot_number cfg) < 2 ^ 64"
  shows "\<exists>s. first_slot_of_epoch cfg e = Inr s \<and>
    unat s = (unat e - unat (first_epoch_number cfg)) * unat (slots_per_epoch cfg) +
      unat (first_slot_number cfg)"
proof -
  let ?d = "e - first_epoch_number cfg"
  have d: "unat (ucast ?d :: u64) = unat e - unat (first_epoch_number cfg)"
    using assms(1) by (simp add: unat_ucast_widen unat_sub_le)
  have "unat (ucast ?d :: u64) * unat (slots_per_epoch cfg) < 2 ^ LENGTH(64)"
    unfolding d using assms(2) by simp
  then have m: "unat (ucast ?d * slots_per_epoch cfg) =
      (unat e - unat (first_epoch_number cfg)) * unat (slots_per_epoch cfg)"
    by (simp add: unat_mult_no_overflow d)
  have "unat (ucast ?d * slots_per_epoch cfg + first_slot_number cfg) =
      unat (ucast ?d * slots_per_epoch cfg) + unat (first_slot_number cfg)"
    using assms(2) unfolding m [symmetric] by (intro unat_add_no_overflow) simp
  then show ?thesis
    using assms(1) m by (simp add: first_slot_of_epoch_def checked_sub_def)
qed

lemma epoch_for_slot_Inr_iff:
  assumes "slots_per_epoch cfg \<noteq> 0"
  shows "epoch_for_slot cfg s = Ret (Inr e) \<longleftrightarrow> first_slot_number cfg \<le> s \<and>
    (\<exists>n :: u32. unat n = (unat s - unat (first_slot_number cfg)) div unat (slots_per_epoch cfg) \<and>
       e = first_epoch_number cfg + n)"
proof (cases "first_slot_number cfg \<le> s")
  case True
  define q where "q = (s - first_slot_number cfg) div slots_per_epoch cfg"
  have q: "unat q = (unat s - unat (first_slot_number cfg)) div unat (slots_per_epoch cfg)"
    using True by (simp add: q_def unat_div unat_sub_le)
  have "epoch_for_slot cfg s = Ret (try_bind (ok_or (try_narrow q) EpochTooBig)
      (\<lambda>n. Inr (first_epoch_number cfg + n)))"
    using True assms by (simp add: epoch_for_slot_def checked_sub_def exec_div_def q_def)
  then show ?thesis
    using True by (auto simp: try_narrow_Some_iff q)
next
  case False
  then show ?thesis by (simp add: epoch_for_slot_def checked_sub_def)
qed

section \<open>Properties\<close>

text \<open>\<open>timestamp_to_mainchain_epoch\<close> is exact: for a non-zero epoch duration and a first epoch
  number of at most 31 bits, it returns epoch \<open>e\<close> for precisely the timestamps of the half-open
  interval that starts \<open>e - first\<close> epoch durations after the reference timestamp and lasts one epoch
  duration (for up to \<open>2 ^ 31 - 1\<close> epochs; every other timestamp gives an error).\<close>

theorem timestamp_to_mainchain_epoch_interval:
  assumes "epoch_duration_millis cfg \<noteq> 0" and "first_epoch_number cfg \<le> 2147483647"
  shows "timestamp_to_mainchain_epoch cfg t = Ret (Inr e) \<longleftrightarrow>
    (\<exists>k \<le> 2147483647. unat e = unat (first_epoch_number cfg) + k \<and>
      unat (first_epoch_timestamp_millis cfg) + k * unat (epoch_duration_millis cfg) \<le> unat t \<and>
      unat t < unat (first_epoch_timestamp_millis cfg) + (k + 1) * unat (epoch_duration_millis cfg))"
    (is "?L \<longleftrightarrow> (\<exists>k \<le> 2147483647. ?P k)")
proof -
  let ?f = "first_epoch_number cfg" and ?t0 = "unat (first_epoch_timestamp_millis cfg)"
  let ?d = "unat (epoch_duration_millis cfg)"
  have d: "0 < ?d" using assms(1) by (simp add: unat_gt_0)
  have f: "unat ?f \<le> 2147483647" using assms(2) by (simp add: word_le_nat_alt)
  have sat: "e = saturating_add ?f n \<longleftrightarrow> unat e = unat ?f + unat n" if "unat n \<le> 2147483647" for n
    using that f by (simp add: word_unat_eq_iff unat_saturating_add)
  have iv: "first_epoch_timestamp_millis cfg \<le> t \<and> k = elapsed cfg t div ?d \<longleftrightarrow>
      ?t0 + k * ?d \<le> unat t \<and> unat t < ?t0 + (k + 1) * ?d" for k
    unfolding div_eq_iff_interval [OF d] elapsed_def word_le_nat_alt by auto
  have "?L \<longleftrightarrow> (\<exists>n. epochs_passed cfg t = Ret (Inr n) \<and> e = saturating_add ?f n)"
    unfolding timestamp_to_mainchain_epoch_def by (rule exec_map_try_Ret_Inr)
  also have "\<dots> \<longleftrightarrow> (\<exists>n :: u32. unat n \<le> 2147483647 \<and> ?P (unat n))"
    using iv sat unfolding epochs_passed_Inr_iff [OF assms(1)] by blast
  also have "\<dots> \<longleftrightarrow> (\<exists>k \<le> 2147483647. ?P k)"
  proof
    assume "\<exists>k \<le> 2147483647. ?P k"
    then obtain k where k: "k \<le> 2147483647" "?P k" by blast
    then have "unat (of_nat k :: u32) = k" by (intro unat_of_nat_fits) simp
    then show "\<exists>n :: u32. unat n \<le> 2147483647 \<and> ?P (unat n)"
      using k by (intro exI [of _ "of_nat k"]) simp
  qed blast
  finally show ?thesis .
qed

definition mainnet_config :: mainchain_epoch_config where
  "mainnet_config = \<lparr>epoch_duration_millis = 432000000, slot_duration_millis = 1000,
     first_epoch_timestamp_millis = 1596059091000, first_epoch_number = 208, first_slot_number = 4492800\<rparr>"

theorem timestamp_to_mainchain_epoch_interval_witness:
  "timestamp_to_mainchain_epoch mainnet_config 1596491091000 = Ret (Inr 209)"
  by (subst timestamp_to_mainchain_epoch_interval) (auto simp: mainnet_config_def intro!: exI [of _ 1])

text \<open>Slots and epochs round trip: the first slot of an epoch belongs to that epoch, and so does
  the last slot before the first slot of the next one, whenever the slot numbers involved fit 64 bits
  and an epoch has at least one slot.\<close>

theorem epoch_for_slot_of_first_slot:
  assumes "slots_per_epoch cfg \<noteq> 0" and "first_epoch_number cfg \<le> e"
    and "(unat e - unat (first_epoch_number cfg) + 1) * unat (slots_per_epoch cfg) +
           unat (first_slot_number cfg) < 2 ^ 64"
    and "j < unat (slots_per_epoch cfg)"
  shows "\<exists>s. first_slot_of_epoch cfg e = Inr s \<and>
    epoch_for_slot cfg (s + of_nat j) = Ret (Inr e)"
proof -
  let ?k = "unat e - unat (first_epoch_number cfg)" and ?n = "unat (slots_per_epoch cfg)"
  let ?s0 = "unat (first_slot_number cfg)"
  have bound: "?k * ?n + ?s0 + j < 2 ^ 64" using assms(3,4) by (simp add: distrib_right)
  then have "?k * ?n + ?s0 < 2 ^ 64" by linarith
  from first_slot_of_epoch_Inr [OF assms(2) this] obtain s
    where s: "first_slot_of_epoch cfg e = Inr s" "unat s = ?k * ?n + ?s0" by blast
  have "unat (of_nat j :: u64) = j" using bound by (simp add: unat_of_nat_fits)
  then have sj: "unat (s + of_nat j) = ?k * ?n + ?s0 + j"
    using bound s(2) by (simp add: unat_add_no_overflow)
  have "?k = (?k * ?n + j) div ?n" using assms(4) by simp
  then have "?k = (unat (s + of_nat j) - ?s0) div ?n" by (simp add: sj)
  moreover have "first_slot_number cfg \<le> s + of_nat j" by (simp add: word_le_nat_alt sj)
  moreover have "unat (e - first_epoch_number cfg) = ?k" using assms(2) by (rule unat_sub_le)
  ultimately have "epoch_for_slot cfg (s + of_nat j) = Ret (Inr e)"
    unfolding epoch_for_slot_Inr_iff [OF assms(1)]
    by (intro conjI exI [of _ "e - first_epoch_number cfg"]) simp_all
  with s(1) show ?thesis by blast
qed

theorem epoch_for_slot_of_first_slot_witness:
  "\<exists>s. first_slot_of_epoch mainnet_config 210 = Inr s \<and>
     epoch_for_slot mainnet_config (s + of_nat 431999) = Ret (Inr 210)"
  by (rule epoch_for_slot_of_first_slot) (simp_all add: mainnet_config_def slots_per_epoch_def)

text \<open>For the one-second slots of Cardano the two clocks agree: the epoch of a timestamp equals the
  epoch of its slot, whenever the epoch lasts a whole number of seconds, the slot number does not
  overflow and the epoch derivation succeeds.\<close>

theorem timestamp_epoch_slot_agree:
  assumes "epoch_duration_millis cfg \<noteq> 0" and "1000 dvd unat (epoch_duration_millis cfg)"
    and "slot_duration_millis cfg = 1000" and "first_epoch_number cfg \<le> 2147483647"
    and "unat (first_slot_number cfg) + elapsed cfg t div 1000 < 2 ^ 64"
    and "timestamp_to_mainchain_epoch cfg t = Ret (Inr e)"
  shows "\<exists>s. timestamp_to_mainchain_slot_number cfg t = Ret (Inr s) \<and>
    epoch_for_slot cfg s = Ret (Inr e)"
proof -
  let ?t0 = "first_epoch_timestamp_millis cfg" and ?f = "first_epoch_number cfg"
  obtain m where m: "unat (epoch_duration_millis cfg) = 1000 * m" using assms(2) by blast
  then have m0: "0 < m" using assms(1) by (auto simp: unat_eq_zero [symmetric] intro: Nat.gr0I)
  have spe: "unat (slots_per_epoch cfg) = m" by (simp add: slots_per_epoch_def unat_div m)
  obtain n where n: "epochs_passed cfg t = Ret (Inr n)" "e = saturating_add ?f n"
    using assms(6) unfolding timestamp_to_mainchain_epoch_def exec_map_try_Ret_Inr by blast
  then have t: "?t0 \<le> t" "unat n \<le> 2147483647" "unat n = elapsed cfg t div (1000 * m)"
    using epochs_passed_Inr_iff [OF assms(1)] by (simp_all add: m)
  define s where "s = first_slot_number cfg + (t - ?t0) div 1000"
  have q: "unat ((t - ?t0) div 1000) = elapsed cfg t div 1000"
    using t(1) by (simp add: unat_div unat_sub_le elapsed_def)
  then have s: "unat s = unat (first_slot_number cfg) + elapsed cfg t div 1000"
    unfolding s_def using assms(5) by (simp add: unat_add_no_overflow)
  have "unat n = (unat s - unat (first_slot_number cfg)) div m"
    using t(3) by (simp add: s div_mult2_eq)
  moreover have "e = ?f + n"
    using n(2) t(2) assms(4) by (simp add: saturating_add_def word_le_nat_alt)
  moreover have "slots_per_epoch cfg \<noteq> 0" using spe m0 by auto
  ultimately have "epoch_for_slot cfg s = Ret (Inr e)"
    using s by (auto simp: epoch_for_slot_Inr_iff spe word_le_nat_alt)
  moreover have "timestamp_to_mainchain_slot_number cfg t = Ret (Inr s)"
    using t(1) assms(3)
    by (simp add: timestamp_to_mainchain_slot_number_def checked_sub_def exec_div_def s_def)
  ultimately show ?thesis by blast
qed

theorem timestamp_epoch_slot_agree_witness:
  "\<exists>s. timestamp_to_mainchain_slot_number mainnet_config 1596491091000 = Ret (Inr s) \<and>
     epoch_for_slot mainnet_config s = Ret (Inr 209)"
proof (rule timestamp_epoch_slot_agree)
  show "timestamp_to_mainchain_epoch mainnet_config 1596491091000 = Ret (Inr 209)"
    by (simp add: timestamp_to_mainchain_epoch_def epochs_passed_def checked_sub_def exec_div_def
        try_narrow_def saturating_add_def mainnet_config_def)
qed (simp_all add: mainnet_config_def elapsed_def)

text \<open>C36: \<open>mainchain_epoch_to_timestamp\<close> does not invert \<open>timestamp_to_mainchain_epoch\<close>: it counts
  \<open>epoch\<close> durations from the reference timestamp although that timestamp starts epoch
  \<open>first_epoch_number\<close>, so the timestamp it returns lies in epoch \<open>first_epoch_number + epoch\<close>.\<close>

theorem mainchain_epoch_to_timestamp_shifted:
  assumes "epoch_duration_millis cfg \<noteq> 0" and "first_epoch_number cfg \<le> 2147483647"
    and "e \<le> 2147483647"
    and "unat (first_epoch_timestamp_millis cfg) + unat (epoch_duration_millis cfg) * unat e < 2 ^ 64"
  shows "timestamp_to_mainchain_epoch cfg (mainchain_epoch_to_timestamp cfg e) =
    Ret (Inr (first_epoch_number cfg + e))"
proof -
  let ?t0 = "first_epoch_timestamp_millis cfg" and ?d = "epoch_duration_millis cfg"
  have e: "unat (ucast e :: u64) = unat e" by (simp add: unat_ucast_widen)
  have le: "unat e \<le> 2147483647" and f: "unat (first_epoch_number cfg) \<le> 2147483647"
    using assms(2,3) by (simp_all add: word_le_nat_alt)
  from assms(4) have "unat ?d * unat e < 2 ^ 64" by linarith
  then have "unat (?d * ucast e) = unat ?d * unat e" by (simp add: unat_mult_no_overflow e)
  then have ts: "unat (mainchain_epoch_to_timestamp cfg e) = unat ?t0 + unat ?d * unat e"
    using assms(4) by (simp add: mainchain_epoch_to_timestamp_def unat_add_no_overflow)
  have "epochs_passed cfg (mainchain_epoch_to_timestamp cfg e) = Ret (Inr e)"
    unfolding epochs_passed_Inr_iff [OF assms(1)]
    using le assms(1) by (simp add: word_le_nat_alt ts elapsed_def unat_eq_zero)
  then show ?thesis
    using le f by (simp add: timestamp_to_mainchain_epoch_def saturating_add_def)
qed

theorem mainchain_epoch_to_timestamp_shifted_witness:
  "timestamp_to_mainchain_epoch mainnet_config (mainchain_epoch_to_timestamp mainnet_config 208) =
     Ret (Inr 416)"
  using mainchain_epoch_to_timestamp_shifted [of mainnet_config 208]
  by (simp add: mainnet_config_def)

end
