(* ===== verification/Ariadne_V2.thy ===== *)
theory Ariadne_V2
  imports Weighted_Random
begin

text \<open>
  Ariadne committee selection with guaranteed seats, \<open>ariadne_v2.rs\<close> of
  \<open>toolkit/committee-selection/selection\<close>: every candidate gets the integer part of its expected
  number of seats, the seats that are left are drawn by weighted selection over the fractional
  parts. The code runs inside the WebAssembly runtime, where \<open>usize\<close> has 32 bits.
\<close>

section \<open>The selection\<close>

record 't select_guaranteed_result =
  sgr_selected :: "'t list"
  sgr_remaining :: "('t \<times> weight) list"

fun guaranteed_loop ::
  "u128 \<Rightarrow> ('t \<times> weight) list \<Rightarrow> 't list \<Rightarrow> ('t \<times> weight) list \<Rightarrow> 't select_guaranteed_result exec" where
  "guaranteed_loop threshold [] selected remaining =
     Ret \<lparr>sgr_selected = selected, sgr_remaining = remaining\<rparr>"
| "guaranteed_loop threshold ((c, weight) # scaled) selected remaining =
     (if threshold = 0 then Panic
      else exec_bind (expect (try_narrow (weight div threshold) :: u32 option)) (\<lambda>guaranteed.
        let remaining_weight = weight mod threshold;
            selected = selected @ replicate (unat guaranteed) c
        in guaranteed_loop threshold scaled selected
             (if remaining_weight > 0 then remaining @ [(c, remaining_weight)] else remaining)))"

definition select_guaranteed ::
  "('t \<times> weight) list \<Rightarrow> u16 \<Rightarrow> 't select_guaranteed_result exec" where
  "select_guaranteed weighted_candidates n =
     (let threshold = total_weight_of weighted_candidates;
          scale = ucast n;
          scaled_candidates = map (\<lambda>(c, weight). (c, weight * scale))
            (filter (\<lambda>(_, weight). weight > 0) weighted_candidates)
      in guaranteed_loop threshold scaled_candidates [] [])"

definition select_remaining ::
  "('seed, 'rng, 'sc) chacha20 \<Rightarrow> ('t \<times> weight) list \<Rightarrow> u16 \<Rightarrow> 'rng \<Rightarrow> 't list exec" where
  "select_remaining R weighted_candidates n rng =
     exec_map (\<lambda>selected. case selected of None \<Rightarrow> [] | Some s \<Rightarrow> s)
       (select_authorities_wr R weighted_candidates (get_seed R rng) n)"

definition weighted_with_guaranteed_assignment ::
  "('seed, 'rng, 'sc) chacha20 \<Rightarrow> ('t::linorder \<times> weight) list \<Rightarrow> u16 \<Rightarrow> 'rng \<Rightarrow> 't list exec" where
  "weighted_with_guaranteed_assignment R candidates n rng =
     (if candidates = [] \<or> n = 0 then Ret []
      else let candidates = sort candidates in
        exec_bind (select_guaranteed candidates n) (\<lambda>res.
        exec_bind (expect (try_of_nat (length (sgr_selected res)))) (\<lambda>selected_count.
        exec_map (\<lambda>rest. sgr_selected res @ rest)
          (select_remaining R (sgr_remaining res) (n - selected_count) rng))))"

definition select_authorities_v2 ::
  "('seed, 'rng, 'sc) chacha20 \<Rightarrow> u16 \<Rightarrow> u16 \<Rightarrow> ('sc::linorder \<times> weight) list \<Rightarrow> 'sc list \<Rightarrow> 'seed \<Rightarrow>
   'sc list option exec" where
  "select_authorities_v2 R registered_seats permissioned_seats registered_candidates
     permissioned_candidates seed =
     (let seats_total = permissioned_seats + registered_seats;
          rng = from_seed R seed;
          permissioned_candidates = map (\<lambda>c. (c, 1)) permissioned_candidates
      in exec_map (\<lambda>selected.
             let selected = fst (shuffle R selected rng)
             in if selected = [] \<and> seats_total > 0 then None else Some selected)
           (if registered_candidates \<noteq> [] \<and> permissioned_candidates \<noteq> [] then
              exec_bind
                (weighted_with_guaranteed_assignment R registered_candidates registered_seats rng)
                (\<lambda>registered_selected.
              exec_map (\<lambda>permissioned_selected. registered_selected @ permissioned_selected)
                (weighted_with_guaranteed_assignment R permissioned_candidates permissioned_seats rng))
            else if registered_candidates = [] then
              weighted_with_guaranteed_assignment R permissioned_candidates seats_total rng
            else
              weighted_with_guaranteed_assignment R registered_candidates seats_total rng))"

section \<open>The guaranteed seats\<close>

text \<open>The specification: candidate \<open>c\<close> with weight \<open>w\<close> out of the total \<open>W\<close> expects \<open>n * w / W\<close>
  of \<open>n\<close> seats.\<close>

definition floor_seats :: "nat \<Rightarrow> nat \<Rightarrow> 't \<times> weight \<Rightarrow> nat" where
  "floor_seats n W p = unat (snd p) * n div W"

definition guaranteed_seats :: "nat \<Rightarrow> ('t \<times> weight) list \<Rightarrow> 't \<Rightarrow> nat" where
  "guaranteed_seats n cs c =
     sum_list (map (floor_seats n (weight_sum cs)) (filter (\<lambda>p. fst p = c) cs))"

lemma guaranteed_loop_eq:
  assumes "th \<noteq> 0" and "\<And>c w. (c, w) \<in> set xs \<Longrightarrow> unat w div unat th < 2 ^ 32"
  shows "guaranteed_loop th xs sel rem =
    Ret \<lparr>sgr_selected = sel @ concat (map (\<lambda>(c, w). replicate (unat w div unat th) c) xs),
         sgr_remaining = rem @ filter (\<lambda>(c, w). 0 < w) (map (\<lambda>(c, w). (c, w mod th)) xs)\<rparr>"
  using assms(2)
proof (induction xs arbitrary: sel rem)
  case Nil
  then show ?case by simp
next
  case (Cons x xs)
  obtain c w where x: "x = (c, w)" by (cases x)
  have rest: "unat w' div unat th < 2 ^ 32" if "(c', w') \<in> set xs" for c' w'
    using that by (intro Cons.prems [of c']) simp
  have "unat (w div th) < 2 ^ LENGTH(32)" using Cons.prems [of c w] by (simp add: x unat_div)
  then obtain g :: u32 where g: "try_narrow (w div th) = Some g" using fits_try_narrow by blast
  then have "unat g = unat w div unat th" by (simp add: try_narrow_Some_iff unat_div)
  with g show ?case
    using assms(1) by (simp add: x Cons.IH [OF rest])
qed

definition seats_of :: "nat \<Rightarrow> nat \<Rightarrow> ('t \<times> weight) list \<Rightarrow> 't list" where
  "seats_of n W ds = concat (map (\<lambda>p. replicate (floor_seats n W p) (fst p)) ds)"

definition rest_of :: "u128 \<Rightarrow> u128 \<Rightarrow> ('t \<times> weight) list \<Rightarrow> ('t \<times> weight) list" where
  "rest_of scale th ds =
     filter (\<lambda>(c, w). 0 < w) (map (\<lambda>(c, w). (c, w mod th))
       (map (\<lambda>(c, w). (c, w * scale)) (filter (\<lambda>(_, w). 0 < w) ds)))"

lemma weight_le_sum: "(c, w) \<in> set cs \<Longrightarrow> unat w \<le> weight_sum cs"
  by (induction cs) auto

lemma seats_of_scaled:
  assumes "weight_sum ds * unat k < 2 ^ 128" and "unat th = W"
  shows "concat (map (\<lambda>(c, w). replicate (unat w div unat th) c)
           (map (\<lambda>(c, w). (c, w * k)) (filter (\<lambda>(_, w). 0 < w) ds))) = seats_of (unat k) W ds"
  using assms(1)
proof (induction ds)
  case (Cons d ds)
  obtain c w where d: "d = (c, w)" by (cases d)
  have fits: "unat w * unat k < 2 ^ 128" "weight_sum ds * unat k < 2 ^ 128"
    using Cons.prems by (simp_all add: d distrib_right)
  from fits(1) have prod: "unat (w * k) = unat w * unat k" by (simp add: unat_mult_no_overflow)
  have "concat (map (\<lambda>(c, w). replicate (unat w div unat th) c)
      (map (\<lambda>(c, w). (c, w * k)) (filter (\<lambda>(_, w). 0 < w) (d # ds)))) =
      (if 0 < w then replicate (unat (w * k) div unat th) c else []) @ seats_of (unat k) W ds"
    unfolding Cons.IH [OF fits(2), symmetric] d by simp
  also have "\<dots> = seats_of (unat k) W (d # ds)"
    by (cases "w = 0") (simp_all add: d seats_of_def floor_seats_def word_gt_0 assms(2) prod)
  finally show ?case .
qed (simp add: seats_of_def)

lemma rest_of_Nil: "rest_of k th [] = []"
  by (simp add: rest_of_def)

lemma rest_of_Cons:
  "rest_of k th ((c, w) # ds) =
     (if 0 < w \<and> 0 < w * k mod th then [(c, w * k mod th)] else []) @ rest_of k th ds"
  by (simp add: rest_of_def)

lemma rest_of_sum:
  assumes "weight_sum ds * unat k < 2 ^ 128" and "unat th = W"
  shows "weight_sum (rest_of k th ds) + W * length (seats_of (unat k) W ds) = weight_sum ds * unat k"
  using assms(1)
proof (induction ds)
  case Nil
  show ?case by (simp add: rest_of_Nil seats_of_def)
next
  case (Cons d ds)
  obtain c w where d: "d = (c, w)" by (cases d)
  have fits: "unat w * unat k < 2 ^ 128" "weight_sum ds * unat k < 2 ^ 128"
    using Cons.prems by (simp_all add: d distrib_right)
  note IH = Cons.IH [OF fits(2)]
  define m where "m = w * k mod th"
  define a where "a = unat w * unat k"
  from fits(1) have "unat (w * k) = a" unfolding a_def by (simp add: unat_mult_no_overflow)
  then have "unat m = a mod W" by (simp add: m_def unat_mod assms(2))
  moreover have "w = 0 \<Longrightarrow> a = 0" by (simp add: a_def)
  ultimately have "weight_sum (if 0 < w \<and> 0 < m then [(c, m)] else []) = a mod W"
    by (cases "w = 0"; cases "m = 0") (simp_all add: word_gt_0)
  then have rest: "weight_sum (rest_of k th (d # ds)) = a mod W + weight_sum (rest_of k th ds)"
    unfolding d rest_of_Cons m_def [symmetric] weight_sum_append by (simp only:)
  have seats: "length (seats_of (unat k) W (d # ds)) = a div W + length (seats_of (unat k) W ds)"
    by (simp add: d seats_of_def floor_seats_def a_def)
  have "weight_sum (rest_of k th (d # ds)) + W * length (seats_of (unat k) W (d # ds)) =
      (a mod W + W * (a div W)) + (weight_sum (rest_of k th ds) + W * length (seats_of (unat k) W ds))"
    unfolding rest seats distrib_left by linarith
  also have "\<dots> = weight_sum (d # ds) * unat k"
    by (simp only: IH mod_mult_div_eq) (simp add: d a_def distrib_right)
  finally show ?case .
qed

lemma electable_Cons: "electable ((c, w) # ds) = (if 0 < w then {c} else {}) \<union> electable ds"
  by (auto simp: electable_def)

lemma electable_rest_of: "electable (rest_of k th ds) \<subseteq> electable ds"
proof (induction ds)
  case Nil
  show ?case by (simp add: rest_of_Nil)
next
  case (Cons d ds)
  obtain c w where d: "d = (c, w)" by (cases d)
  define m where "m = w * k mod th"
  show ?case
    unfolding d rest_of_Cons m_def [symmetric] using Cons.IH by (simp add: electable_Cons) blast
qed

lemma set_seats_of: "set (seats_of n W ds) \<subseteq> electable ds"
proof
  fix c assume "c \<in> set (seats_of n W ds)"
  then obtain p where p: "p \<in> set ds" "fst p = c" "floor_seats n W p \<noteq> 0"
    by (auto simp: seats_of_def)
  then have "0 < snd p" by (auto simp: floor_seats_def word_gt_0)
  with p(1,2) show "c \<in> electable ds"
    unfolding electable_def by (auto intro!: exI [of _ "snd p"])
qed

lemma count_seats_of:
  "count_list (seats_of n W ds) c =
     sum_list (map (floor_seats n W) (filter (\<lambda>p. fst p = c) ds))"
proof (induction ds)
  case (Cons d ds)
  have "count_list (replicate m x) c = (if x = c then m else 0)" for m and x :: 'a
    by (induction m) auto
  then show ?case using Cons by (simp add: seats_of_def)
qed (simp add: seats_of_def)

lemma select_guaranteed_eq:
  assumes fits: "weight_sum cs * unat n < 2 ^ 128" "weight_sum cs < 2 ^ 128" and "0 < weight_sum cs"
  shows "select_guaranteed cs n =
    Ret \<lparr>sgr_selected = seats_of (unat n) (weight_sum cs) cs,
         sgr_remaining = rest_of (ucast n) (total_weight_of cs) cs\<rparr>"
proof -
  let ?th = "total_weight_of cs" and ?k = "ucast n :: u128"
  have th: "unat ?th = weight_sum cs" using fits(2) by (rule unat_total_weight_of)
  have k: "unat ?k = unat n" by (simp add: unat_ucast_widen)
  have "unat (w * ?k) div unat ?th < 2 ^ 32" if "(c, w) \<in> set cs" for c w
  proof -
    have le: "unat w * unat n \<le> weight_sum cs * unat n" using weight_le_sum [OF that] by simp
    then have "unat w * unat n < 2 ^ 128" using fits(1) by (rule le_less_trans)
    then have "unat (w * ?k) = unat w * unat n" by (simp add: k unat_mult_no_overflow)
    then have "unat (w * ?k) div unat ?th \<le> weight_sum cs * unat n div weight_sum cs"
      using le th by (simp only:) (rule div_le_mono)
    then have "unat (w * ?k) div unat ?th \<le> unat n" using assms(3) by simp
    moreover have "unat n < 2 ^ 16" using unsigned_less [of n] by simp
    ultimately show ?thesis by simp
  qed
  then have "guaranteed_loop ?th (map (\<lambda>(c, w). (c, w * ?k)) (filter (\<lambda>(_, w). 0 < w) cs)) [] [] =
      Ret \<lparr>sgr_selected = [] @ concat (map (\<lambda>(c, w). replicate (unat w div unat ?th) c)
             (map (\<lambda>(c, w). (c, w * ?k)) (filter (\<lambda>(_, w). 0 < w) cs))),
           sgr_remaining = [] @ rest_of ?k ?th cs\<rparr>"
    unfolding rest_of_def using th assms(3) by (intro guaranteed_loop_eq) auto
  also have "concat (map (\<lambda>(c, w). replicate (unat w div unat ?th) c)
      (map (\<lambda>(c, w). (c, w * ?k)) (filter (\<lambda>(_, w). 0 < w) cs))) = seats_of (unat ?k) (weight_sum cs) cs"
    by (rule seats_of_scaled) (simp_all only: k fits th)
  finally show ?thesis by (simp add: select_guaranteed_def k)
qed

lemma select_remaining_ok:
  assumes "chacha20_ok R" and "weight_sum cs < 2 ^ 128" and "n = 0 \<or> 0 < weight_sum cs"
  obtains sel where "select_remaining R cs n rng = Ret sel" and "length sel = unat n"
    and "set sel \<subseteq> electable cs"
proof (cases "n = 0")
  case True
  then have "select_remaining R cs n rng = Ret []"
    by (simp add: select_remaining_def select_authorities_wr_def select_loop.simps)
  with True show thesis by (intro that [of "[]"]) simp_all
next
  case False
  with assms(3) have "total_weight_of cs \<noteq> 0" using unat_total_weight_of [OF assms(2)] by auto
  then obtain committee where "select_authorities_wr R cs (get_seed R rng) n = Ret (Some committee)"
    and "length committee = unat n" and "set committee \<subseteq> electable cs"
    by (rule select_authorities_wr_ok [OF assms(1,2)])
  then show thesis by (intro that [of committee]) (simp_all add: select_remaining_def)
qed

lemma weighted_with_guaranteed_assignment_sorted:
  assumes "chacha20_ok R" and fits: "weight_sum cs * unat n < 2 ^ 128" "weight_sum cs < 2 ^ 128"
    and pos: "0 < weight_sum cs" and "sorted cs" and "n \<noteq> 0"
  obtains rest where
    "weighted_with_guaranteed_assignment R cs n rng =
       Ret (seats_of (unat n) (weight_sum cs) cs @ rest)"
    and "length (seats_of (unat n) (weight_sum cs) cs @ rest) = unat n" and "set rest \<subseteq> electable cs"
proof -
  let ?W = "weight_sum cs" and ?rem = "rest_of (ucast n) (total_weight_of cs) cs"
  let ?sel = "seats_of (unat n) ?W cs"
  have k: "unat (ucast n :: u128) = unat n" by (simp add: unat_ucast_widen)
  note sum = rest_of_sum [OF _ unat_total_weight_of [OF fits(2)], where k = "ucast n", unfolded k, OF fits(1)]
  have "?W * length ?sel \<le> ?W * unat n" using sum by linarith
  then have le: "length ?sel \<le> unat n" using pos by simp
  have "unat n < 2 ^ 16" using unsigned_less [of n] by simp
  with le have lt: "length ?sel < 2 ^ 16" by linarith
  define sc :: u16 where "sc = of_nat (length ?sel)"
  have sc: "unat sc = length ?sel" using lt by (simp add: sc_def unat_of_nat_fits)
  then have diff: "unat (n - sc) = unat n - length ?sel"
    using le by (simp add: unat_sub_le word_le_nat_alt)
  have disj: "n - sc = 0 \<or> 0 < weight_sum ?rem"
  proof (cases "length ?sel = unat n")
    case False
    with le have "?W * length ?sel < ?W * unat n" using pos by simp
    then show ?thesis using sum by linarith
  qed (use diff in \<open>simp add: unat_eq_zero\<close>)
  from sum fits(1) have fit: "weight_sum ?rem < 2 ^ 128" by linarith
  obtain rest where rest: "select_remaining R ?rem (n - sc) rng = Ret rest"
    "length rest = unat (n - sc)" "set rest \<subseteq> electable ?rem"
    by (rule select_remaining_ok [OF assms(1) fit disj])
  have sc': "try_of_nat (length ?sel) = Some sc" using lt by (simp add: try_of_nat_def sc_def)
  have "cs \<noteq> []" using pos by auto
  then have "weighted_with_guaranteed_assignment R cs n rng = Ret (?sel @ rest)"
    using assms(6) rest(1)
    by (simp add: weighted_with_guaranteed_assignment_def sorted_sort_id [OF assms(5)]
        select_guaranteed_eq [OF fits pos] sc')
  moreover have "length (?sel @ rest) = unat n" using rest(2) diff le by simp
  moreover have "set rest \<subseteq> electable cs" using rest(3) electable_rest_of by (rule subset_trans)
  ultimately show thesis by (rule that)
qed

lemma wwga_Nil: "weighted_with_guaranteed_assignment R [] n rng = Ret []"
  by (simp add: weighted_with_guaranteed_assignment_def)

lemma wwga_sort:
  "weighted_with_guaranteed_assignment R (sort cs) n rng =
   weighted_with_guaranteed_assignment R cs n rng"
proof -
  have "sort cs = [] \<longleftrightarrow> cs = []" by (metis length_0_conv length_sort)
  then show ?thesis
    by (simp add: weighted_with_guaranteed_assignment_def sorted_sort_id [OF sorted_sort])
qed

lemma guaranteed_seats_cong:
  assumes "mset cs = mset ds"
  shows "guaranteed_seats n cs c = guaranteed_seats n ds c"
proof -
  have "mset (filter (\<lambda>p. fst p = c) cs) = mset (filter (\<lambda>p. fst p = c) ds)"
    using assms by simp
  then show ?thesis
    unfolding guaranteed_seats_def weight_sum_cong [OF assms] by (rule sum_list_map_mset_cong)
qed

lemma electable_cong: "mset cs = mset ds \<Longrightarrow> electable cs = electable ds"
  unfolding electable_def by (drule mset_eq_setD) simp

lemma wwga_ok:
  assumes "chacha20_ok R" and "weight_sum cs * unat n < 2 ^ 128" and "0 < weight_sum cs"
  obtains sel where "weighted_with_guaranteed_assignment R cs n rng = Ret sel"
    and "length sel = unat n" and "set sel \<subseteq> electable cs"
    and "\<forall>c. guaranteed_seats (unat n) cs c \<le> count_list sel c"
proof (cases "n = 0")
  case True
  then show thesis
    by (intro that [of "[]"])
      (simp_all add: weighted_with_guaranteed_assignment_def guaranteed_seats_def floor_seats_def)
next
  case False
  let ?cs = "sort cs"
  have m: "mset ?cs = mset cs" by simp
  note W = weight_sum_cong [OF m]
  have "weight_sum cs * 1 \<le> weight_sum cs * unat n" using False by (simp add: unat_gt_0 Suc_leI)
  then have "weight_sum cs < 2 ^ 128" using assms(2) by linarith
  note fits = assms(2) [folded W] this [folded W] assms(3) [folded W]
  obtain rest where
    *: "weighted_with_guaranteed_assignment R ?cs n rng =
         Ret (seats_of (unat n) (weight_sum ?cs) ?cs @ rest)"
      "length (seats_of (unat n) (weight_sum ?cs) ?cs @ rest) = unat n" "set rest \<subseteq> electable ?cs"
    by (rule weighted_with_guaranteed_assignment_sorted [OF assms(1) fits sorted_sort False])
  show thesis
  proof (rule that)
    show "weighted_with_guaranteed_assignment R cs n rng =
        Ret (seats_of (unat n) (weight_sum ?cs) ?cs @ rest)" using *(1) by (simp add: wwga_sort)
    show "set (seats_of (unat n) (weight_sum ?cs) ?cs @ rest) \<subseteq> electable cs"
      using *(3) set_seats_of [of "unat n" "weight_sum ?cs" ?cs] by (simp add: electable_cong [OF m])
    show "\<forall>c. guaranteed_seats (unat n) cs c \<le>
        count_list (seats_of (unat n) (weight_sum ?cs) ?cs @ rest) c"
      using guaranteed_seats_cong [OF m, of "unat n"]
      unfolding count_list_append count_seats_of by (simp add: guaranteed_seats_def)
  qed (rule *(2))
qed

abbreviation equal_weights :: "'c list \<Rightarrow> ('c \<times> weight) list" where
  "equal_weights ps \<equiv> map (\<lambda>c. (c, 1)) ps"

lemma weight_sum_equal_weights [simp]: "weight_sum (equal_weights ps) = length ps"
  by (induction ps) auto

lemma electable_equal_weights [simp]: "electable (equal_weights ps) = set ps"
  by (auto simp: electable_def)

lemma shuffle_props:
  assumes "chacha20_ok R"
  shows "mset (fst (shuffle R xs rng)) = mset xs" and "fst (shuffle R xs rng) = [] \<longleftrightarrow> xs = []"
proof -
  show m: "mset (fst (shuffle R xs rng)) = mset xs" using assms by (simp add: chacha20_ok_def)
  then show "fst (shuffle R xs rng) = [] \<longleftrightarrow> xs = []" by (metis mset_zero_iff)
qed

lemma wwga_zero_weights:
  assumes "weight_sum cs = 0"
  shows "weighted_with_guaranteed_assignment R cs n rng = Ret []"
proof -
  have z: "\<forall>p \<in> set ds. snd p = 0" if "weight_sum ds = 0" for ds :: "('x \<times> weight) list"
    using that by (induction ds) (auto simp: unat_eq_zero)
  have "weight_sum (sort cs) = 0" using assms weight_sum_cong [OF mset_sort] by metis
  then have "filter (\<lambda>(_, w). 0 < w) (sort cs) = []"
    using z [of "sort cs"] by (auto simp: filter_empty_conv)
  then have "select_guaranteed (sort cs) n = Ret \<lparr>sgr_selected = [], sgr_remaining = []\<rparr>"
    by (simp add: select_guaranteed_def)
  then show ?thesis
    by (simp add: weighted_with_guaranteed_assignment_def try_of_nat_def select_remaining_def
        select_authorities_wr_def select_loop.simps [of _ "[]"])
qed

lemma v2_seats_ok:
  assumes "chacha20_ok G" and "weight_sum ts * unat R < 2 ^ 128" and "length ps * unat P < 2 ^ 128"
    and "0 < weight_sum ts" and "ps \<noteq> []"
  shows "\<exists>committee reg perm.
    select_authorities_v2 G R P ts ps seed = Ret (Some committee) \<and> mset committee = mset (reg @ perm) \<and>
    length reg = unat R \<and> set reg \<subseteq> electable ts \<and> length perm = unat P \<and> set perm \<subseteq> set ps \<and>
    (\<forall>c. guaranteed_seats (unat R) ts c \<le> count_list reg c \<and>
         guaranteed_seats (unat P) (equal_weights ps) c \<le> count_list perm c)"
proof -
  let ?rng = "from_seed G seed"
  obtain reg where reg: "weighted_with_guaranteed_assignment G ts R ?rng = Ret reg"
    "length reg = unat R" "set reg \<subseteq> electable ts"
    "\<forall>c. guaranteed_seats (unat R) ts c \<le> count_list reg c"
    by (rule wwga_ok [OF assms(1,2,4)])
  obtain perm where perm: "weighted_with_guaranteed_assignment G (equal_weights ps) P ?rng = Ret perm"
    "length perm = unat P" "set perm \<subseteq> electable (equal_weights ps)"
    "\<forall>c. guaranteed_seats (unat P) (equal_weights ps) c \<le> count_list perm c"
    by (rule wwga_ok [OF assms(1), where cs = "equal_weights ps"]) (use assms(3,5) in simp_all)
  let ?committee = "fst (shuffle G (reg @ perm) ?rng)"
  have "ts \<noteq> []" using assms(4) by auto
  moreover have "P + R = 0" if "?committee = []"
  proof -
    from that have "reg = []" "perm = []" by (simp_all add: shuffle_props [OF assms(1)])
    then have "R = 0" "P = 0" using reg(2) perm(2) by (simp_all add: unat_eq_zero [symmetric])
    then show ?thesis by simp
  qed
  ultimately have "select_authorities_v2 G R P ts ps seed = Ret (Some ?committee)"
    using assms(5) by (auto simp: select_authorities_v2_def reg(1) perm(1) Let_def)
  moreover have "mset ?committee = mset (reg @ perm)" by (rule shuffle_props [OF assms(1)])
  ultimately show ?thesis
    using reg(2-4) perm(2-4) by (intro exI [of _ ?committee] exI [of _ reg] exI [of _ perm]) simp
qed

section \<open>Properties\<close>

text \<open>C6: With candidates of both kinds and positive stake, Ariadne v2 assigns exactly the registered
  seats to registered candidates with positive stake and exactly the permissioned seats to permissioned
  candidates, so the committee has \<open>R + P\<close> members, and every candidate gets at least the integer
  part of its expected number of seats in its group. No step panics and the result is never \<open>None\<close>.\<close>

theorem select_authorities_v2_seats:
  assumes "chacha20_ok G" and "weight_sum ts * unat R < 2 ^ 128" and "length ps * unat P < 2 ^ 128"
    and "0 < weight_sum ts" and "ps \<noteq> []"
  shows "\<exists>committee reg perm.
    select_authorities_v2 G R P ts ps seed = Ret (Some committee) \<and> mset committee = mset (reg @ perm) \<and>
    length reg = unat R \<and> set reg \<subseteq> electable ts \<and> length perm = unat P \<and> set perm \<subseteq> set ps \<and>
    (\<forall>c. guaranteed_seats (unat R) ts c \<le> count_list reg c \<and>
         guaranteed_seats (unat P) (equal_weights ps) c \<le> count_list perm c)"
  by (rule v2_seats_ok [OF assms])

theorem select_authorities_v2_seats_witness:
  "\<exists>committee reg perm.
    select_authorities_v2 (counter_rng :: (nat, nat, nat) chacha20) 5 3 [(1, 20), (2, 10), (3, 10)] [7, 8] 0 =
      Ret (Some committee) \<and> mset committee = mset (reg @ perm) \<and> length reg = 5 \<and> length perm = 3 \<and>
    2 \<le> count_list reg 1 \<and> 1 \<le> count_list perm 8"
proof -
  let ?ts = "[(1 :: nat, 20), (2, 10), (3, 10)]" and ?ps = "[7, 8 :: nat]"
  have d: "3 div Suc (Suc 0) = Suc 0" by code_simp
  have "guaranteed_seats (unat (5 :: u16)) ?ts 1 = 2"
    and "guaranteed_seats (unat (3 :: u16)) (equal_weights ?ps) 8 = 1"
    by (simp_all add: guaranteed_seats_def floor_seats_def d)
  moreover have "\<exists>committee reg perm.
      select_authorities_v2 counter_rng 5 3 ?ts ?ps 0 = Ret (Some committee) \<and>
      mset committee = mset (reg @ perm) \<and>
      length reg = unat (5 :: u16) \<and> set reg \<subseteq> electable ?ts \<and>
      length perm = unat (3 :: u16) \<and> set perm \<subseteq> set ?ps \<and>
      (\<forall>c. guaranteed_seats (unat (5 :: u16)) ?ts c \<le> count_list reg c \<and>
           guaranteed_seats (unat (3 :: u16)) (equal_weights ?ps) c \<le> count_list perm c)"
    by (rule select_authorities_v2_seats [OF counter_rng_ok]) simp_all
  then obtain committee reg perm where
    "select_authorities_v2 counter_rng 5 3 ?ts ?ps 0 = Ret (Some committee)"
    "mset committee = mset (reg @ perm)" "length reg = 5" "length perm = 3"
    "guaranteed_seats (unat (5 :: u16)) ?ts 1 \<le> count_list reg 1"
    "guaranteed_seats (unat (3 :: u16)) (equal_weights ?ps) 8 \<le> count_list perm 8"
    by auto
  ultimately show ?thesis by (intro exI [of _ committee] exI [of _ reg] exI [of _ perm]) simp
qed

text \<open>When candidates of one kind are missing, the other kind fills all the seats: the committee
  has \<open>R + P\<close> members (as a 16-bit sum), all permissioned when nobody is registered and all
  registered when nobody is permissioned.\<close>

theorem select_authorities_v2_one_kind:
  assumes "chacha20_ok G" and "weight_sum ts * unat (P + R) < 2 ^ 128"
    and "length ps * unat (P + R) < 2 ^ 128"
    and "ts = [] \<and> ps \<noteq> [] \<or> ps = [] \<and> 0 < weight_sum ts"
  shows "\<exists>committee. select_authorities_v2 G R P ts ps seed = Ret (Some committee) \<and>
    length committee = unat (P + R) \<and>
    set committee \<subseteq> (if ts = [] then set ps else electable ts)"
proof -
  let ?cs = "if ts = [] then equal_weights ps else ts" and ?rng = "from_seed G seed"
  have "weight_sum ?cs * unat (P + R) < 2 ^ 128" and "0 < weight_sum ?cs"
    using assms(2-4) by auto
  then obtain sel where sel: "weighted_with_guaranteed_assignment G ?cs (P + R) ?rng = Ret sel"
    "length sel = unat (P + R)" "set sel \<subseteq> electable ?cs"
    by (rule wwga_ok [OF assms(1)])
  let ?committee = "fst (shuffle G sel ?rng)"
  have m: "mset ?committee = mset sel" by (rule shuffle_props [OF assms(1)])
  have "P + R = 0" if "?committee = []"
    using that sel(2) by (simp add: shuffle_props [OF assms(1)] unat_eq_zero [symmetric])
  then have "select_authorities_v2 G R P ts ps seed = Ret (Some ?committee)"
    using assms(4) sel(1) by (auto simp: select_authorities_v2_def Let_def)
  moreover have "length ?committee = unat (P + R)" using m sel(2) by (metis mset_eq_length)
  moreover have "set ?committee \<subseteq> electable ?cs" using mset_eq_setD [OF m] sel(3) by simp
  ultimately show ?thesis by (auto split: if_splits)
qed

theorem select_authorities_v2_one_kind_witness:
  "\<exists>committee. select_authorities_v2 (counter_rng :: (nat, nat, nat) chacha20) 5 3 [] [7, 8] 0 =
       Ret (Some committee) \<and> length committee = 8 \<and> set committee \<subseteq> {7, 8}"
  using select_authorities_v2_one_kind [OF counter_rng_ok,
      where ts = "[] :: (nat \<times> weight) list" and R = 5 and ps = "[7, 8]" and P = 3 and seed = 0]
  by simp

text \<open>C7: Registered candidates whose stakes are all zero get no seat and, when permissioned candidates
  exist, their seats stay empty: the committee has \<open>P\<close> members instead of \<open>R + P\<close>, and no committee
  is found when \<open>P\<close> is zero.\<close>

theorem select_authorities_v2_zero_stake:
  assumes "chacha20_ok G" and "length ps * unat P < 2 ^ 128"
    and "ts \<noteq> []" and "weight_sum ts = 0" and "ps \<noteq> []"
  shows "\<exists>perm. length perm = unat P \<and> set perm \<subseteq> set ps \<and>
    select_authorities_v2 G R P ts ps seed =
      Ret (if P = 0 \<and> R \<noteq> 0 then None else Some perm)"
proof -
  let ?rng = "from_seed G seed"
  obtain perm where perm: "weighted_with_guaranteed_assignment G (equal_weights ps) P ?rng = Ret perm"
    "length perm = unat P" "set perm \<subseteq> electable (equal_weights ps)"
    by (rule wwga_ok [OF assms(1), where cs = "equal_weights ps"]) (use assms(2,5) in simp_all)
  let ?committee = "fst (shuffle G perm ?rng)"
  have m: "mset ?committee = mset perm" by (rule shuffle_props [OF assms(1)])
  have empty: "?committee = [] \<longleftrightarrow> P = 0"
    using perm(2) by (auto simp: shuffle_props [OF assms(1)] unat_eq_zero)
  have "select_authorities_v2 G R P ts ps seed = Ret (if P = 0 \<and> R \<noteq> 0 then None else Some ?committee)"
    using assms(3,5) perm(1)
    by (auto simp: select_authorities_v2_def wwga_zero_weights [OF assms(4)] empty Let_def word_gt_0)
  moreover have "length ?committee = unat P" using m perm(2) by (metis mset_eq_length)
  moreover have "set ?committee \<subseteq> set ps" using mset_eq_setD [OF m] perm(3) by simp
  ultimately show ?thesis by blast
qed

theorem select_authorities_v2_zero_stake_witness:
  "\<exists>perm. length perm = 2 \<and> set perm \<subseteq> {7, 8} \<and>
     select_authorities_v2 (counter_rng :: (nat, nat, nat) chacha20) 4 2 [(1, 0)] [7, 8] 0 = Ret (Some perm)"
  using select_authorities_v2_zero_stake [OF counter_rng_ok,
      where ts = "[(1 :: nat, 0)]" and R = 4 and ps = "[7, 8]" and P = 2 and seed = 0]
  by simp

text \<open>The committee Ariadne v2 selects does not depend on the order of the candidate lists.\<close>

theorem select_authorities_v2_order_independent:
  assumes "mset ts = mset ts'" and "mset ps = mset ps'"
  shows "select_authorities_v2 G R P ts ps seed = select_authorities_v2 G R P ts' ps' seed"
proof -
  have *: "weighted_with_guaranteed_assignment G cs n rng = weighted_with_guaranteed_assignment G ds n rng"
    if "mset cs = mset ds" for cs ds n rng
    using sort_eq_if_mset_eq [OF that] wwga_sort by metis
  have "ts = [] \<longleftrightarrow> ts' = []" "ps = [] \<longleftrightarrow> ps' = []"
    using mset_eq_length [OF assms(1)] mset_eq_length [OF assms(2)] by auto
  moreover have "mset (equal_weights ps) = mset (equal_weights ps')" using assms(2) by simp
  ultimately show ?thesis
    unfolding select_authorities_v2_def Let_def
    by (simp add: * [OF assms(1)] * [of "equal_weights ps" "equal_weights ps'"])
qed

theorem select_authorities_v2_order_independent_witness:
  "select_authorities_v2 (counter_rng :: (nat, nat, nat) chacha20) 3 2 [(1, 5), (2, 10)] [7, 8] 0 =
   select_authorities_v2 counter_rng 3 2 [(2, 10), (1, 5)] [8, 7] 0"
  by (rule select_authorities_v2_order_independent) simp_all

end
