(* ===== verification/Plutus_Cbor.thy ===== *)
theory Plutus_Cbor
  imports PC_Prelude
begin

text \<open>
  Plutus data and its CBOR encoding, \<open>toolkit/utils/plutus/src/{lib,cbor}.rs\<close>, with the
  \<open>ToDatum\<close> instances of the shared domain types.

  The encoder drives \<open>minicbor::Encoder\<close>, which is not part of the repository: its calls are the
  tokens of \<open>cbor_token\<close>, in the order the code makes them, and the bytes they stand for are left
  to that crate. \<open>e.i64\<close> and \<open>e.u64\<close> write the same CBOR integer, so they share one token.
  \<open>BigInt::to_bytes_be\<close> of \<open>num_bigint\<close> is an argument of the encoder;
  \<open>bigint_bytes_ok\<close> is its documented behaviour: the big-endian bytes of the absolute value.
\<close>

section \<open>Data\<close>

datatype datum =
    IntegerDatum int
  | ByteStringDatum bytes
  | ConstructorDatum u64 "datum list"
  | ListDatum "datum list"
  | MapDatum "(datum \<times> datum) list"

fun as_bytestring :: "datum \<Rightarrow> bytes option" where
  "as_bytestring (ByteStringDatum bytes) = Some bytes"
| "as_bytestring _ = None"

definition bytes_to_datum :: "bytes \<Rightarrow> datum" where
  "bytes_to_datum bs = ByteStringDatum bs"

fun option_to_datum :: "('t \<Rightarrow> datum) \<Rightarrow> 't option \<Rightarrow> datum" where
  "option_to_datum to_datum (Some value) = ConstructorDatum 0 [to_datum value]"
| "option_to_datum to_datum None = ConstructorDatum 1 []"

definition list_to_datum :: "('t \<Rightarrow> datum) \<Rightarrow> 't list \<Rightarrow> datum" where
  "list_to_datum to_datum xs = ListDatum (map to_datum xs)"

definition uint_to_datum :: "'a::len word \<Rightarrow> datum" where
  "uint_to_datum n = IntegerDatum (uint n)"

text \<open>What the derive macro generates for a struct: one field is passed through unless the
  attribute \<open>constructor_datum\<close> is present, otherwise constructor 0 with the fields in order.\<close>

definition derive_to_datum :: "bool \<Rightarrow> datum list \<Rightarrow> datum" where
  "derive_to_datum has_constructor_datum_attribute fields =
     (case fields of
        [field] \<Rightarrow> if has_constructor_datum_attribute then ConstructorDatum 0 [field] else field
      | _ \<Rightarrow> ConstructorDatum 0 fields)"

section \<open>The encoder\<close>

datatype cbor_token =
    IntT int | TagT u64 | BytesT bytes | BeginBytes | ArrayT u64 | BeginArray | MapT u64 | EndT

function (sequential) chunks :: "nat \<Rightarrow> 'a list \<Rightarrow> 'a list list" where
  "chunks k [] = []"
| "chunks 0 xs = [xs]"
| "chunks (Suc k) xs = take (Suc k) xs # chunks (Suc k) (drop (Suc k) xs)"
  by pat_completeness auto
termination
  by (relation "measure (length \<circ> snd)") auto

definition encode_bytestring :: "bytes \<Rightarrow> cbor_token list" where
  "encode_bytestring bs =
     (if length bs \<le> 64 then [BytesT bs]
      else BeginBytes # map BytesT (chunks 64 bs) @ [EndT])"

definition encode_integer :: "(int \<Rightarrow> bytes) \<Rightarrow> int \<Rightarrow> cbor_token list" where
  "encode_integer to_bytes_be i =
     (if - (2 ^ 63) \<le> i \<and> i < 2 ^ 63 then [IntT i]
      else (if 0 < i then TagT 2 else TagT 3) # encode_bytestring (to_bytes_be i))"

text \<open>\<open>encode_linear_seq\<close> over the encodings of the items.\<close>

definition encode_linear_seq :: "cbor_token list list \<Rightarrow> cbor_token list" where
  "encode_linear_seq ds = (if ds = [] then [ArrayT 0] else BeginArray # concat ds @ [EndT])"

definition constructor_small_tag :: "u64 \<Rightarrow> u64" where
  "constructor_small_tag value = value + 121"

definition constructor_big_tag :: "u64 \<Rightarrow> u64" where
  "constructor_big_tag value = 1280 + value - 7"

definition encode_constructor_over_limit_fields ::
  "u64 \<Rightarrow> cbor_token list list \<Rightarrow> cbor_token list" where
  "encode_constructor_over_limit_fields constructor ds =
     ArrayT 2 # IntT (uint constructor) # encode_linear_seq ds"

definition encode_constructor :: "u64 \<Rightarrow> cbor_token list list \<Rightarrow> cbor_token list" where
  "encode_constructor constructor fields =
     (if constructor < 7 then TagT (constructor_small_tag constructor) # encode_linear_seq fields
      else if 7 \<le> constructor \<and> constructor < 128
      then TagT (constructor_big_tag constructor) # encode_linear_seq fields
      else TagT 102 # encode_constructor_over_limit_fields constructor fields)"

definition encode_entries :: "(cbor_token list \<times> cbor_token list) list \<Rightarrow> cbor_token list" where
  "encode_entries entries =
     MapT (of_nat (length entries)) # concat (map (\<lambda>(key, value). key @ value) entries)"

fun encode_datum :: "(int \<Rightarrow> bytes) \<Rightarrow> datum \<Rightarrow> cbor_token list" where
  "encode_datum B (IntegerDatum bi) = encode_integer B bi"
| "encode_datum B (ByteStringDatum bs) = encode_bytestring bs"
| "encode_datum B (ConstructorDatum constructor fields) =
     encode_constructor constructor (map (encode_datum B) fields)"
| "encode_datum B (ListDatum items) = encode_linear_seq (map (encode_datum B) items)"
| "encode_datum B (MapDatum entries) =
     encode_entries (map (\<lambda>(k, v). (encode_datum B k, encode_datum B v)) entries)"

section \<open>The reference decoder\<close>

text \<open>
  What a decoder of Plutus data that follows RFC 8949 and \<open>PlutusCore/Data.hs\<close> reads from the
  tokens. Tag 2 is the unsigned bignum of its bytes, tag 3 is \<open>- 1\<close> minus it.
\<close>

definition be_value :: "bytes \<Rightarrow> nat" where
  "be_value bs = foldl (\<lambda>a b. a * 256 + unat b) 0 bs"

definition bigint_bytes_ok :: "(int \<Rightarrow> bytes) \<Rightarrow> bool" where
  "bigint_bytes_ok B \<longleftrightarrow> (\<forall>i. int (be_value (B i)) = \<bar>i\<bar>)"

fun decode_chunks :: "cbor_token list \<Rightarrow> (bytes \<times> cbor_token list) option" where
  "decode_chunks (BytesT b # r) = map_option (\<lambda>(bs, r'). (b @ bs, r')) (decode_chunks r)"
| "decode_chunks (EndT # r) = Some ([], r)"
| "decode_chunks _ = None"

fun decode_bytes :: "cbor_token list \<Rightarrow> (bytes \<times> cbor_token list) option" where
  "decode_bytes (BytesT b # r) = Some (b, r)"
| "decode_bytes (BeginBytes # r) = decode_chunks r"
| "decode_bytes _ = None"

fun decode_datum :: "nat \<Rightarrow> cbor_token list \<Rightarrow> (datum \<times> cbor_token list) option"
  and decode_seq :: "nat \<Rightarrow> cbor_token list \<Rightarrow> (datum list \<times> cbor_token list) option"
  and decode_items :: "nat \<Rightarrow> cbor_token list \<Rightarrow> (datum list \<times> cbor_token list) option"
  and decode_entries :: "nat \<Rightarrow> nat \<Rightarrow> cbor_token list \<Rightarrow> ((datum \<times> datum) list \<times> cbor_token list) option"
where
  "decode_datum 0 ts = None"
| "decode_datum (Suc n) (IntT i # r) = Some (IntegerDatum i, r)"
| "decode_datum (Suc n) (TagT t # r) =
     (if t = 2 then map_option (\<lambda>(b, r'). (IntegerDatum (int (be_value b)), r')) (decode_bytes r)
      else if t = 3 then map_option (\<lambda>(b, r'). (IntegerDatum (- 1 - int (be_value b)), r')) (decode_bytes r)
      else if t = 102 then
        (case r of
           ArrayT k # IntT c # r' \<Rightarrow>
             if k = 2 then map_option (\<lambda>(ds, r''). (ConstructorDatum (word_of_int c) ds, r'')) (decode_seq n r')
             else None
         | _ \<Rightarrow> None)
      else if 121 \<le> t \<and> t \<le> 127 then
        map_option (\<lambda>(ds, r'). (ConstructorDatum (t - 121) ds, r')) (decode_seq n r)
      else if 1280 \<le> t \<and> t \<le> 1400 then
        map_option (\<lambda>(ds, r'). (ConstructorDatum (t - 1280 + 7) ds, r')) (decode_seq n r)
      else None)"
| "decode_datum (Suc n) (MapT k # r) =
     map_option (\<lambda>(es, r'). (MapDatum es, r')) (decode_entries n (unat k) r)"
| "decode_datum (Suc n) (BytesT b # r) = Some (ByteStringDatum b, r)"
| "decode_datum (Suc n) (BeginBytes # r) =
     map_option (\<lambda>(b, r'). (ByteStringDatum b, r')) (decode_bytes (BeginBytes # r))"
| "decode_datum (Suc n) ts = map_option (\<lambda>(ds, r). (ListDatum ds, r)) (decode_seq n ts)"
| "decode_seq 0 ts = None"
| "decode_seq (Suc n) (ArrayT k # r) = (if k = 0 then Some ([], r) else None)"
| "decode_seq (Suc n) (BeginArray # r) = decode_items n r"
| "decode_seq (Suc n) ts = None"
| "decode_items 0 ts = None"
| "decode_items (Suc n) (EndT # r) = Some ([], r)"
| "decode_items (Suc n) ts =
     Option.bind (decode_datum n ts) (\<lambda>(d, r).
     Option.bind (decode_items n r) (\<lambda>(ds, r'). Some (d # ds, r')))"
| "decode_entries n 0 ts = Some ([], ts)"
| "decode_entries 0 (Suc k) ts = None"
| "decode_entries (Suc n) (Suc k) ts =
     Option.bind (decode_datum n ts) (\<lambda>(key, r).
     Option.bind (decode_datum n r) (\<lambda>(v, r').
     Option.bind (decode_entries n k r') (\<lambda>(es, r''). Some ((key, v) # es, r''))))"

section \<open>Round trip\<close>

text \<open>The data the encoding is faithful for: no integer below the signed 64-bit range, and maps
  whose length fits the 64-bit header.\<close>

fun datum_ok :: "datum \<Rightarrow> bool" where
  "datum_ok (IntegerDatum i) \<longleftrightarrow> - (2 ^ 63) \<le> i"
| "datum_ok (ByteStringDatum bs) \<longleftrightarrow> True"
| "datum_ok (ConstructorDatum c fs) \<longleftrightarrow> (\<forall>f \<in> set fs. datum_ok f)"
| "datum_ok (ListDatum ds) \<longleftrightarrow> (\<forall>d \<in> set ds. datum_ok d)"
| "datum_ok (MapDatum es) \<longleftrightarrow> length es < 2 ^ 64 \<and> (\<forall>(k, v) \<in> set es. datum_ok k \<and> datum_ok v)"

definition roundtrips :: "(int \<Rightarrow> bytes) \<Rightarrow> datum \<Rightarrow> bool" where
  "roundtrips B d \<longleftrightarrow>
     (\<forall>n r. 2 * length (encode_datum B d) \<le> n \<longrightarrow> decode_datum n (encode_datum B d @ r) = Some (d, r))"

lemma concat_chunks: "concat (chunks (Suc k) xs) = xs"
  by (induction "Suc k" xs rule: chunks.induct) simp_all

lemma decode_chunks_map: "decode_chunks (map BytesT bss @ EndT # r) = Some (concat bss, r)"
  by (induction bss) simp_all

lemma decode_bytes_encode: "decode_bytes (encode_bytestring bs @ r) = Some (bs, r)"
  using concat_chunks [of 63 bs] by (simp add: encode_bytestring_def decode_chunks_map eval_nat_numeral)

lemma encode_bytestring_nonempty: "1 \<le> length (encode_bytestring bs)"
  by (simp add: encode_bytestring_def)

lemma encode_datum_head: "\<exists>t ts. encode_datum B d = t # ts \<and> t \<noteq> EndT"
  by (cases d)
    (auto simp: encode_integer_def encode_bytestring_def encode_constructor_def encode_linear_seq_def
      encode_entries_def)

lemma decode_items_step:
  "t \<noteq> EndT \<Longrightarrow> decode_items (Suc n) (t # ts) =
     Option.bind (decode_datum n (t # ts)) (\<lambda>(d, r).
     Option.bind (decode_items n r) (\<lambda>(ds, r'). Some (d # ds, r')))"
  by (cases t) simp_all

lemma decode_items_encode:
  assumes "\<forall>d \<in> set ds. roundtrips B d" and "2 * length (concat (map (encode_datum B) ds)) + 1 \<le> n"
  shows "decode_items n (concat (map (encode_datum B) ds) @ EndT # r) = Some (ds, r)"
  using assms
proof (induction ds arbitrary: n)
  case Nil
  then show ?case by (cases n) simp_all
next
  case (Cons d ds)
  obtain t ts where t: "encode_datum B d = t # ts" "t \<noteq> EndT" using encode_datum_head by blast
  obtain m where n: "n = Suc m" using Cons.prems(2) by (cases n) simp_all
  let ?rest = "concat (map (encode_datum B) ds) @ EndT # r"
  have "decode_datum m (encode_datum B d @ ?rest) = Some (d, ?rest)"
    using Cons.prems n t(1) by (simp add: roundtrips_def)
  moreover have "decode_items m ?rest = Some (ds, r)"
    using Cons.prems n t(1) by (intro Cons.IH) simp_all
  ultimately show ?case by (simp add: n t decode_items_step)
qed

lemma decode_seq_encode:
  assumes "\<forall>d \<in> set ds. roundtrips B d" and "2 * length (encode_linear_seq (map (encode_datum B) ds)) \<le> n"
  shows "decode_seq n (encode_linear_seq (map (encode_datum B) ds) @ r) = Some (ds, r)"
proof -
  obtain m where n: "n = Suc m" using assms(2) by (cases n) (auto simp: encode_linear_seq_def split: if_splits)
  show ?thesis
  proof (cases "ds = []")
    case False
    then show ?thesis
      using assms decode_items_encode [OF assms(1), of m r] by (simp add: n encode_linear_seq_def)
  qed (simp add: n encode_linear_seq_def)
qed

lemma decode_entries_encode:
  assumes "\<forall>(k, v) \<in> set es. roundtrips B k \<and> roundtrips B v"
    and "2 * length (concat (map (\<lambda>(k, v). encode_datum B k @ encode_datum B v) es)) \<le> n"
  shows "decode_entries n (length es)
    (concat (map (\<lambda>(k, v). encode_datum B k @ encode_datum B v) es) @ r) = Some (es, r)"
  using assms
proof (induction es arbitrary: n)
  case (Cons e es)
  obtain k v where e: "e = (k, v)" by (cases e)
  obtain t ts where t: "encode_datum B k = t # ts" using encode_datum_head by blast
  obtain t' ts' where t': "encode_datum B v = t' # ts'" using encode_datum_head by blast
  obtain m where n: "n = Suc m" using Cons.prems(2) by (cases n) (simp_all add: e t)
  let ?rest = "concat (map (\<lambda>(k, v). encode_datum B k @ encode_datum B v) es) @ r"
  have "decode_datum m (encode_datum B k @ encode_datum B v @ ?rest) = Some (k, encode_datum B v @ ?rest)"
    "decode_datum m (encode_datum B v @ ?rest) = Some (v, ?rest)"
    using Cons.prems by (simp_all add: n e roundtrips_def t t')
  moreover have "decode_entries m (length es) ?rest = Some (es, r)"
    using Cons.prems by (intro Cons.IH) (simp_all add: n e t)
  ultimately show ?case by (simp add: n e)
qed simp

lemma decode_datum_seq:
  "decode_datum (Suc n) (encode_linear_seq ds @ r) =
     map_option (\<lambda>(ds, r). (ListDatum ds, r)) (decode_seq n (encode_linear_seq ds @ r))"
  by (simp add: encode_linear_seq_def)

lemma decode_constructor:
  assumes "decode_seq n (encode_linear_seq es @ r) = Some (ds, r)"
  shows "decode_datum (Suc n) (encode_constructor c es @ r) = Some (ConstructorDatum c ds, r)"
proof -
  consider (small) "c < 7" | (big) "7 \<le> c" "c < 128" | (over) "128 \<le> c" by fastforce
  then show ?thesis
  proof cases
    case small
    then have c: "unat c < 7" by (simp add: word_less_nat_alt)
    then have "unat (c + 121) = unat c + 121" by (simp add: unat_add_no_overflow)
    then show ?thesis
      using small c assms
      by (simp add: encode_constructor_def constructor_small_tag_def word_unat_eq_iff word_le_nat_alt)
  next
    case big
    then have c: "7 \<le> unat c" "unat c < 128" by (simp_all add: word_less_nat_alt word_le_nat_alt)
    then have "unat (1273 + c) = 1273 + unat c" by (simp add: unat_add_no_overflow)
    then show ?thesis
      using big leD [OF big(1)] c assms
      by (simp add: encode_constructor_def constructor_big_tag_def word_unat_eq_iff word_le_nat_alt)
  next
    case over
    then have "\<not> c < 7" "\<not> c < 128" by (simp_all add: word_less_nat_alt word_le_nat_alt)
    then show ?thesis
      using assms by (simp add: encode_constructor_def encode_constructor_over_limit_fields_def)
  qed
qed

lemma roundtrips_integer:
  assumes "bigint_bytes_ok B" and "- (2 ^ 63) \<le> i"
  shows "roundtrips B (IntegerDatum i)"
  unfolding roundtrips_def
proof (intro allI impI)
  fix n r assume n: "2 * length (encode_datum B (IntegerDatum i)) \<le> n"
  then obtain m where m: "n = Suc m" by (cases n) (auto simp: encode_integer_def split: if_splits)
  show "decode_datum n (encode_datum B (IntegerDatum i) @ r) = Some (IntegerDatum i, r)"
  proof (cases "i < 2 ^ 63")
    case False
    then have "int (be_value (B i)) = i" using assms(1) by (simp add: bigint_bytes_ok_def)
    then show ?thesis using False by (simp add: m encode_integer_def decode_bytes_encode)
  qed (use assms(2) in \<open>simp add: m encode_integer_def\<close>)
qed

lemma roundtrips_bytes: "roundtrips B (ByteStringDatum bs)"
  unfolding roundtrips_def
proof (intro allI impI)
  fix n r assume "2 * length (encode_datum B (ByteStringDatum bs)) \<le> n"
  then obtain m where m: "n = Suc m" by (cases n) (auto simp: encode_bytestring_def split: if_splits)
  have "decode_datum (Suc m) (encode_bytestring bs @ r) =
      map_option (\<lambda>(b, r'). (ByteStringDatum b, r')) (decode_bytes (encode_bytestring bs @ r))"
    by (simp add: encode_bytestring_def)
  then show "decode_datum n (encode_datum B (ByteStringDatum bs) @ r) = Some (ByteStringDatum bs, r)"
    by (simp only: m encode_datum.simps decode_bytes_encode) simp
qed

lemma length_encode_constructor: "length (encode_linear_seq ds) < length (encode_constructor c ds)"
  by (simp add: encode_constructor_def encode_constructor_over_limit_fields_def)

lemma datum_ok_roundtrips:
  assumes "bigint_bytes_ok B"
  shows "datum_ok d \<Longrightarrow> roundtrips B d"
proof (induction d)
  case (IntegerDatum i)
  then show ?case using roundtrips_integer [OF assms] by simp
next
  case (ByteStringDatum bs)
  show ?case by (rule roundtrips_bytes)
next
  case (ConstructorDatum c fs)
  then have *: "\<forall>f \<in> set fs. roundtrips B f" by simp
  show ?case
    unfolding roundtrips_def
  proof (intro allI impI)
    fix n r assume "2 * length (encode_datum B (ConstructorDatum c fs)) \<le> n"
    then obtain m where "n = Suc m" "2 * length (encode_linear_seq (map (encode_datum B) fs)) \<le> m"
      using length_encode_constructor [of "map (encode_datum B) fs" c] by (cases n) auto
    then show "decode_datum n (encode_datum B (ConstructorDatum c fs) @ r) = Some (ConstructorDatum c fs, r)"
      using decode_constructor [OF decode_seq_encode [OF *]] by simp
  qed
next
  case (ListDatum ds)
  then have *: "\<forall>d \<in> set ds. roundtrips B d" by simp
  show ?case
    unfolding roundtrips_def
  proof (intro allI impI)
    fix n r assume n: "2 * length (encode_datum B (ListDatum ds)) \<le> n"
    then obtain m where m: "n = Suc m" by (cases n) (auto simp: encode_linear_seq_def split: if_splits)
    have "decode_seq m (encode_linear_seq (map (encode_datum B) ds) @ r) = Some (ds, r)"
    proof (cases "ds = []")
      case True
      then obtain k where "m = Suc k" using n m by (cases m) (auto simp: encode_linear_seq_def)
      with True show ?thesis by (simp add: encode_linear_seq_def)
    next
      case False
      then obtain k where "m = Suc k" "2 * length (concat (map (encode_datum B) ds)) + 1 \<le> k"
        using n m by (cases m) (auto simp: encode_linear_seq_def)
      with False show ?thesis using decode_items_encode [OF *] by (simp add: encode_linear_seq_def)
    qed
    then show "decode_datum n (encode_datum B (ListDatum ds) @ r) = Some (ListDatum ds, r)"
      by (simp add: m decode_datum_seq)
  qed
next
  case (MapDatum es)
  then have *: "\<forall>(k, v) \<in> set es. roundtrips B k \<and> roundtrips B v" and len: "length es < 2 ^ 64"
    by (fastforce simp: fsts.simps snds.simps)+
  have enc: "encode_datum B (MapDatum es) = MapT (of_nat (length es)) #
      concat (map (\<lambda>(k, v). encode_datum B k @ encode_datum B v) es)"
    by (simp add: encode_entries_def comp_def case_prod_unfold)
  have "unat (of_nat (length es) :: u64) = length es" using len by (simp add: unat_of_nat_fits)
  then have dec: "decode_datum (Suc m) (encode_datum B (MapDatum es) @ r) = Some (MapDatum es, r)"
    if "2 * length (concat (map (\<lambda>(k, v). encode_datum B k @ encode_datum B v) es)) \<le> m" for m r
    unfolding enc using decode_entries_encode [OF * that] by simp
  show ?case
    unfolding roundtrips_def
  proof (intro allI impI)
    fix n r assume "2 * length (encode_datum B (MapDatum es)) \<le> n"
    then obtain m where m: "n = Suc m"
      and "2 * length (concat (map (\<lambda>(k, v). encode_datum B k @ encode_datum B v) es)) \<le> m"
      unfolding enc by (cases n) simp_all
    then show "decode_datum n (encode_datum B (MapDatum es) @ r) = Some (MapDatum es, r)"
      by (simp only: m dec)
  qed
qed

lemma encode_datum_inj:
  assumes "bigint_bytes_ok B" and "datum_ok d" and "datum_ok d'"
    and "encode_datum B d = encode_datum B d'"
  shows "d = d'"
proof -
  let ?n = "2 * length (encode_datum B d)"
  have "decode_datum ?n (encode_datum B d @ []) = Some (d, [])"
    and "decode_datum ?n (encode_datum B d' @ []) = Some (d', [])"
    using datum_ok_roundtrips [OF assms(1,2)] datum_ok_roundtrips [OF assms(1,3)]
    unfolding roundtrips_def assms(4) by blast+
  then show ?thesis by (simp add: assms(4))
qed

section \<open>Properties\<close>

text \<open>C34: The encoding is lossless and self-delimiting: for every datum whose integers are not below
  \<open>- 2 ^ 63\<close> (and whose maps have fewer than \<open>2 ^ 64\<close> entries) the reference decoder, with enough fuel,
  reads back exactly that datum from its encoding and leaves what follows untouched.\<close>

theorem decode_encode_datum:
  assumes "bigint_bytes_ok B" and "datum_ok d" and "2 * length (encode_datum B d) \<le> n"
  shows "decode_datum n (encode_datum B d @ r) = Some (d, r)"
  using datum_ok_roundtrips [OF assms(1,2)] assms(3) by (simp add: roundtrips_def)

text \<open>Big-endian bytes, as \<open>to_bytes_be\<close> documents them.\<close>

fun be_bytes :: "nat \<Rightarrow> bytes" where
  "be_bytes n = (if n = 0 then [] else be_bytes (n div 256) @ [of_nat (n mod 256)])"

declare be_bytes.simps [simp del]

lemma be_value_be_bytes: "be_value (be_bytes n) = n"
proof (induction n rule: be_bytes.induct)
  case (1 n)
  have "unat (of_nat (n mod 256) :: u8) = n mod 256" by (simp add: unat_of_nat_fits)
  with 1 show ?case by (subst be_bytes.simps) (auto simp: be_value_def)
qed

lemma be_bytes_inject: "be_bytes m = be_bytes n \<longleftrightarrow> m = n"
  by (metis be_value_be_bytes)

lemma be_bytes_ok: "bigint_bytes_ok (\<lambda>i. be_bytes (nat \<bar>i\<bar>))"
  by (simp add: bigint_bytes_ok_def be_value_be_bytes)

theorem decode_encode_datum_witness:
  "decode_datum 40 (encode_datum (\<lambda>i. be_bytes (nat \<bar>i\<bar>))
     (ConstructorDatum 9 [IntegerDatum 5, ListDatum [ByteStringDatum [1, 2]], MapDatum []]) @ [EndT]) =
   Some (ConstructorDatum 9 [IntegerDatum 5, ListDatum [ByteStringDatum [1, 2]], MapDatum []], [EndT])"
  by (rule decode_encode_datum [OF be_bytes_ok])
    (simp_all add: encode_constructor_def encode_linear_seq_def encode_integer_def
      encode_bytestring_def encode_entries_def)

text \<open>C35: Integers below the signed 64-bit range are encoded off by one: the code writes the bytes of
  the absolute value under the negative-bignum tag, which stands for \<open>- 1\<close> minus the number, so a
  conforming decoder reads \<open>i - 1\<close>.\<close>

theorem encode_negative_bignum_off_by_one:
  assumes "bigint_bytes_ok B" and "i < - (2 ^ 63)"
  shows "decode_datum (Suc n) (encode_datum B (IntegerDatum i) @ r) = Some (IntegerDatum (i - 1), r)"
proof -
  have "int (be_value (B i)) = - i" using assms by (simp add: bigint_bytes_ok_def)
  then show ?thesis using assms(2) by (simp add: encode_integer_def decode_bytes_encode)
qed

theorem encode_negative_bignum_off_by_one_witness:
  "decode_datum 1 (encode_datum (\<lambda>i. be_bytes (nat \<bar>i\<bar>)) (IntegerDatum (- (2 ^ 64))) @ []) =
     Some (IntegerDatum (- (2 ^ 64) - 1), [])"
  using encode_negative_bignum_off_by_one [OF be_bytes_ok, of "- (2 ^ 64)" 0 "[]"] by simp

end
