(* ===== verification/Domain.thy ===== *)
theory Domain
  imports Plutus_Cbor
begin

text \<open>
  The shared domain types of \<open>toolkit/sidechain/domain/src/lib.rs\<close>: epoch numbers, UTxO
  identifiers and their ordering, candidate keys with their backward compatible codec,
  registrations and the D-parameter.

  Newtypes around integers and byte vectors are the integers and byte lists themselves. The codec
  works on SCALE: the compact integer codec of \<open>parity_scale_codec\<close> is the record \<open>scale_codec\<close>, an
  argument of the definitions; byte vectors and vectors are a compact length followed by their
  elements, as that crate documents. The key type ids of \<open>sp_core\<close> are the record \<open>key_types\<close>.
\<close>

section \<open>Epochs\<close>

type_synonym mc_epoch_number = u32
type_synonym sc_epoch_number = u64
type_synonym stake_delegation = u64

definition DATA_MC_EPOCH_OFFSET :: u32 where
  "DATA_MC_EPOCH_OFFSET = 2"

definition offset_data_epoch :: "mc_epoch_number \<Rightarrow> u32 + mc_epoch_number" where
  "offset_data_epoch epoch = ok_or (checked_sub epoch DATA_MC_EPOCH_OFFSET) DATA_MC_EPOCH_OFFSET"

definition mc_epoch_next :: "mc_epoch_number \<Rightarrow> mc_epoch_number" where
  "mc_epoch_next e = e + 1"

definition sc_epoch_next :: "sc_epoch_number \<Rightarrow> sc_epoch_number" where
  "sc_epoch_next e = e + 1"

definition sc_epoch_prev :: "sc_epoch_number \<Rightarrow> sc_epoch_number option" where
  "sc_epoch_prev e = checked_sub e 1"

definition stake_is_zero :: "stake_delegation \<Rightarrow> bool" where
  "stake_is_zero s \<longleftrightarrow> s = 0"

text \<open>\<open>EpochNonce::as_array\<close>: the nonce cut or padded with zeros to 32 bytes.\<close>

definition epoch_nonce_as_array :: "bytes \<Rightarrow> bytes" where
  "epoch_nonce_as_array nonce = take 32 nonce @ replicate (32 - length nonce) 0"

section \<open>Transaction outputs\<close>

record utxo_id =
  tx_hash :: bytes
  utxo_index :: u16

record utxo_info =
  ui_utxo_id :: utxo_id
  ui_epoch_number :: mc_epoch_number
  ui_block_number :: u32
  ui_slot_number :: u64
  ui_tx_index_within_block :: u32

text \<open>The derived order of \<open>UtxoInfoOrderingKey\<close> is lexicographic in its fields.\<close>

definition ordering_key :: "utxo_info \<Rightarrow> u32 \<times> u32 \<times> u16" where
  "ordering_key ui = (ui_block_number ui, ui_tx_index_within_block ui, utxo_index (ui_utxo_id ui))"

definition mc_tx_hash_to_datum :: "bytes \<Rightarrow> datum" where
  "mc_tx_hash_to_datum h = derive_to_datum True [bytes_to_datum h]"

definition utxo_id_to_datum :: "utxo_id \<Rightarrow> datum" where
  "utxo_id_to_datum u = derive_to_datum False
     [mc_tx_hash_to_datum (tx_hash u), derive_to_datum False [uint_to_datum (utxo_index u)]]"

section \<open>Keys\<close>

record candidate_key =
  ck_id :: bytes
  ck_bytes :: bytes

type_synonym candidate_keys = "candidate_key list"

record key_types =
  aura_id :: bytes
  grandpa_id :: bytes

definition key_types_ok :: "key_types \<Rightarrow> bool" where
  "key_types_ok K \<longleftrightarrow> aura_id K \<noteq> grandpa_id K"

fun find_key :: "bytes \<Rightarrow> candidate_keys \<Rightarrow> bytes option" where
  "find_key key_id [] = None"
| "find_key key_id (e # ks) = (if ck_id e = key_id then Some (ck_bytes e) else find_key key_id ks)"

definition find_or_empty :: "bytes \<Rightarrow> candidate_keys \<Rightarrow> bytes" where
  "find_or_empty key_id ks = (case find_key key_id ks of None \<Rightarrow> [] | Some b \<Rightarrow> b)"

definition has_only_aura_and_grandpa_keys :: "key_types \<Rightarrow> candidate_keys \<Rightarrow> bool" where
  "has_only_aura_and_grandpa_keys K ks \<longleftrightarrow>
     length ks = 2 \<and> find_key (aura_id K) ks \<noteq> None \<and> find_key (grandpa_id K) ks \<noteq> None"

section \<open>The codec of the candidate keys\<close>

record scale_codec =
  enc_compact :: "u32 \<Rightarrow> bytes"
  dec_compact :: "bytes \<Rightarrow> (u32 \<times> bytes) option"

definition scale_codec_ok :: "scale_codec \<Rightarrow> bool" where
  "scale_codec_ok S \<longleftrightarrow> (\<forall>n r. dec_compact S (enc_compact S n @ r) = Some (n, r))"

definition enc_bytes :: "scale_codec \<Rightarrow> bytes \<Rightarrow> bytes" where
  "enc_bytes S bs = enc_compact S (of_nat (length bs)) @ bs"

definition decode_vec_with_len :: "nat \<Rightarrow> bytes \<Rightarrow> (bytes \<times> bytes) option" where
  "decode_vec_with_len n input = (if length input < n then None else Some (take n input, drop n input))"

definition dec_bytes :: "scale_codec \<Rightarrow> bytes \<Rightarrow> (bytes \<times> bytes) option" where
  "dec_bytes S input = Option.bind (dec_compact S input) (\<lambda>(n, r). decode_vec_with_len (unat n) r)"

definition enc_candidate_key :: "scale_codec \<Rightarrow> candidate_key \<Rightarrow> bytes" where
  "enc_candidate_key S k = ck_id k @ enc_bytes S (ck_bytes k)"

definition dec_candidate_key :: "scale_codec \<Rightarrow> bytes \<Rightarrow> (candidate_key \<times> bytes) option" where
  "dec_candidate_key S input =
     Option.bind (decode_vec_with_len 4 input) (\<lambda>(key_id, r).
     Option.bind (dec_bytes S r) (\<lambda>(bs, r'). Some (\<lparr>ck_id = key_id, ck_bytes = bs\<rparr>, r')))"

fun dec_key_vec :: "scale_codec \<Rightarrow> nat \<Rightarrow> bytes \<Rightarrow> (candidate_keys \<times> bytes) option" where
  "dec_key_vec S 0 input = Some ([], input)"
| "dec_key_vec S (Suc n) input =
     Option.bind (dec_candidate_key S input) (\<lambda>(k, r).
     Option.bind (dec_key_vec S n r) (\<lambda>(ks, r'). Some (k # ks, r')))"

definition encode_to :: "key_types \<Rightarrow> scale_codec \<Rightarrow> candidate_keys \<Rightarrow> bytes" where
  "encode_to K S ks =
     (if has_only_aura_and_grandpa_keys K ks
      then enc_bytes S (find_or_empty (aura_id K) ks) @ enc_bytes S (find_or_empty (grandpa_id K) ks)
      else enc_compact S (- 1) @
        enc_compact S (of_nat (length ks)) @ concat (map (enc_candidate_key S) ks))"

definition decode_keys :: "key_types \<Rightarrow> scale_codec \<Rightarrow> bytes \<Rightarrow> (candidate_keys \<times> bytes) option" where
  "decode_keys K S input =
     Option.bind (dec_compact S input) (\<lambda>(marker_or_aura_size, r).
       if marker_or_aura_size = - 1
       then Option.bind (dec_compact S r) (\<lambda>(n, r'). dec_key_vec S (unat n) r')
       else Option.bind (decode_vec_with_len (unat marker_or_aura_size) r) (\<lambda>(aura_bytes, r').
            Option.bind (dec_bytes S r') (\<lambda>(grandpa, r'').
              Some ([\<lparr>ck_id = aura_id K, ck_bytes = aura_bytes\<rparr>,
                     \<lparr>ck_id = grandpa_id K, ck_bytes = grandpa\<rparr>], r''))))"

section \<open>Candidates\<close>

record d_parameter =
  num_permissioned_candidates :: u16
  num_registered_candidates :: u16

record permissioned_candidate_data =
  pcd_sidechain_public_key :: bytes
  pcd_keys :: candidate_keys

record registration_data =
  rd_registration_utxo :: utxo_id
  rd_sidechain_signature :: bytes
  rd_mainchain_signature :: bytes
  rd_cross_chain_signature :: bytes
  rd_sidechain_pub_key :: bytes
  rd_cross_chain_pub_key :: bytes
  rd_utxo_info :: utxo_info
  rd_tx_inputs :: "utxo_id list"
  rd_keys :: candidate_keys

record candidate_registrations =
  cr_stake_pool_public_key :: bytes
  cr_registrations :: "registration_data list"
  cr_stake_delegation :: "stake_delegation option"

record ada_based_staking =
  abs_pub_key :: bytes
  abs_signature :: bytes

record candidate_registration =
  reg_stake_ownership :: ada_based_staking
  reg_partner_chain_pub_key :: bytes
  reg_partner_chain_signature :: bytes
  reg_own_pkh :: bytes
  reg_registration_utxo :: utxo_id
  reg_keys :: candidate_keys

definition matches_keys :: "candidate_registration \<Rightarrow> candidate_registration \<Rightarrow> bool" where
  "matches_keys self other \<longleftrightarrow>
     reg_stake_ownership self = reg_stake_ownership other \<and>
     reg_partner_chain_pub_key self = reg_partner_chain_pub_key other \<and>
     reg_partner_chain_signature self = reg_partner_chain_signature other \<and>
     list_all (\<lambda>key. key \<in> set (reg_keys other)) (reg_keys self)"

section \<open>Round trips\<close>

definition keys_fit :: "candidate_keys \<Rightarrow> bool" where
  "keys_fit ks \<longleftrightarrow> length ks < 2 ^ 32 \<and>
     (\<forall>k \<in> set ks. length (ck_id k) = 4 \<and> length (ck_bytes k) < 2 ^ 32 - 1)"

lemma decode_vec_with_len_append: "length bs = n \<Longrightarrow> decode_vec_with_len n (bs @ r) = Some (bs, r)"
  by (simp add: decode_vec_with_len_def)

lemma dec_enc_bytes:
  assumes "scale_codec_ok S" and "length bs < 2 ^ 32"
  shows "dec_bytes S (enc_bytes S bs @ r) = Some (bs, r)"
  using assms
  by (simp add: dec_bytes_def enc_bytes_def scale_codec_ok_def unat_of_nat_fits
      decode_vec_with_len_append)

lemma dec_enc_candidate_key:
  assumes "scale_codec_ok S" and "length (ck_id k) = 4" and "length (ck_bytes k) < 2 ^ 32"
  shows "dec_candidate_key S (enc_candidate_key S k @ r) = Some (k, r)"
  using assms
  by (simp add: dec_candidate_key_def enc_candidate_key_def dec_enc_bytes
      decode_vec_with_len_append [OF assms(2)])

lemma dec_enc_key_vec:
  assumes "scale_codec_ok S" and "\<forall>k \<in> set ks. length (ck_id k) = 4 \<and> length (ck_bytes k) < 2 ^ 32"
  shows "dec_key_vec S (length ks) (concat (map (enc_candidate_key S) ks) @ r) = Some (ks, r)"
  using assms(2) by (induction ks) (simp_all add: dec_enc_candidate_key [OF assms(1)])

lemma find_key_in: "find_key key_id ks = Some bs \<Longrightarrow> \<lparr>ck_id = key_id, ck_bytes = bs\<rparr> \<in> set ks"
  by (induction ks) (auto split: if_splits)

text \<open>The legacy representation lists the AURA key first.\<close>

definition canonical_keys :: "key_types \<Rightarrow> candidate_keys \<Rightarrow> candidate_keys" where
  "canonical_keys K ks =
     (if has_only_aura_and_grandpa_keys K ks
      then [\<lparr>ck_id = aura_id K, ck_bytes = find_or_empty (aura_id K) ks\<rparr>,
            \<lparr>ck_id = grandpa_id K, ck_bytes = find_or_empty (grandpa_id K) ks\<rparr>]
      else ks)"

lemma has_only_cases:
  assumes "has_only_aura_and_grandpa_keys K ks"
  obtains a g where "find_key (aura_id K) ks = Some a" and "find_key (grandpa_id K) ks = Some g"
  using assms by (auto simp: has_only_aura_and_grandpa_keys_def)

lemma mset_canonical_keys:
  assumes "key_types_ok K"
  shows "mset (canonical_keys K ks) = mset ks"
proof (cases "has_only_aura_and_grandpa_keys K ks")
  case True
  then obtain a g where ag: "find_key (aura_id K) ks = Some a" "find_key (grandpa_id K) ks = Some g"
    by (rule has_only_cases)
  obtain x y where xy: "ks = [x, y]"
    using True by (auto simp: has_only_aura_and_grandpa_keys_def length_Suc_conv eval_nat_numeral)
  show ?thesis
    using ag assms True unfolding xy
    by (cases x; cases y)
      (auto simp: canonical_keys_def find_or_empty_def key_types_ok_def add_mset_commute split: if_splits)
qed (simp add: canonical_keys_def)

lemma compact_length_marker:
  "n < 2 ^ 32 - 1 \<Longrightarrow> (of_nat n :: u32) \<noteq> - 1"
proof
  assume "n < 2 ^ 32 - 1" and "(of_nat n :: u32) = - 1"
  then have "unat (of_nat n :: u32) = 2 ^ 32 - 1"
    by (simp add: unsigned_minus_1_eq_mask mask_eq_exp_minus_1)
  with \<open>n < 2 ^ 32 - 1\<close> show False by (simp add: unat_of_nat_fits)
qed

text \<open>The backward compatible codec of \<open>CandidateKeys\<close> round trips: decoding what was encoded gives
  back the same keys (the same multiset, in the same order unless exactly an AURA and a GRANDPA key are
  present, which come back AURA first) and leaves the rest of the input; the marker \<open>u32::MAX\<close> never
  collides with the length of a key.\<close>

theorem candidate_keys_roundtrip:
  assumes "scale_codec_ok S" and "key_types_ok K" and "keys_fit ks"
  shows "\<exists>ks'. decode_keys K S (encode_to K S ks @ r) = Some (ks', r) \<and> mset ks' = mset ks \<and>
    (\<not> has_only_aura_and_grandpa_keys K ks \<longrightarrow> ks' = ks)"
proof (cases "has_only_aura_and_grandpa_keys K ks")
  case True
  then obtain a g where ag: "find_key (aura_id K) ks = Some a" "find_key (grandpa_id K) ks = Some g"
    by (rule has_only_cases)
  have len: "length a < 2 ^ 32 - 1" "length g < 2 ^ 32 - 1"
    using find_key_in [OF ag(1)] find_key_in [OF ag(2)] assms(3) by (fastforce simp: keys_fit_def)+
  have "encode_to K S ks = enc_compact S (of_nat (length a)) @ a @ enc_bytes S g"
    using True ag by (simp add: encode_to_def find_or_empty_def enc_bytes_def)
  moreover have "unat (of_nat (length a) :: u32) = length a" using len(1) by (simp add: unat_of_nat_fits)
  moreover have "dec_bytes S (enc_bytes S g @ r) = Some (g, r)" using len(2) by (intro dec_enc_bytes assms(1)) simp
  ultimately have "decode_keys K S (encode_to K S ks @ r) = Some (canonical_keys K ks, r)"
    using True ag assms(1) compact_length_marker [OF len(1)]
    by (simp add: decode_keys_def scale_codec_ok_def decode_vec_with_len_append canonical_keys_def
        find_or_empty_def)
  then show ?thesis using mset_canonical_keys [OF assms(2)] True by blast
next
  case False
  have "unat (of_nat (length ks) :: u32) = length ks"
    using assms(3) by (simp add: keys_fit_def unat_of_nat_fits)
  moreover have "dec_key_vec S (length ks) (concat (map (enc_candidate_key S) ks) @ r) = Some (ks, r)"
    using assms(3) by (intro dec_enc_key_vec assms(1)) (auto simp: keys_fit_def)
  ultimately have "decode_keys K S (encode_to K S ks @ r) = Some (ks, r)"
    using False assms(1) by (simp add: encode_to_def decode_keys_def scale_codec_ok_def)
  then show ?thesis by blast
qed

text \<open>A self-delimiting codec of 32-bit integers: as many ones as the number, then a zero.\<close>

definition unary_codec :: scale_codec where
  "unary_codec = \<lparr>enc_compact = (\<lambda>n. replicate (unat n) 1 @ [0]),
     dec_compact = (\<lambda>bs. let k = length (takeWhile (\<lambda>b. b = 1) bs) in
       if k < length bs then Some (of_nat k, drop (Suc k) bs) else None)\<rparr>"

lemma unary_codec_ok: "scale_codec_ok unary_codec"
proof -
  have "takeWhile (\<lambda>b. b = (1 :: u8)) (replicate k 1 @ 0 # r) = replicate k 1" for k r
    by (induction k) simp_all
  then show ?thesis by (simp add: scale_codec_ok_def unary_codec_def)
qed

definition demo_key_types :: key_types where
  "demo_key_types = \<lparr>aura_id = [97, 117, 114, 97], grandpa_id = [103, 114, 97, 110]\<rparr>"

theorem candidate_keys_roundtrip_witness:
  "\<exists>ks'. decode_keys demo_key_types unary_codec (encode_to demo_key_types unary_codec
       [\<lparr>ck_id = [103, 114, 97, 110], ck_bytes = [1, 2]\<rparr>, \<lparr>ck_id = [97, 117, 114, 97], ck_bytes = [3]\<rparr>] @ [7]) =
     Some (ks', [7]) \<and>
     mset ks' = mset [\<lparr>ck_id = [103, 114, 97, 110], ck_bytes = [1, 2]\<rparr>, \<lparr>ck_id = [97, 117, 114, 97], ck_bytes = [3]\<rparr>]"
  using candidate_keys_roundtrip [OF unary_codec_ok, of demo_key_types
      "[\<lparr>ck_id = [103, 114, 97, 110], ck_bytes = [1, 2]\<rparr>, \<lparr>ck_id = [97, 117, 114, 97], ck_bytes = [3]\<rparr>]" "[7]"]
  by (auto simp: key_types_ok_def demo_key_types_def keys_fit_def)

lemma ordering_key_less_iff:
  "ordering_key a < ordering_key b \<longleftrightarrow>
     ui_block_number a < ui_block_number b \<or>
     ui_block_number a = ui_block_number b \<and>
       (ui_tx_index_within_block a < ui_tx_index_within_block b \<or>
        ui_tx_index_within_block a = ui_tx_index_within_block b \<and>
          utxo_index (ui_utxo_id a) < utxo_index (ui_utxo_id b))"
  by (auto simp: ordering_key_def)

end
