(* ===== verification/Candidate_Filter.thy ===== *)
theory Candidate_Filter
  imports Ariadne_V2 Domain "HOL-Library.Countable"
begin

text \<open>
  Validation of candidates and selection of the committee from main chain data:
  \<open>filter_invalid_candidates.rs\<close> and \<open>select_authorities.rs\<close> of
  \<open>toolkit/committee-selection/authority-selection-inherents\<close>, \<open>CommitteeMember\<close> and
  \<open>AuthoritySelectionInputs\<close> of \<open>toolkit/committee-selection/primitives\<close>.

  What the code takes from its environment is the record \<open>candidate_env\<close>: the key type ids and the
  decoder of the runtime's session keys (\<open>impl_opaque_keys!\<close>), signature verification of \<open>sp_core\<close>,
  the conversion of a public key to an account id, and the CBOR bytes of \<open>minicbor\<close>. 256-bit
  integers are words; their big-endian conversions (\<open>primitive_types::U256\<close>) are the record
  \<open>u256_conv\<close>, with \<open>u256_conv_ok\<close> their documented meaning.
\<close>

section \<open>Candidates\<close>

datatype ('id, 'keys) committee_member =
    MemberPermissioned (cm_id: 'id) (cm_keys: 'keys)
  | MemberRegistered (cm_id: 'id) (cm_keys: 'keys) (cm_pool: bytes)

definition authority_id :: "('id, 'keys) committee_member \<Rightarrow> 'id" where
  "authority_id m = (case m of MemberPermissioned i k \<Rightarrow> i | MemberRegistered i k p \<Rightarrow> i)"

definition authority_keys :: "('id, 'keys) committee_member \<Rightarrow> 'keys" where
  "authority_keys m = (case m of MemberPermissioned i k \<Rightarrow> k | MemberRegistered i k p \<Rightarrow> k)"

fun map_authority_keys :: "('keys \<Rightarrow> 'new) \<Rightarrow> ('id, 'keys) committee_member \<Rightarrow> ('id, 'new) committee_member" where
  "map_authority_keys f (MemberPermissioned i k) = MemberPermissioned i (f k)"
| "map_authority_keys f (MemberRegistered i k p) = MemberRegistered i (f k) p"

record ('id, 'keys) candidate_with_stake =
  cs_stake_pool_pub_key :: bytes
  cs_stake_delegation :: stake_delegation
  cs_account_id :: 'id
  cs_account_keys :: 'keys

record ('id, 'keys) permissioned_candidate =
  pc_account_id :: 'id
  pc_account_keys :: 'keys

datatype ('id, 'keys) candidate =
    Permissioned "('id, 'keys) permissioned_candidate"
  | Registered "('id, 'keys) candidate_with_stake"

text \<open>The derived order: permissioned candidates first, then the fields in their order.\<close>

fun candidate_rank ::
  "('id, 'keys) candidate \<Rightarrow> bool \<times> bytes \<times> stake_delegation \<times> 'id \<times> 'keys" where
  "candidate_rank (Permissioned c) = (False, [], 0, pc_account_id c, pc_account_keys c)"
| "candidate_rank (Registered c) =
     (True, cs_stake_pool_pub_key c, cs_stake_delegation c, cs_account_id c, cs_account_keys c)"

lemma candidate_rank_inject: "candidate_rank c = candidate_rank d \<longleftrightarrow> c = d"
proof
  assume "candidate_rank c = candidate_rank d"
  then show "c = d"
    by (cases c; cases d)
      (auto intro!: candidate_with_stake.equality permissioned_candidate.equality)
qed simp

instantiation candidate :: (linorder, linorder) linorder
begin

definition less_eq_candidate :: "('a, 'b) candidate \<Rightarrow> ('a, 'b) candidate \<Rightarrow> bool" where
  "less_eq_candidate c d \<longleftrightarrow> candidate_rank c \<le> candidate_rank d"

definition less_candidate :: "('a, 'b) candidate \<Rightarrow> ('a, 'b) candidate \<Rightarrow> bool" where
  "less_candidate c d \<longleftrightarrow> candidate_rank c < candidate_rank d"

instance
proof
  fix x y z :: "('a, 'b) candidate"
  show "x < y \<longleftrightarrow> x \<le> y \<and> \<not> y \<le> x"
    unfolding less_eq_candidate_def less_candidate_def by (rule less_le_not_le)
  show "x \<le> x" unfolding less_eq_candidate_def by (rule order_refl)
  show "x \<le> y \<Longrightarrow> y \<le> z \<Longrightarrow> x \<le> z" unfolding less_eq_candidate_def by (rule order_trans)
  show "x \<le> y \<Longrightarrow> y \<le> x \<Longrightarrow> x = y"
    unfolding less_eq_candidate_def using candidate_rank_inject [of x y] by (auto dest: order_antisym)
  show "x \<le> y \<or> y \<le> x" unfolding less_eq_candidate_def by (rule linear)
qed

end

fun member_of_candidate :: "('id, 'keys) candidate \<Rightarrow> ('id, 'keys) committee_member" where
  "member_of_candidate (Permissioned m) = MemberPermissioned (pc_account_id m) (pc_account_keys m)"
| "member_of_candidate (Registered m) =
     MemberRegistered (cs_account_id m) (cs_account_keys m) (cs_stake_pool_pub_key m)"

fun account_id :: "('id, 'keys) candidate \<Rightarrow> 'id" where
  "account_id (Permissioned c) = pc_account_id c"
| "account_id (Registered c) = cs_account_id c"

fun account_keys :: "('id, 'keys) candidate \<Rightarrow> 'keys" where
  "account_keys (Permissioned c) = pc_account_keys c"
| "account_keys (Registered c) = cs_account_keys c"

fun candidate_stake :: "('id, 'keys) candidate \<Rightarrow> stake_delegation option" where
  "candidate_stake (Permissioned c) = None"
| "candidate_stake (Registered c) = Some (cs_stake_delegation c)"

record ('id, 'keys) candidate_env =
  key_ids :: "bytes list"
  keys_decode :: "bytes \<Rightarrow> 'keys option"
  ed25519_verify :: "bytes \<Rightarrow> bytes \<Rightarrow> bytes \<Rightarrow> bool"
  ecdsa_verify :: "bytes \<Rightarrow> bytes \<Rightarrow> bytes \<Rightarrow> bool"
  account_from_ecdsa :: "bytes \<Rightarrow> 'id"
  minicbor_to_vec :: "cbor_token list \<Rightarrow> bytes"
  to_bytes_be :: "int \<Rightarrow> bytes"

section \<open>Validation\<close>

datatype stake_error = InvalidStake | UnknownStake

datatype registration_data_error =
    InvalidMainchainSignature | InvalidSidechainSignature | InvalidTxInput
  | InvalidMainchainPubKey | InvalidSidechainPubKey | InvalidAccountKeys

datatype permissioned_candidate_data_error =
    PermissionedInvalidSidechainPubKey | PermissionedInvalidAccountKeys

text \<open>The bounded vector of encoded keys holds at most 1024 bytes.\<close>

fun append_keys :: "bytes list \<Rightarrow> candidate_keys \<Rightarrow> bytes \<Rightarrow> bytes option" where
  "append_keys [] ks encoded_keys = Some encoded_keys"
| "append_keys (key_id # required_keys) ks encoded_keys =
     (case find_key key_id ks of
        None \<Rightarrow> None
      | Some bs \<Rightarrow>
          if length encoded_keys + length bs \<le> 1024 then append_keys required_keys ks (encoded_keys @ bs)
          else None)"

definition maybe_from :: "('id, 'keys) candidate_env \<Rightarrow> candidate_keys \<Rightarrow> 'keys option" where
  "maybe_from E ks = Option.bind (append_keys (key_ids E) ks []) (keys_decode E)"

definition validate_permissioned_candidate_data ::
  "('id, 'keys) candidate_env \<Rightarrow> permissioned_candidate_data \<Rightarrow>
   permissioned_candidate_data_error + bytes \<times> 'keys" where
  "validate_permissioned_candidate_data E candidate =
     try_bind (ensure (length (pcd_sidechain_public_key candidate) = 33) PermissionedInvalidSidechainPubKey)
       (\<lambda>_. try_bind (ok_or (maybe_from E (pcd_keys candidate)) PermissionedInvalidAccountKeys)
         (\<lambda>keys. Inr (pcd_sidechain_public_key candidate, keys)))"

record register_validator_signed_message =
  rm_genesis_utxo :: utxo_id
  rm_sidechain_pub_key :: bytes
  rm_registration_utxo :: utxo_id

definition signed_message_to_datum :: "register_validator_signed_message \<Rightarrow> datum" where
  "signed_message_to_datum m = derive_to_datum False
     [utxo_id_to_datum (rm_genesis_utxo m), bytes_to_datum (rm_sidechain_pub_key m),
      utxo_id_to_datum (rm_registration_utxo m)]"

definition validate_stake :: "stake_delegation option \<Rightarrow> stake_error + stake_delegation" where
  "validate_stake stake =
     (case stake of
        None \<Rightarrow> Inl UnknownStake
      | Some stake \<Rightarrow> if stake_is_zero stake then Inl InvalidStake else Inr stake)"

definition verify_stake_pool_signature ::
  "('id, 'keys) candidate_env \<Rightarrow> bytes \<Rightarrow> registration_data \<Rightarrow> bytes \<Rightarrow> registration_data_error + unit" where
  "verify_stake_pool_signature E stake_pool_pub_key rd signed_message_encoded =
     try_bind (ensure (length (rd_mainchain_signature rd) = 64) InvalidMainchainSignature) (\<lambda>_.
       if ed25519_verify E stake_pool_pub_key signed_message_encoded (rd_mainchain_signature rd)
       then Inr () else Inl InvalidMainchainSignature)"

definition verify_sidechain_signature ::
  "('id, 'keys) candidate_env \<Rightarrow> bytes \<Rightarrow> bytes \<Rightarrow> bytes \<Rightarrow> registration_data_error + unit" where
  "verify_sidechain_signature E pub_key signature signed_message_encoded =
     try_bind (ensure (length signature = 64) InvalidSidechainSignature) (\<lambda>_.
       if list_ex (\<lambda>v. ecdsa_verify E pub_key signed_message_encoded (signature @ [v])) [27, 28]
       then Inr () else Inl InvalidSidechainSignature)"

definition verify_tx_inputs :: "registration_data \<Rightarrow> registration_data_error + unit" where
  "verify_tx_inputs rd =
     (if rd_registration_utxo rd \<in> set (rd_tx_inputs rd) then Inr () else Inl InvalidTxInput)"

definition validate_registration_data ::
  "('id, 'keys) candidate_env \<Rightarrow> bytes \<Rightarrow> registration_data \<Rightarrow> utxo_id \<Rightarrow>
   registration_data_error + bytes \<times> 'keys" where
  "validate_registration_data E stake_pool_pub_key rd genesis_utxo =
     try_bind (ok_or (maybe_from E (rd_keys rd)) InvalidAccountKeys) (\<lambda>account_keys.
     try_bind (ensure (length (rd_sidechain_pub_key rd) = 33) InvalidSidechainPubKey) (\<lambda>_.
     let sidechain_pub_key = rd_sidechain_pub_key rd;
         signed_message = \<lparr>rm_genesis_utxo = genesis_utxo, rm_sidechain_pub_key = rd_sidechain_pub_key rd,
           rm_registration_utxo = rd_registration_utxo rd\<rparr>;
         signed_message_encoded =
           minicbor_to_vec E (encode_datum (to_bytes_be E) (signed_message_to_datum signed_message))
     in try_bind (verify_stake_pool_signature E stake_pool_pub_key rd signed_message_encoded) (\<lambda>_.
        try_bind (verify_sidechain_signature E sidechain_pub_key (rd_sidechain_signature rd)
          signed_message_encoded) (\<lambda>_.
        try_bind (verify_tx_inputs rd) (\<lambda>_.
          Inr (sidechain_pub_key, account_keys))))))"

section \<open>Filtering\<close>

text \<open>\<open>Iterator::max_by_key\<close>: the last of the elements with the greatest key.\<close>

fun max_by_key :: "('a \<Rightarrow> 'k::linorder) \<Rightarrow> 'a list \<Rightarrow> 'a option" where
  "max_by_key key [] = None"
| "max_by_key key (x # xs) = Some (foldl (\<lambda>best y. if key best \<le> key y then y else best) x xs)"

definition select_latest_valid_candidate ::
  "('id, 'keys) candidate_env \<Rightarrow> candidate_registrations \<Rightarrow> utxo_id \<Rightarrow>
   ('id, 'keys) candidate_with_stake option" where
  "select_latest_valid_candidate E cr genesis_utxo =
     Option.bind (ok (validate_stake (cr_stake_delegation cr))) (\<lambda>stake_delegation.
     Option.bind (max_by_key (\<lambda>(_, utxo_info). ordering_key utxo_info)
       (List.map_filter (\<lambda>rd.
          case validate_registration_data E (cr_stake_pool_public_key cr) rd genesis_utxo of
            Inr candidate \<Rightarrow> Some (candidate, rd_utxo_info rd)
          | Inl _ \<Rightarrow> None) (cr_registrations cr)))
       (\<lambda>((pub_key, keys), _).
          Some \<lparr>cs_stake_pool_pub_key = cr_stake_pool_public_key cr,
                cs_stake_delegation = stake_delegation,
                cs_account_id = account_from_ecdsa E pub_key,
                cs_account_keys = keys\<rparr>))"

definition filter_trustless_candidates_registrations ::
  "('id, 'keys) candidate_env \<Rightarrow> candidate_registrations list \<Rightarrow> utxo_id \<Rightarrow>
   (('id, 'keys) candidate \<times> weight) list" where
  "filter_trustless_candidates_registrations E crs genesis_utxo =
     map (\<lambda>c. (Registered c, ucast (cs_stake_delegation c)))
       (List.map_filter (\<lambda>cr. select_latest_valid_candidate E cr genesis_utxo) crs)"

definition filter_invalid_permissioned_candidates ::
  "('id, 'keys) candidate_env \<Rightarrow> permissioned_candidate_data list \<Rightarrow> ('id, 'keys) candidate list" where
  "filter_invalid_permissioned_candidates E pcs =
     List.map_filter (\<lambda>candidate.
       map_option (\<lambda>(partner_chain_key, keys).
           Permissioned \<lparr>pc_account_id = account_from_ecdsa E partner_chain_key, pc_account_keys = keys\<rparr>)
         (ok (validate_permissioned_candidate_data E candidate))) pcs"

section \<open>Selection\<close>

record authority_selection_inputs =
  asi_d_parameter :: d_parameter
  asi_permissioned_candidates :: "permissioned_candidate_data list"
  asi_registered_candidates :: "candidate_registrations list"
  asi_epoch_nonce :: bytes

record u256_conv =
  from_big_endian :: "bytes \<Rightarrow> 256 word"
  to_big_endian :: "256 word \<Rightarrow> bytes"

definition u256_conv_ok :: "u256_conv \<Rightarrow> bool" where
  "u256_conv_ok U \<longleftrightarrow>
     (\<forall>bs. length bs = 32 \<longrightarrow> unat (from_big_endian U bs) = be_value bs) \<and>
     (\<forall>w. length (to_big_endian U w) = 32 \<and> be_value (to_big_endian U w) = unat w)"

definition seed_from_nonce_and_sc_epoch :: "u256_conv \<Rightarrow> bytes \<Rightarrow> sc_epoch_number \<Rightarrow> bytes" where
  "seed_from_nonce_and_sc_epoch U epoch_nonce partner_chain_epoch_number =
     to_big_endian U (from_big_endian U (epoch_nonce_as_array epoch_nonce) + ucast partner_chain_epoch_number)"

definition select_candidates ::
  "(bytes, 'rng, ('id, 'keys) candidate) chacha20 \<Rightarrow> u256_conv \<Rightarrow> ('id, 'keys) candidate_env \<Rightarrow> utxo_id \<Rightarrow>
   authority_selection_inputs \<Rightarrow> sc_epoch_number \<Rightarrow>
   ('id::linorder, 'keys::linorder) committee_member list option exec" where
  "select_candidates R U E genesis_utxo input sidechain_epoch =
     (let valid_registered = filter_trustless_candidates_registrations E (asi_registered_candidates input) genesis_utxo;
          valid_permissioned = filter_invalid_permissioned_candidates E (asi_permissioned_candidates input);
          random_seed = seed_from_nonce_and_sc_epoch U (asi_epoch_nonce input) sidechain_epoch
      in exec_map (map_option (map member_of_candidate))
           (select_authorities_v2 R (num_registered_candidates (asi_d_parameter input))
              (num_permissioned_candidates (asi_d_parameter input)) valid_registered valid_permissioned
              random_seed))"

text \<open>\<open>BoundedVec::truncate_from\<close> keeps the first \<open>MaxAuthorities\<close> members.\<close>

definition select_authorities ::
  "(bytes, 'rng, ('id, 'keys) candidate) chacha20 \<Rightarrow> u256_conv \<Rightarrow> ('id, 'keys) candidate_env \<Rightarrow> nat \<Rightarrow> utxo_id \<Rightarrow>
   authority_selection_inputs \<Rightarrow> sc_epoch_number \<Rightarrow>
   ('id::linorder, 'keys::linorder) committee_member list option exec" where
  "select_authorities R U E max_authorities genesis_utxo input sidechain_epoch =
     exec_map (map_option (take max_authorities)) (select_candidates R U E genesis_utxo input sidechain_epoch)"

section \<open>Correctness\<close>

lemma foldl_max_by_key:
  "\<exists>ys z zs. x # xs = ys @ z # zs \<and>
     foldl (\<lambda>best y. if key best \<le> (key y :: 'k::linorder) then y else best) x xs = z \<and>
     (\<forall>y \<in> set ys. key y \<le> key z) \<and> (\<forall>y \<in> set zs. key y < key z)"
proof (induction xs rule: rev_induct)
  case Nil
  show ?case by (intro exI [of _ "[]"] exI [of _ x]) simp
next
  case (snoc a xs)
  then obtain ys z zs where IH: "x # xs = ys @ z # zs"
    "foldl (\<lambda>best y. if key best \<le> key y then y else best) x xs = z"
    "\<forall>y \<in> set ys. key y \<le> key z" "\<forall>y \<in> set zs. key y < key z" by blast
  show ?case
  proof (cases "key z \<le> key a")
    case True
    have "\<forall>y \<in> set (x # xs). key y \<le> key a"
      using IH True unfolding IH(1) by (auto intro: order_trans less_imp_le)
    then show ?thesis using IH(2) True by (intro exI [of _ "x # xs"] exI [of _ a] exI [of _ "[]"]) simp
  next
    case False
    then show ?thesis
      using IH by (intro exI [of _ ys] exI [of _ z] exI [of _ "zs @ [a]"]) auto
  qed
qed

lemma max_by_key_Some:
  assumes "max_by_key key xs = Some z"
  obtains ys zs where "xs = ys @ z # zs" and "\<forall>y \<in> set ys. key y \<le> key z" and "\<forall>y \<in> set zs. key y < key z"
proof (cases xs)
  case (Cons x ys)
  then show thesis using assms that foldl_max_by_key [of x ys key] by auto
qed (use assms in simp)

lemma max_by_key_None_iff: "max_by_key key xs = None \<longleftrightarrow> xs = []"
  by (cases xs) simp_all

text \<open>The conditions a registration has to meet.\<close>

definition registration_message :: "('id, 'keys) candidate_env \<Rightarrow> utxo_id \<Rightarrow> registration_data \<Rightarrow> bytes" where
  "registration_message E genesis_utxo rd =
     minicbor_to_vec E (encode_datum (to_bytes_be E)
       (ConstructorDatum 0 [utxo_id_to_datum genesis_utxo, ByteStringDatum (rd_sidechain_pub_key rd),
          utxo_id_to_datum (rd_registration_utxo rd)]))"

definition registration_valid ::
  "('id, 'keys) candidate_env \<Rightarrow> bytes \<Rightarrow> utxo_id \<Rightarrow> registration_data \<Rightarrow> bool" where
  "registration_valid E pool genesis_utxo rd \<longleftrightarrow>
     maybe_from E (rd_keys rd) \<noteq> None \<and> length (rd_sidechain_pub_key rd) = 33 \<and>
     length (rd_mainchain_signature rd) = 64 \<and>
     ed25519_verify E pool (registration_message E genesis_utxo rd) (rd_mainchain_signature rd) \<and>
     length (rd_sidechain_signature rd) = 64 \<and>
     (\<exists>v \<in> {27, 28}. ecdsa_verify E (rd_sidechain_pub_key rd) (registration_message E genesis_utxo rd)
        (rd_sidechain_signature rd @ [v])) \<and>
     rd_registration_utxo rd \<in> set (rd_tx_inputs rd)"

lemma signed_message_datum:
  "signed_message_to_datum \<lparr>rm_genesis_utxo = g, rm_sidechain_pub_key = k, rm_registration_utxo = u\<rparr> =
     ConstructorDatum 0 [utxo_id_to_datum g, ByteStringDatum k, utxo_id_to_datum u]"
  by (simp add: signed_message_to_datum_def derive_to_datum_def bytes_to_datum_def)

lemma validate_registration_data_Inr:
  "validate_registration_data E pool rd g = Inr (pk, keys) \<longleftrightarrow>
     registration_valid E pool g rd \<and> pk = rd_sidechain_pub_key rd \<and> maybe_from E (rd_keys rd) = Some keys"
  unfolding validate_registration_data_def registration_valid_def registration_message_def Let_def
    verify_stake_pool_signature_def verify_sidechain_signature_def verify_tx_inputs_def signed_message_datum
  by (auto split: if_splits)

lemma validate_registration_data_valid:
  assumes "registration_valid E pool g rd"
  obtains keys where "maybe_from E (rd_keys rd) = Some keys"
    and "validate_registration_data E pool rd g = Inr (rd_sidechain_pub_key rd, keys)"
proof -
  from assms obtain keys where "maybe_from E (rd_keys rd) = Some keys"
    by (auto simp: registration_valid_def)
  with assms show thesis by (intro that) (simp_all add: validate_registration_data_Inr)
qed

definition valid_of :: "('id, 'keys) candidate_env \<Rightarrow> candidate_registrations \<Rightarrow> utxo_id \<Rightarrow> registration_data list" where
  "valid_of E cr g = filter (registration_valid E (cr_stake_pool_public_key cr) g) (cr_registrations cr)"

lemma map_filter_validate:
  "List.map_filter (\<lambda>rd. case validate_registration_data E pool rd g of
       Inr candidate \<Rightarrow> Some (candidate, rd_utxo_info rd) | Inl _ \<Rightarrow> None) rds =
   map (\<lambda>rd. ((rd_sidechain_pub_key rd, the (maybe_from E (rd_keys rd))), rd_utxo_info rd))
     (filter (registration_valid E pool g) rds)"
proof (induction rds)
  case (Cons rd rds)
  show ?case
  proof (cases "registration_valid E pool g rd")
    case True
    then obtain keys where "maybe_from E (rd_keys rd) = Some keys"
      "validate_registration_data E pool rd g = Inr (rd_sidechain_pub_key rd, keys)"
      by (rule validate_registration_data_valid)
    with True Cons show ?thesis by (simp add: map_filter_simps)
  next
    case False
    then obtain e where "validate_registration_data E pool rd g = Inl e"
      using validate_registration_data_Inr [of E pool rd g]
      by (cases "validate_registration_data E pool rd g") fastforce+
    with False Cons show ?thesis by (simp add: map_filter_simps)
  qed
qed (simp add: map_filter_simps)

text \<open>Committing to the latest valid registration: \<open>rd\<close> is valid, no valid registration has a greater
  key and none listed after it has the same key.\<close>

definition latest_valid ::
  "('id, 'keys) candidate_env \<Rightarrow> candidate_registrations \<Rightarrow> utxo_id \<Rightarrow> registration_data \<Rightarrow> bool" where
  "latest_valid E cr g rd \<longleftrightarrow>
     (\<exists>before after. valid_of E cr g = before @ rd # after \<and>
        (\<forall>r \<in> set before. ordering_key (rd_utxo_info r) \<le> ordering_key (rd_utxo_info rd)) \<and>
        (\<forall>r \<in> set after. ordering_key (rd_utxo_info r) < ordering_key (rd_utxo_info rd)))"

lemma max_by_key_map:
  "max_by_key key (map f xs) = map_option f (max_by_key (\<lambda>x. key (f x)) xs)"
proof (cases xs)
  case (Cons x ys)
  have "foldl (\<lambda>best y. if key best \<le> key y then y else best) (f z) (map f ys) =
      f (foldl (\<lambda>best y. if key (f best) \<le> key (f y) then y else best) z ys)" for z
    by (induction ys arbitrary: z) auto
  then show ?thesis by (simp add: Cons)
qed simp

lemma select_latest_valid_candidate_eq:
  "select_latest_valid_candidate E cr g =
     (case cr_stake_delegation cr of
        None \<Rightarrow> None
      | Some stake \<Rightarrow>
          if stake = 0 then None
          else map_option (\<lambda>rd.
              \<lparr>cs_stake_pool_pub_key = cr_stake_pool_public_key cr, cs_stake_delegation = stake,
               cs_account_id = account_from_ecdsa E (rd_sidechain_pub_key rd),
               cs_account_keys = the (maybe_from E (rd_keys rd))\<rparr>)
            (max_by_key (\<lambda>rd. ordering_key (rd_utxo_info rd)) (valid_of E cr g)))"
  unfolding select_latest_valid_candidate_def map_filter_validate max_by_key_map valid_of_def [symmetric]
  by (cases "max_by_key (\<lambda>rd. ordering_key (rd_utxo_info rd)) (valid_of E cr g)")
    (auto simp: validate_stake_def stake_is_zero_def split: option.splits)

lemma last_max_unique:
  assumes "ys @ z # zs = ys' @ z' # zs'"
    and "\<forall>y \<in> set ys. key y \<le> key z" "\<forall>y \<in> set zs. key y < (key z :: 'k::linorder)"
    and "\<forall>y \<in> set ys'. key y \<le> key z'" "\<forall>y \<in> set zs'. key y < key z'"
  shows "z = z'"
proof -
  from assms(1) obtain us where "ys = ys' @ us \<and> us @ z # zs = z' # zs' \<or> ys @ us = ys' \<and> z # zs = us @ z' # zs'"
    by (auto simp: append_eq_append_conv2)
  then show ?thesis
  proof
    assume *: "ys = ys' @ us \<and> us @ z # zs = z' # zs'"
    show ?thesis
    proof (cases us)
      case (Cons u us')
      then have "u = z'" "z \<in> set zs'" "u \<in> set ys" using * by auto
      then show ?thesis using assms(2,5) by fastforce
    qed (use * in simp)
  next
    assume *: "ys @ us = ys' \<and> z # zs = us @ z' # zs'"
    show ?thesis
    proof (cases us)
      case (Cons u us')
      then have "u = z" "z' \<in> set zs" "u \<in> set ys'" using * by auto
      then show ?thesis using assms(3,4) by fastforce
    qed (use * in simp)
  qed
qed

lemma max_by_key_latest_valid:
  "max_by_key (\<lambda>rd. ordering_key (rd_utxo_info rd)) (valid_of E cr g) = Some rd \<longleftrightarrow> latest_valid E cr g rd"
proof
  assume "max_by_key (\<lambda>rd. ordering_key (rd_utxo_info rd)) (valid_of E cr g) = Some rd"
  then show "latest_valid E cr g rd" by (rule max_by_key_Some) (auto simp: latest_valid_def)
next
  assume lv: "latest_valid E cr g rd"
  then have "valid_of E cr g \<noteq> []" by (auto simp: latest_valid_def)
  then obtain rd' where m: "max_by_key (\<lambda>rd. ordering_key (rd_utxo_info rd)) (valid_of E cr g) = Some rd'"
    by (cases "max_by_key (\<lambda>rd. ordering_key (rd_utxo_info rd)) (valid_of E cr g)")
      (simp_all add: max_by_key_None_iff)
  from lv obtain before after where 1: "valid_of E cr g = before @ rd # after"
    "\<forall>r \<in> set before. ordering_key (rd_utxo_info r) \<le> ordering_key (rd_utxo_info rd)"
    "\<forall>r \<in> set after. ordering_key (rd_utxo_info r) < ordering_key (rd_utxo_info rd)"
    by (auto simp: latest_valid_def)
  from m obtain ys zs where 2: "valid_of E cr g = ys @ rd' # zs"
    "\<forall>r \<in> set ys. ordering_key (rd_utxo_info r) \<le> ordering_key (rd_utxo_info rd')"
    "\<forall>r \<in> set zs. ordering_key (rd_utxo_info r) < ordering_key (rd_utxo_info rd')"
    by (rule max_by_key_Some)
  have "before @ rd # after = ys @ rd' # zs" using 1(1) 2(1) by simp
  from last_max_unique [OF this, of "\<lambda>rd. ordering_key (rd_utxo_info rd)"] 1 2 have "rd = rd'" by blast
  with m show "max_by_key (\<lambda>rd. ordering_key (rd_utxo_info rd)) (valid_of E cr g) = Some rd" by simp
qed

lemma latest_valid_keys:
  "latest_valid E cr g rd \<Longrightarrow> registration_valid E (cr_stake_pool_public_key cr) g rd \<and> rd \<in> set (cr_registrations cr)"
proof -
  assume "latest_valid E cr g rd"
  then have "rd \<in> set (valid_of E cr g)" by (auto simp: latest_valid_def)
  then show ?thesis by (simp add: valid_of_def)
qed

lemma select_latest_Some:
  "select_latest_valid_candidate E cr g = Some c \<longleftrightarrow>
     (\<exists>stake rd keys. cr_stake_delegation cr = Some stake \<and> 0 < stake \<and> latest_valid E cr g rd \<and>
        maybe_from E (rd_keys rd) = Some keys \<and>
        c = \<lparr>cs_stake_pool_pub_key = cr_stake_pool_public_key cr, cs_stake_delegation = stake,
             cs_account_id = account_from_ecdsa E (rd_sidechain_pub_key rd), cs_account_keys = keys\<rparr>)"
proof -
  have "\<exists>keys. maybe_from E (rd_keys rd) = Some keys" if "latest_valid E cr g rd" for rd
    using latest_valid_keys [OF that] by (auto simp: registration_valid_def)
  then show ?thesis
    unfolding select_latest_valid_candidate_eq
    by (auto simp: max_by_key_latest_valid word_gt_0 split: option.splits if_splits)
qed

lemma filter_trustless_entry:
  assumes "(c, w) \<in> set (filter_trustless_candidates_registrations E crs g)"
  obtains cr s where "cr \<in> set crs" and "select_latest_valid_candidate E cr g = Some s"
    and "c = Registered s" and "w = ucast (cs_stake_delegation s)" and "0 < w" and "unat w < 2 ^ 64"
proof -
  from assms obtain cr s where *: "cr \<in> set crs" "select_latest_valid_candidate E cr g = Some s"
    "c = Registered s" "w = ucast (cs_stake_delegation s)"
    by (auto simp: filter_trustless_candidates_registrations_def List.map_filter_def)
  have "0 < cs_stake_delegation s" using *(2) by (auto simp: select_latest_Some)
  moreover have w: "unat w = unat (cs_stake_delegation s)" by (simp add: *(4) unat_ucast_widen)
  ultimately have "0 < w" by (simp add: word_less_nat_alt)
  moreover have "unat w < 2 ^ 64" unfolding w using unsigned_less [of "cs_stake_delegation s"] by simp
  ultimately show thesis using * that by blast
qed

lemma weight_sum_bound: "\<forall>(c, w) \<in> set cs. unat w < 2 ^ 64 \<Longrightarrow> weight_sum cs \<le> length cs * 2 ^ 64"
  by (induction cs) auto

lemma filter_trustless_sum:
  "weight_sum (filter_trustless_candidates_registrations E crs g) \<le> length crs * 2 ^ 64"
  "filter_trustless_candidates_registrations E crs g \<noteq> [] \<Longrightarrow>
     0 < weight_sum (filter_trustless_candidates_registrations E crs g)"
proof -
  let ?ts = "filter_trustless_candidates_registrations E crs g"
  have "\<forall>(c, w) \<in> set ?ts. unat w < 2 ^ 64" by (auto elim: filter_trustless_entry)
  then have "weight_sum ?ts \<le> length ?ts * 2 ^ 64" by (rule weight_sum_bound)
  also have "length ?ts \<le> length crs"
    by (simp add: filter_trustless_candidates_registrations_def List.map_filter_def)
  then have "length ?ts * 2 ^ 64 \<le> length crs * 2 ^ 64" by simp
  finally show "weight_sum ?ts \<le> length crs * 2 ^ 64" .
  assume "?ts \<noteq> []"
  then obtain p where p: "p \<in> set ?ts" using hd_in_set by blast
  then have "(fst p, snd p) \<in> set ?ts" by simp
  then have "0 < snd p" by (rule filter_trustless_entry)
  then have "0 < unat (snd p)" by (simp add: word_less_nat_alt)
  with p show "0 < weight_sum ?ts" using weight_le_sum [of "fst p" "snd p" ?ts] by simp
qed

lemma filter_permissioned_entry:
  "c \<in> set (filter_invalid_permissioned_candidates E pcs) \<Longrightarrow> \<exists>p. c = Permissioned p"
  by (auto simp: filter_invalid_permissioned_candidates_def List.map_filter_def)

lemma select_authorities_v2_returns:
  assumes "chacha20_ok R" and "length crs < 2 ^ 48" and "length ps < 2 ^ 48"
  shows "\<exists>res. select_authorities_v2 R r p (filter_trustless_candidates_registrations E crs g) ps seed = Ret res"
proof -
  let ?ts = "filter_trustless_candidates_registrations E crs g"
  have fits: "n * unat k < 2 ^ 128" if "n \<le> 2 ^ 48 * 2 ^ 64" for n and k :: u16
  proof -
    have "unat k < 2 ^ 16" using unsigned_less [of k] by simp
    then have "n * unat k \<le> (2 ^ 48 * 2 ^ 64) * (2 ^ 16 - 1)" using that by (intro mult_le_mono) simp_all
    also have "\<dots> < 2 ^ 128" by simp
    finally show ?thesis .
  qed
  have "length crs * 2 ^ 64 \<le> 2 ^ 48 * 2 ^ 64" using assms(2) by simp
  with filter_trustless_sum(1) have ts: "weight_sum ?ts \<le> 2 ^ 48 * 2 ^ 64" by (rule order_trans)
  have all: "\<exists>sel. weighted_with_guaranteed_assignment R cs k rng = Ret sel"
    if cs: "cs = ?ts \<or> cs = equal_weights ps" for cs k rng
  proof (cases "cs = []")
    case True
    then show ?thesis by (simp add: weighted_with_guaranteed_assignment_def)
  next
    case False
    then have "0 < weight_sum cs" using cs filter_trustless_sum(2) [of E crs g] by auto
    moreover have "weight_sum cs * unat k < 2 ^ 128"
      using cs ts assms(3) by (intro fits) auto
    ultimately obtain sel where "weighted_with_guaranteed_assignment R cs k rng = Ret sel"
      using wwga_ok [OF assms(1), of cs k] by metis
    then show ?thesis ..
  qed
  obtain s1 where 1: "weighted_with_guaranteed_assignment R ?ts r (from_seed R seed) = Ret s1" using all by blast
  obtain s2 where 2: "weighted_with_guaranteed_assignment R ?ts (p + r) (from_seed R seed) = Ret s2"
    using all by blast
  obtain s3 where 3: "weighted_with_guaranteed_assignment R (equal_weights ps) p (from_seed R seed) = Ret s3"
    using all by blast
  obtain s4 where 4: "weighted_with_guaranteed_assignment R (equal_weights ps) (p + r) (from_seed R seed) = Ret s4"
    using all by blast
  show ?thesis 
    unfolding select_authorities_v2_def Let_def by (auto simp: 1 2 3 4 wwga_Nil split: if_split)
qed

section \<open>Properties\<close>



text \<open>A concrete environment: one-byte session keys, signatures that verify when they start like the key,
  and an injective numbering of the token sequences.\<close>

instance word :: (len) countable
  by (rule countable_classI [of unat]) (simp add: word_unat_eq_iff)

instance cbor_token :: countable
  by countable_datatype

definition demo_env :: "(bytes, bytes) candidate_env" where
  "demo_env = \<lparr>key_ids = [[1]], keys_decode = Some,
     ed25519_verify = (\<lambda>pk msg sig. hd sig = hd pk), ecdsa_verify = (\<lambda>pk msg sig. hd sig = hd pk),
     account_from_ecdsa = id, minicbor_to_vec = (\<lambda>ts. be_bytes (to_nat ts)),
     to_bytes_be = (\<lambda>i. be_bytes (nat \<bar>i\<bar>))\<rparr>"

definition demo_utxo :: "u16 \<Rightarrow> utxo_id" where
  "demo_utxo n = \<lparr>tx_hash = replicate 32 0, utxo_index = n\<rparr>"

definition demo_registration :: "u32 \<Rightarrow> u8 \<Rightarrow> registration_data" where
  "demo_registration block key = \<lparr>rd_registration_utxo = demo_utxo 1,
     rd_sidechain_signature = replicate 64 key, rd_mainchain_signature = replicate 64 9,
     rd_cross_chain_signature = [], rd_sidechain_pub_key = replicate 33 key, rd_cross_chain_pub_key = [],
     rd_utxo_info = \<lparr>ui_utxo_id = demo_utxo 2, ui_epoch_number = 5, ui_block_number = block,
       ui_slot_number = 7, ui_tx_index_within_block = 0\<rparr>,
     rd_tx_inputs = [demo_utxo 0, demo_utxo 1],
     rd_keys = [\<lparr>ck_id = [1], ck_bytes = [key]\<rparr>]\<rparr>"



text \<open>Committee selection never panics, whatever the main chain data: for fewer than \<open>2 ^ 48\<close>
  registered and permissioned candidates no 128-bit product overflows, no division is by zero and no
  seat count exceeds its type, so \<open>select_authorities\<close> always returns.\<close>

theorem select_authorities_never_panics:
  assumes "chacha20_ok R"
    and "length (asi_registered_candidates input) < 2 ^ 48"
    and "length (asi_permissioned_candidates input) < 2 ^ 48"
  shows "\<exists>res. select_authorities R U E max_authorities g input epoch = Ret res"
proof -
  have "length (filter_invalid_permissioned_candidates E (asi_permissioned_candidates input)) \<le>
      length (asi_permissioned_candidates input)"
    by (simp add: filter_invalid_permissioned_candidates_def List.map_filter_def)
  then have "length (filter_invalid_permissioned_candidates E (asi_permissioned_candidates input)) < 2 ^ 48"
    using assms(3) by (rule le_less_trans)
  from select_authorities_v2_returns [OF assms(1,2) this] obtain res where
    "select_authorities_v2 R (num_registered_candidates (asi_d_parameter input))
       (num_permissioned_candidates (asi_d_parameter input))
       (filter_trustless_candidates_registrations E (asi_registered_candidates input) g)
       (filter_invalid_permissioned_candidates E (asi_permissioned_candidates input))
       (seed_from_nonce_and_sc_epoch U (asi_epoch_nonce input) epoch) = Ret res"
    by blast
  then show ?thesis by (simp add: select_authorities_def select_candidates_def)
qed

definition demo_inputs :: authority_selection_inputs where
  "demo_inputs = \<lparr>asi_d_parameter = \<lparr>num_permissioned_candidates = 2, num_registered_candidates = 3\<rparr>,
     asi_permissioned_candidates =
       [\<lparr>pcd_sidechain_public_key = replicate 33 4, pcd_keys = [\<lparr>ck_id = [1], ck_bytes = [4]\<rparr>]\<rparr>],
     asi_registered_candidates =
       [\<lparr>cr_stake_pool_public_key = replicate 32 9,
         cr_registrations = [demo_registration 5 2, demo_registration 3 8], cr_stake_delegation = Some 100\<rparr>],
     asi_epoch_nonce = [1, 2, 3]\<rparr>"

definition demo_u256 :: u256_conv where
  "demo_u256 = \<lparr>from_big_endian = (\<lambda>bs. of_nat (be_value bs)),
     to_big_endian = (\<lambda>w. replicate (32 - length (be_bytes (unat w))) 0 @ be_bytes (unat w))\<rparr>"

definition bytes_rng :: "(bytes, nat, 'sc) chacha20" where
  "bytes_rng = \<lparr>from_seed = be_value, get_seed = be_bytes,
     random_range = (\<lambda>r n. (of_nat (r mod unat n), Suc r)), shuffle = (\<lambda>xs r. (rev xs, Suc r))\<rparr>"

lemma bytes_rng_ok: "chacha20_ok bytes_rng"
  using counter_rng_ok
  by (simp only: chacha20_ok_def bytes_rng_def counter_rng_def chacha20.select_convs)

theorem select_authorities_never_panics_witness:
  "\<exists>res. select_authorities bytes_rng demo_u256 demo_env 10 (demo_utxo 0) demo_inputs 7 = Ret res"
  by (rule select_authorities_never_panics [OF bytes_rng_ok]) (simp_all add: demo_inputs_def)

text \<open>C2: The whole pipeline respects the D-parameter: when at least one registration and one permissioned
  candidate pass validation, the selected committee has exactly as many registered members as registered
  seats and as many permissioned members as permissioned seats; every registered member comes from a
  registration with positive stake whose latest valid entry it reflects, and every permissioned member
  from valid permissioned data.\<close>

theorem select_candidates_respects_d_parameter:
  assumes "chacha20_ok R" and "length (asi_registered_candidates input) < 2 ^ 48"
    and "length (asi_permissioned_candidates input) < 2 ^ 48"
    and "filter_trustless_candidates_registrations E (asi_registered_candidates input) g \<noteq> []"
    and "filter_invalid_permissioned_candidates E (asi_permissioned_candidates input) \<noteq> []"
  shows "\<exists>reg perm. (\<exists>committee. select_candidates R U E g input epoch = Ret (Some committee) \<and>
      mset committee = mset (reg @ perm)) \<and>
    length reg = unat (num_registered_candidates (asi_d_parameter input)) \<and>
    length perm = unat (num_permissioned_candidates (asi_d_parameter input)) \<and>
    (\<forall>m \<in> set reg. \<exists>cr \<in> set (asi_registered_candidates input). \<exists>c.
       select_latest_valid_candidate E cr g = Some c \<and> m = member_of_candidate (Registered c)) \<and>
    (\<forall>m \<in> set perm. \<exists>p \<in> set (asi_permissioned_candidates input). \<exists>pk keys.
       validate_permissioned_candidate_data E p = Inr (pk, keys) \<and>
       m = MemberPermissioned (account_from_ecdsa E pk) keys)"
proof -
  let ?ts = "filter_trustless_candidates_registrations E (asi_registered_candidates input) g"
  let ?ps = "filter_invalid_permissioned_candidates E (asi_permissioned_candidates input)"
  let ?r = "num_registered_candidates (asi_d_parameter input)"
  let ?p = "num_permissioned_candidates (asi_d_parameter input)"
  let ?seed = "seed_from_nonce_and_sc_epoch U (asi_epoch_nonce input) epoch"
  have lenp: "length ?ps \<le> 2 ^ 48"
    using assms(3) order_trans [of "length ?ps" "length (asi_permissioned_candidates input)" "2 ^ 48"]
    by (simp add: filter_invalid_permissioned_candidates_def List.map_filter_def)
  have small: "unat k < 2 ^ 16" for k :: u16 using unsigned_less [of k] by simp
  have "weight_sum ?ts \<le> length (asi_registered_candidates input) * 2 ^ 64" by (rule filter_trustless_sum(1))
  also have "\<dots> \<le> 2 ^ 48 * 2 ^ 64" using assms(2) by simp
  finally have "weight_sum ?ts * unat ?r \<le> (2 ^ 48 * 2 ^ 64) * (2 ^ 16 - 1)"
    using small [of ?r] by (intro mult_le_mono) simp_all
  then have 1: "weight_sum ?ts * unat ?r < 2 ^ 128" by simp
  have "length ?ps * unat ?p \<le> 2 ^ 48 * (2 ^ 16 - 1)"
    using small [of ?p] lenp by (intro mult_le_mono) simp_all
  then have 2: "length ?ps * unat ?p < 2 ^ 128" by simp
  obtain committee reg perm where v2: "select_authorities_v2 R ?r ?p ?ts ?ps ?seed = Ret (Some committee)"
    "mset committee = mset (reg @ perm)" "length reg = unat ?r" "set reg \<subseteq> electable ?ts"
    "length perm = unat ?p" "set perm \<subseteq> set ?ps"
    using v2_seats_ok [OF assms(1) 1 2 filter_trustless_sum(2) [OF assms(4)] assms(5), of ?seed] by blast
  have "\<exists>cr \<in> set (asi_registered_candidates input). \<exists>c.
      select_latest_valid_candidate E cr g = Some c \<and> m = member_of_candidate (Registered c)"
    if "m \<in> set (map member_of_candidate reg)" for m
  proof -
    from that v2(4) obtain c w where "m = member_of_candidate c" "(c, w) \<in> set ?ts"
      by (auto simp: electable_def)
    from this(2) this(1) show ?thesis by (elim filter_trustless_entry) blast
  qed
  moreover have "\<exists>p \<in> set (asi_permissioned_candidates input). \<exists>pk keys.
      validate_permissioned_candidate_data E p = Inr (pk, keys) \<and> m = MemberPermissioned (account_from_ecdsa E pk) keys"
    if "m \<in> set (map member_of_candidate perm)" for m
    using that v2(6)
    by (force simp: filter_invalid_permissioned_candidates_def List.map_filter_def)
  moreover have "select_candidates R U E g input epoch = Ret (Some (map member_of_candidate committee))"
    using v2(1) by (simp add: select_candidates_def)
  moreover have "mset (map member_of_candidate committee) =
      mset (map member_of_candidate reg @ map member_of_candidate perm)"
    using v2(2) by simp
  ultimately show ?thesis
    using v2(3,5)
    by (intro exI [of _ "map member_of_candidate reg"] exI [of _ "map member_of_candidate perm"]
        conjI exI [of _ "map member_of_candidate committee"]) simp_all
qed

text \<open>The random seed is the nonce plus the epoch number, modulo \<open>2 ^ 256\<close>, in 32 big-endian bytes;
  hence consecutive epochs, and any two different epoch numbers, use different seeds under the same
  nonce.\<close>

theorem seed_from_nonce_and_sc_epoch_spec:
  assumes "u256_conv_ok U"
  shows "length (seed_from_nonce_and_sc_epoch U nonce epoch) = 32 \<and>
    be_value (seed_from_nonce_and_sc_epoch U nonce epoch) =
      (be_value (epoch_nonce_as_array nonce) + unat epoch) mod 2 ^ 256 \<and>
    (seed_from_nonce_and_sc_epoch U nonce epoch = seed_from_nonce_and_sc_epoch U nonce epoch' \<longleftrightarrow> epoch = epoch')"
proof -
  have len: "length (epoch_nonce_as_array nonce) = 32" by (simp add: epoch_nonce_as_array_def)
  let ?n = "from_big_endian U (epoch_nonce_as_array nonce)"
  have n: "unat ?n = be_value (epoch_nonce_as_array nonce)" using assms len by (simp add: u256_conv_ok_def)
  have w: "unat (ucast e :: 256 word) = unat e" for e :: u64 by (simp add: unat_ucast_widen)
  have val: "be_value (seed_from_nonce_and_sc_epoch U nonce e) = unat (?n + ucast e)" for e
    using assms by (simp add: seed_from_nonce_and_sc_epoch_def u256_conv_ok_def)
  have "epoch = epoch'"
    if "seed_from_nonce_and_sc_epoch U nonce epoch = seed_from_nonce_and_sc_epoch U nonce epoch'"
  proof -
    from that have "unat (?n + ucast epoch) = unat (?n + ucast epoch')" by (simp add: val [symmetric])
    then have "(ucast epoch :: 256 word) = ucast epoch'" by (simp add: word_unat_eq_iff [symmetric])
    then have "unat epoch = unat epoch'" by (metis w)
    then show ?thesis by (simp add: word_unat_eq_iff)
  qed
  moreover have "length (seed_from_nonce_and_sc_epoch U nonce epoch) = 32"
    using assms by (simp add: seed_from_nonce_and_sc_epoch_def u256_conv_ok_def)
  moreover have "unat (?n + ucast epoch) = (be_value (epoch_nonce_as_array nonce) + unat epoch) mod 2 ^ 256"
    by (simp add: unat_word_ariths n w)
  ultimately show ?thesis by (auto simp: val)
qed

lemma length_be_bytes: "n < 256 ^ k \<Longrightarrow> length (be_bytes n) \<le> k"
proof (induction k arbitrary: n)
  case (Suc k)
  then have "n div 256 < 256 ^ k" by (simp add: less_mult_imp_div_less)
  then show ?case using Suc.IH by (subst be_bytes.simps) simp
qed (simp add: be_bytes.simps)

lemma be_value_zeros: "be_value (replicate k 0 @ bs) = be_value bs"
  by (induction k) (simp_all add: be_value_def)

lemma demo_u256_ok: "u256_conv_ok demo_u256"
proof -
  have "length (be_bytes (unat w)) \<le> 32" for w :: "256 word"
    using length_be_bytes [of "unat w" 32] unsigned_less [of w] by simp
  moreover have lt: "be_value bs < 256 ^ length bs" for bs
  proof (induction bs rule: rev_induct)
    case (snoc b bs)
    have "unat b < 256" using unsigned_less [of b] by simp
    then have "be_value bs * 256 + unat b < Suc (be_value bs) * 256" by simp
    also have "\<dots> \<le> 256 ^ length bs * 256" using snoc by (intro mult_le_mono) simp_all
    finally show ?case by (simp add: be_value_def mult.commute)
  qed (simp add: be_value_def)
  have "be_value bs < 2 ^ 256" if "length bs = 32" for bs
    using lt [of bs] that by simp
  ultimately show ?thesis
    by (simp add: u256_conv_ok_def demo_u256_def unat_of_nat_fits be_value_zeros be_value_be_bytes)
qed

theorem seed_from_nonce_and_sc_epoch_spec_witness:
  "seed_from_nonce_and_sc_epoch demo_u256 [1, 2, 3] 7 \<noteq> seed_from_nonce_and_sc_epoch demo_u256 [1, 2, 3] 8"
  using seed_from_nonce_and_sc_epoch_spec [OF demo_u256_ok, of "[1, 2, 3]" 7 8] by simp

lemma demo_registration_valid: "registration_valid demo_env (replicate 32 9) g (demo_registration b k)"
  by (auto simp: registration_valid_def demo_env_def demo_registration_def maybe_from_def demo_utxo_def
      eval_nat_numeral)

lemma demo_valid_of:
  "valid_of demo_env \<lparr>cr_stake_pool_public_key = replicate 32 9,
     cr_registrations = [demo_registration 5 2, demo_registration 3 8], cr_stake_delegation = Some 100\<rparr> g =
   [demo_registration 5 2, demo_registration 3 8]"
  by (simp add: valid_of_def demo_registration_valid)

theorem select_candidates_respects_d_parameter_witness:
  "\<exists>reg perm. (\<exists>committee. select_candidates bytes_rng demo_u256 demo_env (demo_utxo 0) demo_inputs 7 =
       Ret (Some committee) \<and> mset committee = mset (reg @ perm)) \<and> length reg = 3 \<and> length perm = 2"
proof -
  have "filter_trustless_candidates_registrations demo_env (asi_registered_candidates demo_inputs) (demo_utxo 0) \<noteq> []"
    by (simp add: demo_inputs_def filter_trustless_candidates_registrations_def map_filter_simps
        select_latest_valid_candidate_eq demo_valid_of)
  moreover have "filter_invalid_permissioned_candidates demo_env (asi_permissioned_candidates demo_inputs) \<noteq> []"
    by (simp add: demo_inputs_def filter_invalid_permissioned_candidates_def map_filter_simps
        validate_permissioned_candidate_data_def ensure_def maybe_from_def demo_env_def)
  ultimately show ?thesis
    using select_candidates_respects_d_parameter [OF bytes_rng_ok, of demo_inputs demo_env "demo_utxo 0" demo_u256 7]
    by (auto simp: demo_inputs_def)
qed

end
