(* ===== verification/Inherents.thy ===== *)
theory Inherents
  imports PC_Prelude
begin

text \<open>
  The interface every pallet with an inherent implements, \<open>frame_support::inherent::ProvideInherent\<close>,
  and what block authors and verifiers rely on.

  A block author collects the inherent data and includes the call \<open>create_inherent\<close> returns. A
  verifier collects its own inherent data, runs \<open>check_inherent\<close> on every call of the block that
  \<open>is_inherent\<close> recognises, and rejects the block when \<open>is_inherent_required\<close> reports an error and the
  block holds no such call. \<open>verify_inherents\<close> is that documented rule for one pallet: \<open>s\<close> is the
  state after block initialisation and \<open>d\<close> the pallet's part of the inherent data, the outcome of
  \<open>InherentData::get_data\<close> (a codec error, missing, or the value).
\<close>

datatype codec_error = CodecError

type_synonym 'd inherent_data = "codec_error + 'd option"

definition verify_inherents ::
  "('s \<Rightarrow> 'c \<Rightarrow> 'd \<Rightarrow> ('e + unit) exec) \<Rightarrow> ('c \<Rightarrow> bool) \<Rightarrow> ('s \<Rightarrow> 'd \<Rightarrow> ('e + 'e option) exec) \<Rightarrow>
   's \<Rightarrow> 'd \<Rightarrow> 'c list \<Rightarrow> bool" where
  "verify_inherents check is_inh required s d calls \<longleftrightarrow>
     list_all (\<lambda>c. is_inh c \<longrightarrow> check s c d = Ret (Inr ())) calls \<and>
     (case required s d of
        Ret (Inr None) \<Rightarrow> True
      | Ret (Inr (Some e)) \<Rightarrow> list_ex is_inh calls
      | _ \<Rightarrow> False)"

text \<open>The inherent call an honest author puts into the block.\<close>

definition honest_calls :: "('s \<Rightarrow> 'd \<Rightarrow> 'c option exec) \<Rightarrow> 's \<Rightarrow> 'd \<Rightarrow> 'c list exec" where
  "honest_calls create s d = exec_map (\<lambda>r. case r of None \<Rightarrow> [] | Some c \<Rightarrow> [c]) (create s d)"

locale provide_inherent =
  fixes create_inherent :: "'s \<Rightarrow> 'd \<Rightarrow> 'c option exec"
    and check_inherent :: "'s \<Rightarrow> 'c \<Rightarrow> 'd \<Rightarrow> ('e + unit) exec"
    and is_inherent :: "'c \<Rightarrow> bool"
    and is_inherent_required :: "'s \<Rightarrow> 'd \<Rightarrow> ('e + 'e option) exec"
    and data_ok :: "'s \<Rightarrow> 'd \<Rightarrow> bool"
  assumes created_is_inherent: "create_inherent s d = Ret (Some c) \<Longrightarrow> is_inherent c"
    and created_checks: "data_ok s d \<Longrightarrow> create_inherent s d = Ret (Some c) \<Longrightarrow> check_inherent s c d = Ret (Inr ())"
    and not_created_not_required:
      "data_ok s d \<Longrightarrow> create_inherent s d = Ret None \<Longrightarrow> is_inherent_required s d = Ret (Inr None)"
    and created_required:
      "data_ok s d \<Longrightarrow> create_inherent s d = Ret (Some c) \<Longrightarrow> \<exists>r. is_inherent_required s d = Ret (Inr r)"
begin

text \<open>A block built by an honest author is accepted by every verifier that sees the same data.\<close>

lemma honest_block_accepted:
  assumes "data_ok s d" and "honest_calls create_inherent s d = Ret calls"
  shows "verify_inherents check_inherent is_inherent is_inherent_required s d calls"
proof (cases "create_inherent s d")
  case Panic
  then show ?thesis using assms(2) by (simp add: honest_calls_def)
next
  case (Ret r)
  show ?thesis
  proof (cases r)
    case None
    then show ?thesis
      using assms Ret not_created_not_required by (auto simp: honest_calls_def verify_inherents_def)
  next
    case (Some c)
    then obtain q where "is_inherent_required s d = Ret (Inr q)"
      using assms(1) Ret created_required by blast
    then show ?thesis
      using assms Ret Some created_is_inherent created_checks
      by (auto simp: honest_calls_def verify_inherents_def split: option.split)
  qed
qed

end

text \<open>A stricter contract: the verifier accepts no call but the one it would have created itself, and
  requires it whenever it would have created one.\<close>

locale strict_inherent = provide_inherent +
  assumes checked_is_created:
      "data_ok s d \<Longrightarrow> is_inherent c \<Longrightarrow> check_inherent s c d = Ret (Inr ()) \<Longrightarrow> create_inherent s d = Ret (Some c)"
    and created_is_required:
      "data_ok s d \<Longrightarrow> create_inherent s d = Ret (Some c) \<Longrightarrow> \<exists>e. is_inherent_required s d = Ret (Inr (Some e))"
begin

text \<open>In an accepted block the pallet's inherent calls are copies of the call the verifier would have
  created, at least one of them if there is one to make.\<close>

lemma accepted_block_honest:
  assumes "data_ok s d" and "verify_inherents check_inherent is_inherent is_inherent_required s d calls"
    and "create_inherent s d = Ret r"
  shows "set (filter is_inherent calls) = set_option r"
proof (cases r)
  case None
  then have "\<not> is_inherent c" if "c \<in> set calls" for c
    using assms that checked_is_created [of s d c] by (auto simp: verify_inherents_def list_all_iff)
  then show ?thesis using None by auto
next
  case (Some c)
  then obtain e where "is_inherent_required s d = Ret (Inr (Some e))"
    using assms(1,3) created_is_required by blast
  then have ex: "list_ex is_inherent calls" using assms(2) by (simp add: verify_inherents_def)
  have "c' = c" if "c' \<in> set calls" "is_inherent c'" for c'
    using assms Some that checked_is_created [of s d c']
    by (auto simp: verify_inherents_def list_all_iff)
  then show ?thesis using Some ex by (auto simp: list_ex_iff)
qed

end

end
