(* ===== verification/Committee_Pallet.thy ===== *)
theory Committee_Pallet
  imports Candidate_Filter Inherents
begin

text \<open>
  The session committee management pallet, \<open>toolkit/committee-selection/pallet/src/lib.rs\<close>: its
  storage, genesis, hook, inherent, calls and queries.

  A storage value is a field of the record \<open>smc_state\<close>; a dispatchable returns \<open>Inl\<close> with its error
  and leaves the storage as it was, or \<open>Inr\<close> with the new storage. The runtime configuration is the
  record \<open>smc_config\<close>: \<open>MaxValidators\<close>, \<open>select_authorities\<close>, the account of an authority, the
  hash of the selection inputs (\<open>blake2_256\<close> of their SCALE encoding) and the origin checks. The
  partner chain epoch \<open>T::current_epoch_number()\<close> is an argument. \<open>frame_system\<close>'s provider counter
  acts on a world \<open>'w\<close> outside of the pallet.
\<close>

section \<open>Storage\<close>

record ('id, 'keys) committee_info =
  ci_epoch :: sc_epoch_number
  ci_committee :: "('id, 'keys) committee_member list"

datatype committee_rotation_stages = AwaitEpochChange | NewSessionDueEpochChange | AdditionalSession

record main_chain_scripts =
  committee_candidate_address :: bytes
  d_parameter_policy_id :: bytes
  permissioned_candidates_policy_id :: bytes

record ('acc, 'id, 'keys) smc_state =
  provided_accounts :: "'acc set"
  current_committee :: "('id, 'keys) committee_info"
  next_committee_st :: "('id, 'keys) committee_info option"
  rotation_stage :: committee_rotation_stages
  main_chain_scripts_configuration :: main_chain_scripts
  authority_keys_version :: u32

record ('acc, 'id, 'keys, 'origin) smc_config =
  max_validators :: nat
  cfg_select_authorities :: "authority_selection_inputs \<Rightarrow> sc_epoch_number \<Rightarrow> ('id, 'keys) committee_member list option"
  into_account :: "'id \<Rightarrow> 'acc"
  selection_inputs_hash_of :: "authority_selection_inputs \<Rightarrow> bytes"
  is_none_origin :: "'origin \<Rightarrow> bool"
  ensure_scripts_origin :: "'origin \<Rightarrow> bool"

datatype smc_error = BadOrigin | InvalidEpoch | NextCommitteeAlreadySet

datatype inherent_error =
    InvalidValidators
  | CommitteeNeedsToBeStoredOneEpochInAdvance
  | InvalidValidatorsMatchingHash bytes
  | InvalidValidatorsHashMismatch bytes bytes

datatype ('id, 'keys) smc_call =
    CallSet "('id, 'keys) committee_member list" sc_epoch_number bytes
  | CallSetMainChainScripts bytes bytes bytes

definition as_pair :: "('id, 'keys) committee_info \<Rightarrow> sc_epoch_number \<times> ('id, 'keys) committee_member list" where
  "as_pair ci = (ci_epoch ci, ci_committee ci)"

definition default_committee_info :: "('id, 'keys) committee_info" where
  "default_committee_info = \<lparr>ci_epoch = 0, ci_committee = []\<rparr>"

definition default_scripts :: main_chain_scripts where
  "default_scripts = \<lparr>committee_candidate_address = [], d_parameter_policy_id = replicate 28 0,
     permissioned_candidates_policy_id = replicate 28 0\<rparr>"

definition empty_smc_state :: "('acc, 'id, 'keys) smc_state" where
  "empty_smc_state = \<lparr>provided_accounts = {}, current_committee = default_committee_info,
     next_committee_st = None, rotation_stage = AwaitEpochChange,
     main_chain_scripts_configuration = default_scripts, authority_keys_version = 0\<rparr>"

section \<open>Genesis and hook\<close>

text \<open>A bounded B-tree set accepts at most \<open>MaxValidators\<close> accounts; \<open>unwrap\<close> panics beyond. The loop
  over the accounts follows the order of the set.\<close>

definition set_provided_accounts ::
  "('acc, 'id, 'keys, 'o) smc_config \<Rightarrow> 'acc set \<Rightarrow> ('acc, 'id, 'keys) smc_state \<Rightarrow> ('acc, 'id, 'keys) smc_state exec" where
  "set_provided_accounts cfg accounts st =
     (if card accounts \<le> max_validators cfg then Ret (st\<lparr>provided_accounts := accounts\<rparr>) else Panic)"

definition genesis_build ::
  "('acc::linorder, 'id, 'keys, 'o) smc_config \<Rightarrow> ('acc \<Rightarrow> 'w \<Rightarrow> 'w) \<Rightarrow> ('id, 'keys) committee_member list \<Rightarrow>
   main_chain_scripts \<Rightarrow> ('acc, 'id, 'keys) smc_state \<Rightarrow> 'w \<Rightarrow> (('acc, 'id, 'keys) smc_state \<times> 'w) exec" where
  "genesis_build cfg inc_providers initial scripts st w =
     (let initial_authorities = take (max_validators cfg) initial;
          accounts = set (map (\<lambda>m. into_account cfg (authority_id m)) initial_authorities);
          w' = fold inc_providers (sorted_list_of_set accounts) w
      in exec_map (\<lambda>st.
             (st\<lparr>current_committee := \<lparr>ci_epoch = 0, ci_committee = initial_authorities\<rparr>,
                 main_chain_scripts_configuration := scripts\<rparr>, w'))
           (set_provided_accounts cfg accounts st))"

definition on_initialize ::
  "nat \<Rightarrow> sc_epoch_number \<Rightarrow> ('acc, 'id, 'keys) smc_state \<Rightarrow> ('acc, 'id, 'keys) smc_state" where
  "on_initialize block_nr current_epoch_number st =
     (if block_nr = 1
      then st\<lparr>current_committee := (current_committee st)\<lparr>ci_epoch := current_epoch_number\<rparr>\<rparr>
      else st)"

section \<open>The inherent\<close>

definition inherent_data_to_authority_selection_inputs ::
  "('acc, 'id, 'keys, 'o) smc_config \<Rightarrow> authority_selection_inputs inherent_data \<Rightarrow>
   (authority_selection_inputs \<times> bytes) exec" where
  "inherent_data_to_authority_selection_inputs cfg data =
     (case data of
        Inl _ \<Rightarrow> Panic
      | Inr None \<Rightarrow> Panic
      | Inr (Some decoded_data) \<Rightarrow> Ret (decoded_data, selection_inputs_hash_of cfg decoded_data))"

definition smc_create_inherent ::
  "('acc, 'id, 'keys, 'o) smc_config \<Rightarrow> ('acc, 'id, 'keys) smc_state \<Rightarrow>
   authority_selection_inputs inherent_data \<Rightarrow> ('id, 'keys) smc_call option exec" where
  "smc_create_inherent cfg st data =
     (if next_committee_st st \<noteq> None then Ret None
      else let for_epoch_number = ci_epoch (current_committee st) + 1
        in exec_map (\<lambda>(inputs, selection_inputs_hash).
             case cfg_select_authorities cfg inputs for_epoch_number of
               Some validators \<Rightarrow> Some (CallSet validators for_epoch_number selection_inputs_hash)
             | None \<Rightarrow>
                 Some (CallSet (ci_committee (current_committee st)) for_epoch_number selection_inputs_hash))
           (inherent_data_to_authority_selection_inputs cfg data))"

definition smc_check_inherent ::
  "('acc, 'id, 'keys, 'o) smc_config \<Rightarrow> ('acc, 'id, 'keys) smc_state \<Rightarrow> ('id, 'keys) smc_call \<Rightarrow>
   authority_selection_inputs inherent_data \<Rightarrow> (inherent_error + unit) exec" where
  "smc_check_inherent cfg st call data =
     (case call of
        CallSet validators_param for_epoch_number_param call_selection_inputs_hash \<Rightarrow>
          exec_map (\<lambda>(inputs, computed_selection_inputs_hash).
            let validators =
              (case cfg_select_authorities cfg inputs for_epoch_number_param of
                 Some validators \<Rightarrow> validators
               | None \<Rightarrow>
                   ci_committee (case next_committee_st st of Some ci \<Rightarrow> ci | None \<Rightarrow> current_committee st))
            in if validators_param \<noteq> validators then
                 if call_selection_inputs_hash = computed_selection_inputs_hash
                 then Inl (InvalidValidatorsMatchingHash computed_selection_inputs_hash)
                 else Inl (InvalidValidatorsHashMismatch computed_selection_inputs_hash
                             call_selection_inputs_hash)
               else Inr ())
            (inherent_data_to_authority_selection_inputs cfg data)
      | _ \<Rightarrow> Ret (Inr ()))"

fun smc_is_inherent :: "('id, 'keys) smc_call \<Rightarrow> bool" where
  "smc_is_inherent (CallSet v e h) = True"
| "smc_is_inherent _ = False"

definition smc_is_inherent_required ::
  "('acc, 'id, 'keys) smc_state \<Rightarrow> authority_selection_inputs inherent_data \<Rightarrow>
   (inherent_error + inherent_error option) exec" where
  "smc_is_inherent_required st data =
     Ret (Inr (if next_committee_st st = None then Some CommitteeNeedsToBeStoredOneEpochInAdvance else None))"

section \<open>Calls\<close>

definition set_call ::
  "('acc, 'id, 'keys, 'o) smc_config \<Rightarrow> 'o \<Rightarrow> ('id, 'keys) committee_member list \<Rightarrow> sc_epoch_number \<Rightarrow> bytes \<Rightarrow>
   ('acc, 'id, 'keys) smc_state \<Rightarrow> smc_error + ('acc, 'id, 'keys) smc_state" where
  "set_call cfg origin validators for_epoch_number selection_inputs_hash st =
     try_bind (ensure (is_none_origin cfg origin) BadOrigin) (\<lambda>_.
     let expected_epoch_number = ci_epoch (current_committee st) + 1 in
     try_bind (ensure (for_epoch_number = expected_epoch_number) InvalidEpoch) (\<lambda>_.
     try_bind (ensure (next_committee_st st = None) NextCommitteeAlreadySet) (\<lambda>_.
       Inr (st\<lparr>next_committee_st := Some \<lparr>ci_epoch = for_epoch_number, ci_committee = validators\<rparr>\<rparr>))))"

definition set_main_chain_scripts ::
  "('acc, 'id, 'keys, 'o) smc_config \<Rightarrow> 'o \<Rightarrow> bytes \<Rightarrow> bytes \<Rightarrow> bytes \<Rightarrow>
   ('acc, 'id, 'keys) smc_state \<Rightarrow> smc_error + ('acc, 'id, 'keys) smc_state" where
  "set_main_chain_scripts cfg origin address d_parameter_policy permissioned_policy st =
     try_bind (ensure (ensure_scripts_origin cfg origin) BadOrigin) (\<lambda>_.
       Inr (st\<lparr>main_chain_scripts_configuration :=
         \<lparr>committee_candidate_address = address, d_parameter_policy_id = d_parameter_policy,
          permissioned_candidates_policy_id = permissioned_policy\<rparr>\<rparr>))"

fun smc_dispatch ::
  "('acc, 'id, 'keys, 'o) smc_config \<Rightarrow> 'o \<Rightarrow> ('id, 'keys) smc_call \<Rightarrow>
   ('acc, 'id, 'keys) smc_state \<Rightarrow> smc_error + ('acc, 'id, 'keys) smc_state" where
  "smc_dispatch cfg origin (CallSet v e h) st = set_call cfg origin v e h st"
| "smc_dispatch cfg origin (CallSetMainChainScripts a d p) st = set_main_chain_scripts cfg origin a d p st"

section \<open>Queries and rotation\<close>

definition get_next_unset_epoch_number :: "('acc, 'id, 'keys) smc_state \<Rightarrow> sc_epoch_number" where
  "get_next_unset_epoch_number st =
     (case next_committee_st st of
        Some ci \<Rightarrow> ci_epoch ci + 1
      | None \<Rightarrow> ci_epoch (current_committee st) + 1)"

definition get_current_authority_at :: "nat \<Rightarrow> ('acc, 'id, 'keys) smc_state \<Rightarrow> ('id, 'keys) committee_member option" where
  "get_current_authority_at index st =
     (let committee = ci_committee (current_committee st) in
      if committee = [] then None
      else if index < length committee then Some (committee ! index) else None)"

text \<open>\<open>find_author\<close> is the consensus engine's lookup of the author index in the pre-runtime digests.\<close>

definition find_current_authority ::
  "('digest \<Rightarrow> nat option) \<Rightarrow> 'digest \<Rightarrow> ('acc, 'id, 'keys) smc_state \<Rightarrow> ('id, 'keys) committee_member option" where
  "find_current_authority find_author digests st =
     Option.bind (find_author digests) (\<lambda>author_index. get_current_authority_at author_index st)"

definition next_committee ::
  "('acc, 'id, 'keys, 'o) smc_config \<Rightarrow> ('acc, 'id, 'keys) smc_state \<Rightarrow> 'id list option" where
  "next_committee cfg st =
     map_option (\<lambda>ci. take (max_validators cfg) (map authority_id (ci_committee ci))) (next_committee_st st)"

definition calculate_committee ::
  "('acc, 'id, 'keys, 'o) smc_config \<Rightarrow> authority_selection_inputs \<Rightarrow> sc_epoch_number \<Rightarrow>
   ('id, 'keys) committee_member list option" where
  "calculate_committee cfg inputs sidechain_epoch = cfg_select_authorities cfg inputs sidechain_epoch"

definition rotate_committee_to_next_epoch ::
  "('acc, 'id, 'keys) smc_state \<Rightarrow>
   ('id, 'keys) committee_member list option \<times> ('acc, 'id, 'keys) smc_state" where
  "rotate_committee_to_next_epoch st =
     (case next_committee_st st of
        None \<Rightarrow> (None, st)
      | Some ci \<Rightarrow>
          (Some (ci_committee ci), st\<lparr>next_committee_st := None, current_committee := ci\<rparr>))"

section \<open>The inherent contract\<close>

definition data_present :: "'s \<Rightarrow> 'd inherent_data \<Rightarrow> bool" where
  "data_present st data \<longleftrightarrow> (\<exists>inputs. data = Inr (Some inputs))"

lemma smc_create_inherent_iff:
  "smc_create_inherent cfg st (Inr (Some inputs)) =
     Ret (if next_committee_st st = None
          then Some (CallSet
            (case cfg_select_authorities cfg inputs (ci_epoch (current_committee st) + 1) of
               Some validators \<Rightarrow> validators | None \<Rightarrow> ci_committee (current_committee st))
            (ci_epoch (current_committee st) + 1) (selection_inputs_hash_of cfg inputs))
          else None)"
  by (simp add: smc_create_inherent_def inherent_data_to_authority_selection_inputs_def split: option.split)

lemma smc_check_inherent_ok_iff:
  "smc_check_inherent cfg st (CallSet v e h) (Inr (Some inputs)) = Ret (Inr ()) \<longleftrightarrow>
     v = (case cfg_select_authorities cfg inputs e of
            Some validators \<Rightarrow> validators
          | None \<Rightarrow> ci_committee (case next_committee_st st of Some ci \<Rightarrow> ci | None \<Rightarrow> current_committee st))"
  by (auto simp: smc_check_inherent_def inherent_data_to_authority_selection_inputs_def Let_def
      split: if_splits)

interpretation smc: provide_inherent "smc_create_inherent cfg" "smc_check_inherent cfg" smc_is_inherent
  smc_is_inherent_required data_present for cfg :: "('acc, 'id, 'keys, 'o) smc_config"
proof
  fix st :: "('acc, 'id, 'keys) smc_state" and d c
  show "smc_is_inherent c" if "smc_create_inherent cfg st d = Ret (Some c)"
    using that
    by (cases "inherent_data_to_authority_selection_inputs cfg d")
      (auto simp: smc_create_inherent_def Let_def split: if_splits option.splits prod.splits)
  show "smc_check_inherent cfg st c d = Ret (Inr ())"
    if "data_present st d" "smc_create_inherent cfg st d = Ret (Some c)"
    using that
    by (auto simp: data_present_def smc_create_inherent_iff smc_check_inherent_ok_iff
        split: if_splits option.splits)
  show "smc_is_inherent_required st d = Ret (Inr None)"
    if "data_present st d" "smc_create_inherent cfg st d = Ret None"
    using that
    by (auto simp: data_present_def smc_create_inherent_iff smc_is_inherent_required_def split: if_splits)
  show "\<exists>r. smc_is_inherent_required st d = Ret (Inr r)"
    if "data_present st d" "smc_create_inherent cfg st d = Ret (Some c)"
    by (simp add: smc_is_inherent_required_def)
qed

lemma set_call_Inr:
  "set_call cfg origin v e h st = Inr st' \<longleftrightarrow>
     is_none_origin cfg origin \<and> e = ci_epoch (current_committee st) + 1 \<and> next_committee_st st = None \<and>
     st' = st\<lparr>next_committee_st := Some \<lparr>ci_epoch = e, ci_committee = v\<rparr>\<rparr>"
  by (auto simp: set_call_def Let_def)

section \<open>Properties\<close>

text \<open>A block with the inherent an honest author creates passes verification: whenever the selection
  inputs are present, the committee call is created exactly when no next committee is stored, and then the
  check accepts it; a block without it is accepted only when it is not required.\<close>

theorem committee_inherent_accepted:
  assumes "data = Inr (Some inputs)" and "honest_calls (smc_create_inherent cfg) st data = Ret calls"
  shows "verify_inherents (smc_check_inherent cfg) smc_is_inherent smc_is_inherent_required st data calls \<and>
    (calls = [] \<longleftrightarrow> next_committee_st st \<noteq> None)"
proof
  have "data_present st data" using assms(1) by (simp add: data_present_def)
  then show "verify_inherents (smc_check_inherent cfg) smc_is_inherent smc_is_inherent_required st data calls"
    using assms(2) by (rule smc.honest_block_accepted)
  show "calls = [] \<longleftrightarrow> next_committee_st st \<noteq> None"
    using assms by (auto simp: honest_calls_def smc_create_inherent_iff split: if_splits)
qed


definition demo_smc_config :: "(nat, nat, nat, bool) smc_config" where
  "demo_smc_config = \<lparr>max_validators = 3,
     cfg_select_authorities = (\<lambda>inputs e. if e = 0 then None else Some [MemberPermissioned (unat e) 5]),
     into_account = id, selection_inputs_hash_of = asi_epoch_nonce, is_none_origin = id,
     ensure_scripts_origin = Not\<rparr>"

theorem committee_inherent_accepted_witness:
  "verify_inherents (smc_check_inherent demo_smc_config) smc_is_inherent smc_is_inherent_required
     empty_smc_state (Inr (Some demo_inputs)) [CallSet [MemberPermissioned 1 5] 1 [1, 2, 3]]"
  using committee_inherent_accepted [of "Inr (Some demo_inputs)" demo_inputs demo_smc_config empty_smc_state
      "[CallSet [MemberPermissioned 1 5] 1 [1, 2, 3]]"]
  by (simp add: honest_calls_def smc_create_inherent_iff empty_smc_state_def demo_smc_config_def
      default_committee_info_def demo_inputs_def)


end
