(* ===== verification/Session_Support.thy ===== *)
theory Session_Support
  imports Committee_Pallet
begin

text \<open>
  The integration of the committee pallet with \<open>pallet_session\<close>,
  \<open>toolkit/committee-selection/pallet/src/pallet_session_support.rs\<close>: \<open>SessionManager\<close> and
  \<open>ShouldEndSession\<close>.

  The storage of \<open>frame_system\<close> and \<open>pallet_session\<close> is a world \<open>'w\<close>, and the operations the code calls
  on it are the record \<open>session_ops\<close>. \<open>session_ops_ok\<close> states their documented behaviour in terms of
  the provider and consumer references of an account and its registered session keys: a provider
  reference can be removed unless it is the last one and consumers remain, keys can be set for a
  provided account when no other account owns them, and registered keys hold one consumer reference.
\<close>

section \<open>The environment\<close>

record ('w, 'acc, 'skeys) session_ops =
  inc_providers :: "'acc \<Rightarrow> 'w \<Rightarrow> 'w"
  dec_providers :: "'acc \<Rightarrow> 'w \<Rightarrow> unit + 'w"
  session_load_keys :: "'w \<Rightarrow> 'acc \<Rightarrow> 'skeys option"
  session_set_keys :: "'acc \<Rightarrow> 'skeys \<Rightarrow> 'w \<Rightarrow> unit + 'w"
  session_purge_keys :: "'acc \<Rightarrow> 'w \<Rightarrow> unit + 'w"

definition session_ops_ok ::
  "('w, 'acc, 'skeys) session_ops \<Rightarrow> ('w \<Rightarrow> 'acc \<Rightarrow> nat) \<Rightarrow> ('w \<Rightarrow> 'acc \<Rightarrow> nat) \<Rightarrow> bool" where
  "session_ops_ok ops prov cons \<longleftrightarrow>
     (\<forall>a w. prov (inc_providers ops a w) = (prov w)(a := prov w a + 1) \<and>
        cons (inc_providers ops a w) = cons w \<and>
        session_load_keys ops (inc_providers ops a w) = session_load_keys ops w) \<and>
     (\<forall>a w. 1 < prov w a \<or> prov w a = 1 \<and> cons w a = 0 \<longrightarrow>
        (\<exists>w'. dec_providers ops a w = Inr w' \<and> prov w' = (prov w)(a := prov w a - 1) \<and> cons w' = cons w \<and>
           session_load_keys ops w' = session_load_keys ops w)) \<and>
     (\<forall>a k w w'. session_set_keys ops a k w = Inr w' \<longrightarrow>
        prov w' = prov w \<and> session_load_keys ops w' = (session_load_keys ops w)(a := Some k) \<and>
        cons w' = (cons w)(a := cons w a + (if session_load_keys ops w a = None then 1 else 0))) \<and>
     (\<forall>a k w. 0 < prov w a \<and> (\<forall>b. b \<noteq> a \<longrightarrow> session_load_keys ops w b \<noteq> Some k) \<longrightarrow>
        (\<exists>w'. session_set_keys ops a k w = Inr w')) \<and>
     (\<forall>a w. session_load_keys ops w a \<noteq> None \<longrightarrow>
        (\<exists>w'. session_purge_keys ops a w = Inr w' \<and> prov w' = prov w \<and>
           session_load_keys ops w' = (session_load_keys ops w)(a := None) \<and>
           cons w' = (cons w)(a := cons w a - 1))) \<and>
     (\<forall>a w. session_load_keys ops w a = None \<longrightarrow> (\<exists>e. session_purge_keys ops a w = Inl e))"

section \<open>The session manager\<close>

definition new_session_genesis ::
  "('acc, 'id, 'keys, 'o) smc_config \<Rightarrow> ('acc, 'id, 'keys) smc_state \<Rightarrow> 'acc list option" where
  "new_session_genesis cfg st =
     Some (map (\<lambda>m. into_account cfg (authority_id m)) (ci_committee (current_committee st)))"

definition load_keys :: "('w, 'acc, 'skeys) session_ops \<Rightarrow> 'acc \<Rightarrow> 'w \<Rightarrow> 'skeys option" where
  "load_keys ops account w = session_load_keys ops w account"

definition set_keys ::
  "('w, 'acc, 'skeys) session_ops \<Rightarrow> ('keys \<Rightarrow> 'skeys) \<Rightarrow> 'acc \<Rightarrow> 'keys \<Rightarrow> 'w \<Rightarrow> 'w" where
  "set_keys ops keys_from account keys w =
     (case session_set_keys ops account (keys_from keys) w of Inr w' \<Rightarrow> w' | Inl _ \<Rightarrow> w)"

definition purge_keys :: "('w, 'acc, 'skeys) session_ops \<Rightarrow> 'acc \<Rightarrow> 'w \<Rightarrow> 'w" where
  "purge_keys ops account w = (case session_purge_keys ops account w of Inr w' \<Rightarrow> w' | Inl _ \<Rightarrow> w)"

definition provide_account :: "('w, 'acc, 'skeys) session_ops \<Rightarrow> 'acc \<Rightarrow> 'w \<Rightarrow> 'w" where
  "provide_account ops account w = inc_providers ops account w"

definition unprovide_account :: "('w, 'acc, 'skeys) session_ops \<Rightarrow> 'acc \<Rightarrow> 'w \<Rightarrow> 'w exec" where
  "unprovide_account ops account w =
     (case dec_providers ops account w of Inr w' \<Rightarrow> Ret w' | Inl _ \<Rightarrow> Panic)"

definition join_member ::
  "('acc, 'id, 'keys, 'o) smc_config \<Rightarrow> ('w, 'acc, 'skeys) session_ops \<Rightarrow> ('keys \<Rightarrow> 'skeys) \<Rightarrow> 'acc set \<Rightarrow>
   ('id, 'keys) committee_member \<Rightarrow> 'acc set \<times> 'w \<Rightarrow> 'acc set \<times> 'w" where
  "join_member cfg ops keys_from old_committee_accounts member = (\<lambda>(new_committee_accounts, w).
     let account = into_account cfg (authority_id member) in
     if account \<notin> new_committee_accounts then
       let new_committee_accounts = insert account new_committee_accounts;
           w = (if account \<notin> old_committee_accounts then provide_account ops account w else w);
           new_keys = authority_keys member;
           current_keys = load_keys ops account w;
           w = (if current_keys \<noteq> Some (keys_from new_keys)
                then set_keys ops keys_from account new_keys (purge_keys ops account w) else w)
       in (new_committee_accounts, w)
     else (new_committee_accounts, w))"

definition retire_account :: "('w, 'acc, 'skeys) session_ops \<Rightarrow> 'acc \<Rightarrow> 'w \<Rightarrow> 'w exec" where
  "retire_account ops account w = unprovide_account ops account (purge_keys ops account w)"

definition new_session ::
  "('acc::linorder, 'id, 'keys, 'o) smc_config \<Rightarrow> ('w, 'acc, 'skeys) session_ops \<Rightarrow> ('keys \<Rightarrow> 'skeys) \<Rightarrow>
   ('acc, 'id, 'keys) smc_state \<Rightarrow> 'w \<Rightarrow> ('acc list option \<times> ('acc, 'id, 'keys) smc_state \<times> 'w) exec" where
  "new_session cfg ops keys_from st w =
     (if rotation_stage st = AdditionalSession then
        let st = st\<lparr>rotation_stage := AwaitEpochChange\<rparr>;
            committee = ci_committee (current_committee st)
        in Ret (Some (map (\<lambda>m. into_account cfg (authority_id m)) committee), st, w)
      else let (rotated, st) = rotate_committee_to_next_epoch st in
        exec_bind (expect rotated) (\<lambda>new_committee.
        let old_committee_accounts = provided_accounts st;
            st = st\<lparr>provided_accounts := {}\<rparr>;
            (new_committee_accounts, w) =
              fold (join_member cfg ops keys_from old_committee_accounts) new_committee ({}, w)
        in exec_bind (exec_fold (retire_account ops)
             (sorted_list_of_set (old_committee_accounts - new_committee_accounts)) w) (\<lambda>w.
           exec_map (\<lambda>st. (Some (map (\<lambda>m. into_account cfg (authority_id m)) new_committee), st, w))
             (set_provided_accounts cfg new_committee_accounts st))))"

definition should_end_session ::
  "('acc, 'id, 'keys, 'o) smc_config \<Rightarrow> sc_epoch_number \<Rightarrow> ('acc, 'id, 'keys) smc_state \<Rightarrow>
   bool \<times> ('acc, 'id, 'keys) smc_state" where
  "should_end_session cfg current_epoch_number st =
     (let current_committee_epoch = ci_epoch (current_committee st);
          next_committee_is_defined = (next_committee cfg st \<noteq> None)
      in if current_epoch_number > current_committee_epoch then
           if next_committee_is_defined
           then (True, st\<lparr>rotation_stage := NewSessionDueEpochChange\<rparr>)
           else (False, st)
         else if rotation_stage st = NewSessionDueEpochChange
         then (True, st\<lparr>rotation_stage := AdditionalSession\<rparr>)
         else (False, st))"

section \<open>Effect on the environment\<close>

text \<open>An account is clean when the only consumer reference it may have is the one of its session keys.\<close>

definition clean :: "('w, 'acc, 'skeys) session_ops \<Rightarrow> ('w \<Rightarrow> 'acc \<Rightarrow> nat) \<Rightarrow> 'w \<Rightarrow> 'acc \<Rightarrow> bool" where
  "clean ops cons w a \<longleftrightarrow> cons w a \<le> (if session_load_keys ops w a = None then 0 else 1)"

lemma provide_account_effect:
  assumes "session_ops_ok ops prov cons"
  shows "prov (provide_account ops a w) = (prov w)(a := prov w a + 1)"
    and "session_load_keys ops (provide_account ops a w) = session_load_keys ops w"
    and "clean ops cons (provide_account ops a w) b \<longleftrightarrow> clean ops cons w b"
  using assms by (auto simp: session_ops_ok_def provide_account_def clean_def)

lemma purge_keys_effect:
  assumes "session_ops_ok ops prov cons"
  shows "prov (purge_keys ops a w) = prov w"
    and "session_load_keys ops (purge_keys ops a w) = (session_load_keys ops w)(a := None)"
    and "clean ops cons w b \<Longrightarrow> clean ops cons (purge_keys ops a w) b"
    and "clean ops cons w a \<Longrightarrow> cons (purge_keys ops a w) a = 0"
proof -
  have "prov (purge_keys ops a w) = prov w \<and>
      session_load_keys ops (purge_keys ops a w) = (session_load_keys ops w)(a := None) \<and>
      (clean ops cons w b \<longrightarrow> clean ops cons (purge_keys ops a w) b) \<and>
      (clean ops cons w a \<longrightarrow> cons (purge_keys ops a w) a = 0)"
  proof (cases "session_load_keys ops w a")
    case None
    then obtain e where "session_purge_keys ops a w = Inl e" using assms by (auto simp: session_ops_ok_def)
    with None show ?thesis by (auto simp: purge_keys_def clean_def)
  next
    case (Some k)
    then have "session_load_keys ops w a \<noteq> None" by simp
    then obtain w' where "session_purge_keys ops a w = Inr w'" "prov w' = prov w"
      "session_load_keys ops w' = (session_load_keys ops w)(a := None)" "cons w' = (cons w)(a := cons w a - 1)"
      using assms unfolding session_ops_ok_def by blast
    with Some show ?thesis by (auto simp: purge_keys_def clean_def)
  qed
  then show "prov (purge_keys ops a w) = prov w"
    and "session_load_keys ops (purge_keys ops a w) = (session_load_keys ops w)(a := None)"
    and "clean ops cons w b \<Longrightarrow> clean ops cons (purge_keys ops a w) b"
    and "clean ops cons w a \<Longrightarrow> cons (purge_keys ops a w) a = 0" by blast+
qed

lemma set_keys_effect:
  assumes "session_ops_ok ops prov cons"
  shows "prov (set_keys ops kf a k w) = prov w"
    and "b \<noteq> a \<Longrightarrow> session_load_keys ops (set_keys ops kf a k w) b = session_load_keys ops w b"
    and "clean ops cons w b \<Longrightarrow> clean ops cons (set_keys ops kf a k w) b"
    and "0 < prov w a \<Longrightarrow> \<forall>b. b \<noteq> a \<longrightarrow> session_load_keys ops w b \<noteq> Some (kf k) \<Longrightarrow>
      session_load_keys ops (set_keys ops kf a k w) a = Some (kf k)"
proof -
  have "prov (set_keys ops kf a k w) = prov w \<and>
      (b \<noteq> a \<longrightarrow> session_load_keys ops (set_keys ops kf a k w) b = session_load_keys ops w b) \<and>
      (clean ops cons w b \<longrightarrow> clean ops cons (set_keys ops kf a k w) b)"
  proof (cases "session_set_keys ops a (kf k) w")
    case (Inr w')
    then have "prov w' = prov w" "session_load_keys ops w' = (session_load_keys ops w)(a := Some (kf k))"
      "cons w' = (cons w)(a := cons w a + (if session_load_keys ops w a = None then 1 else 0))"
      using assms by (auto simp: session_ops_ok_def)
    then show ?thesis using Inr by (auto simp: set_keys_def clean_def split: if_splits)
  qed (simp add: set_keys_def)
  then show "prov (set_keys ops kf a k w) = prov w"
    and "b \<noteq> a \<Longrightarrow> session_load_keys ops (set_keys ops kf a k w) b = session_load_keys ops w b"
    and "clean ops cons w b \<Longrightarrow> clean ops cons (set_keys ops kf a k w) b" by blast+
  assume "0 < prov w a" and "\<forall>b. b \<noteq> a \<longrightarrow> session_load_keys ops w b \<noteq> Some (kf k)"
  then obtain w' where w': "session_set_keys ops a (kf k) w = Inr w'"
    using assms unfolding session_ops_ok_def by blast
  then have "session_load_keys ops w' = (session_load_keys ops w)(a := Some (kf k))"
    using assms unfolding session_ops_ok_def by blast
  with w' show "session_load_keys ops (set_keys ops kf a k w) a = Some (kf k)" by (simp add: set_keys_def)
qed

lemmas session_effects = provide_account_effect purge_keys_effect set_keys_effect

lemma retire_account_effect:
  assumes "session_ops_ok ops prov cons" and "0 < prov w a" and "clean ops cons w a"
  obtains w' where "retire_account ops a w = Ret w'" and "prov w' = (prov w)(a := prov w a - 1)"
    and "session_load_keys ops w' = (session_load_keys ops w)(a := None)"
    and "\<forall>b. clean ops cons w b \<longrightarrow> clean ops cons w' b"
proof -
  let ?w = "purge_keys ops a w"
  have p: "prov ?w = prov w" and c: "cons ?w a = 0"
    using purge_keys_effect [OF assms(1)] assms(3) by blast+
  then have "1 < prov ?w a \<or> prov ?w a = 1 \<and> cons ?w a = 0" using assms(2) by auto
  then obtain w' where w': "dec_providers ops a ?w = Inr w'" "prov w' = (prov ?w)(a := prov ?w a - 1)"
    "cons w' = cons ?w" "session_load_keys ops w' = session_load_keys ops ?w"
    using assms(1) unfolding session_ops_ok_def by blast
  show thesis
  proof (rule that)
    show "retire_account ops a w = Ret w'" by (simp add: retire_account_def unprovide_account_def w'(1))
    show "prov w' = (prov w)(a := prov w a - 1)" by (simp add: w'(2) p)
    show "session_load_keys ops w' = (session_load_keys ops w)(a := None)"
      by (simp add: w'(4) purge_keys_effect(2) [OF assms(1)])
    show "\<forall>b. clean ops cons w b \<longrightarrow> clean ops cons w' b"
      using purge_keys_effect(3) [OF assms(1), of w _ a] by (simp add: clean_def w'(3,4))
  qed
qed

lemma retire_accounts_effect:
  assumes "session_ops_ok ops prov cons"
  shows "distinct as \<Longrightarrow> \<forall>a \<in> set as. 0 < prov w a \<and> clean ops cons w a \<Longrightarrow>
    \<exists>w'. exec_fold (retire_account ops) as w = Ret w' \<and>
      (\<forall>a. prov w' a = prov w a - (if a \<in> set as then 1 else 0)) \<and>
      (\<forall>a. session_load_keys ops w' a = (if a \<in> set as then None else session_load_keys ops w a)) \<and>
      (\<forall>b. clean ops cons w b \<longrightarrow> clean ops cons w' b)"
proof (induction as arbitrary: w)
  case (Cons a as)
  then have "0 < prov w a" "clean ops cons w a" by simp_all
  then obtain w1 where w1: "retire_account ops a w = Ret w1" "prov w1 = (prov w)(a := prov w a - 1)"
    "session_load_keys ops w1 = (session_load_keys ops w)(a := None)"
    "\<forall>b. clean ops cons w b \<longrightarrow> clean ops cons w1 b"
    by (rule retire_account_effect [OF assms])
  have d: "distinct as" using Cons.prems(1) by simp
  have "\<forall>b \<in> set as. 0 < prov w1 b \<and> clean ops cons w1 b" using Cons.prems w1(2,4) by auto
  from Cons.IH [OF d this] obtain w' where w': "exec_fold (retire_account ops) as w1 = Ret w'"
    "\<forall>a. prov w' a = prov w1 a - (if a \<in> set as then 1 else 0)"
    "\<forall>a. session_load_keys ops w' a = (if a \<in> set as then None else session_load_keys ops w1 a)"
    "\<forall>b. clean ops cons w1 b \<longrightarrow> clean ops cons w' b"
    by blast
  show ?case
    using Cons.prems(1) w1 w' by (intro exI [of _ w']) auto
qed simp

abbreviation account_of :: "('acc, 'id, 'keys, 'o) smc_config \<Rightarrow> ('id, 'keys) committee_member \<Rightarrow> 'acc" where
  "account_of cfg m \<equiv> into_account cfg (authority_id m)"

lemma join_member_in [simp]:
  "account_of cfg m \<in> A \<Longrightarrow> join_member cfg ops kf old m (A, w) = (A, w)"
  by (simp add: join_member_def)

lemma join_member_new:
  assumes ops: "session_ops_ok ops prov cons" and "account_of cfg m \<notin> A"
  obtains w1 where "join_member cfg ops kf old m (A, w) = (insert (account_of cfg m) A, w1)"
    and "\<forall>a. prov w1 a = prov w a + (if a = account_of cfg m \<and> a \<notin> old then 1 else 0)"
    and "\<forall>a. a \<noteq> account_of cfg m \<longrightarrow> session_load_keys ops w1 a = session_load_keys ops w a"
    and "\<forall>a. clean ops cons w a \<longrightarrow> clean ops cons w1 a"
    and "(account_of cfg m \<in> old \<longrightarrow> 0 < prov w (account_of cfg m)) \<longrightarrow>
      (\<forall>b. b \<noteq> account_of cfg m \<longrightarrow> session_load_keys ops w b \<noteq> Some (kf (authority_keys m))) \<longrightarrow>
      session_load_keys ops w1 (account_of cfg m) = Some (kf (authority_keys m))"
proof -
  let ?c = "account_of cfg m"
  define wp where "wp = (if ?c \<notin> old then provide_account ops ?c w else w)"
  define w1 where "w1 = (if load_keys ops ?c wp \<noteq> Some (kf (authority_keys m))
    then set_keys ops kf ?c (authority_keys m) (purge_keys ops ?c wp) else wp)"
  have wp: "\<forall>a. prov wp a = prov w a + (if a = ?c \<and> a \<notin> old then 1 else 0)"
    "session_load_keys ops wp = session_load_keys ops w" "\<forall>a. clean ops cons wp a \<longleftrightarrow> clean ops cons w a"
    using provide_account_effect [OF ops] by (auto simp: wp_def)
  show thesis
  proof (rule that)
    show "join_member cfg ops kf old m (A, w) = (insert ?c A, w1)"
      using assms(2) by (simp add: join_member_def wp_def w1_def Let_def)
    show "\<forall>a. prov w1 a = prov w a + (if a = ?c \<and> a \<notin> old then 1 else 0)"
      using wp(1) by (simp add: w1_def session_effects(4,8) [OF ops])
    show "\<forall>a. a \<noteq> ?c \<longrightarrow> session_load_keys ops w1 a = session_load_keys ops w a"
      using wp(2) by (simp add: w1_def session_effects(5,9) [OF ops])
    show "\<forall>a. clean ops cons w a \<longrightarrow> clean ops cons w1 a"
      using wp(3) by (simp add: w1_def session_effects(6,10) [OF ops])
    show "(?c \<in> old \<longrightarrow> 0 < prov w ?c) \<longrightarrow>
      (\<forall>b. b \<noteq> ?c \<longrightarrow> session_load_keys ops w b \<noteq> Some (kf (authority_keys m))) \<longrightarrow>
      session_load_keys ops w1 ?c = Some (kf (authority_keys m))"
    proof (intro impI)
      assume prov: "?c \<in> old \<longrightarrow> 0 < prov w ?c"
        and free: "\<forall>b. b \<noteq> ?c \<longrightarrow> session_load_keys ops w b \<noteq> Some (kf (authority_keys m))"
      have "0 < prov (purge_keys ops ?c wp) ?c" using prov wp(1) by (simp add: session_effects(4) [OF ops])
      moreover have "\<forall>b. b \<noteq> ?c \<longrightarrow>
          session_load_keys ops (purge_keys ops ?c wp) b \<noteq> Some (kf (authority_keys m))"
        using free wp(2) by (simp add: session_effects(5) [OF ops])
      ultimately show "session_load_keys ops w1 ?c = Some (kf (authority_keys m))"
        using set_keys_effect(4) [OF ops] by (auto simp: w1_def load_keys_def)
    qed
  qed
qed

definition first_keys ::
  "('acc, 'id, 'keys, 'o) smc_config \<Rightarrow> ('id, 'keys) committee_member list \<Rightarrow> 'acc \<Rightarrow> 'keys option" where
  "first_keys cfg ms a = map_of (map (\<lambda>m. (account_of cfg m, authority_keys m)) ms) a"

text \<open>No account holds session keys that the committee assigns to another account, and different accounts
  of the committee have different keys.\<close>

definition keys_free ::
  "('acc, 'id, 'keys, 'o) smc_config \<Rightarrow> ('w, 'acc, 'skeys) session_ops \<Rightarrow> ('keys \<Rightarrow> 'skeys) \<Rightarrow>
   ('id, 'keys) committee_member list \<Rightarrow> 'acc set \<Rightarrow> 'w \<Rightarrow> bool" where
  "keys_free cfg ops kf ms A w \<longleftrightarrow>
     (\<forall>a k b. a \<notin> A \<longrightarrow> first_keys cfg ms a = Some k \<longrightarrow> b \<noteq> a \<longrightarrow>
        session_load_keys ops w b \<noteq> Some (kf k) \<and>
        (b \<notin> A \<longrightarrow> (\<forall>k'. first_keys cfg ms b = Some k' \<longrightarrow> kf k \<noteq> kf k')))"

lemma keys_freeD:
  assumes "keys_free cfg ops kf ms A w" and "a \<notin> A" and "first_keys cfg ms a = Some k" and "b \<noteq> a"
  shows "session_load_keys ops w b \<noteq> Some (kf k)"
    and "b \<notin> A \<Longrightarrow> first_keys cfg ms b = Some k' \<Longrightarrow> kf k \<noteq> kf k'"
  using assms unfolding keys_free_def by blast+

lemma join_members_effect:
  assumes ops: "session_ops_ok ops prov cons"
  shows "\<exists>w'. fold (join_member cfg ops kf old) ms (A, w) = (A \<union> account_of cfg ` set ms, w') \<and>
    (\<forall>a. prov w' a = prov w a + (if a \<in> account_of cfg ` set ms - A - old then 1 else 0)) \<and>
    (\<forall>a. a \<notin> account_of cfg ` set ms - A \<longrightarrow> session_load_keys ops w' a = session_load_keys ops w a) \<and>
    (\<forall>a. clean ops cons w a \<longrightarrow> clean ops cons w' a) \<and>
    ((\<forall>a \<in> old - A. 0 < prov w a) \<longrightarrow> keys_free cfg ops kf ms A w \<longrightarrow>
      (\<forall>a k. a \<notin> A \<longrightarrow> first_keys cfg ms a = Some k \<longrightarrow> session_load_keys ops w' a = Some (kf k)))"
proof (induction ms arbitrary: A w)
  case Nil
  show ?case by (simp add: first_keys_def)
next
  case (Cons m ms)
  let ?c = "account_of cfg m"
  show ?case
  proof (cases "?c \<in> A")
    case True
    have fk: "first_keys cfg (m # ms) a = first_keys cfg ms a" if "a \<notin> A" for a
      using that True by (auto simp: first_keys_def)
    have kf: "keys_free cfg ops kf (m # ms) A w \<longleftrightarrow> keys_free cfg ops kf ms A w"
      unfolding keys_free_def using fk by metis
    have acc: "account_of cfg ` set (m # ms) - A = account_of cfg ` set ms - A"
      "A \<union> account_of cfg ` set (m # ms) = A \<union> account_of cfg ` set ms" using True by auto
    have fold: "fold (join_member cfg ops kf old) (m # ms) (A, w) = fold (join_member cfg ops kf old) ms (A, w)"
      using True by simp
    have first: "(\<forall>a k. a \<notin> A \<longrightarrow> first_keys cfg (m # ms) a = Some k \<longrightarrow> Q a k) \<longleftrightarrow>
        (\<forall>a k. a \<notin> A \<longrightarrow> first_keys cfg ms a = Some k \<longrightarrow> Q a k)" for Q
      using fk by metis
    show ?thesis unfolding fold acc kf first by (rule Cons.IH)
  next
    case False
    then obtain w1 where w1: "join_member cfg ops kf old m (A, w) = (insert ?c A, w1)"
      "\<forall>a. prov w1 a = prov w a + (if a = ?c \<and> a \<notin> old then 1 else 0)"
      "\<forall>a. a \<noteq> ?c \<longrightarrow> session_load_keys ops w1 a = session_load_keys ops w a"
      "\<forall>a. clean ops cons w a \<longrightarrow> clean ops cons w1 a"
      "(?c \<in> old \<longrightarrow> 0 < prov w ?c) \<longrightarrow>
        (\<forall>b. b \<noteq> ?c \<longrightarrow> session_load_keys ops w b \<noteq> Some (kf (authority_keys m))) \<longrightarrow>
        session_load_keys ops w1 ?c = Some (kf (authority_keys m))"
      by (rule join_member_new [OF ops])
    from Cons.IH [of "insert ?c A" w1] obtain w' where
      w': "fold (join_member cfg ops kf old) ms (insert ?c A, w1) = (insert ?c A \<union> account_of cfg ` set ms, w')"
      "\<forall>a. prov w' a = prov w1 a + (if a \<in> account_of cfg ` set ms - insert ?c A - old then 1 else 0)"
      "\<forall>a. a \<notin> account_of cfg ` set ms - insert ?c A \<longrightarrow> session_load_keys ops w' a = session_load_keys ops w1 a"
      "\<forall>a. clean ops cons w1 a \<longrightarrow> clean ops cons w' a"
      "(\<forall>a \<in> old - insert ?c A. 0 < prov w1 a) \<longrightarrow> keys_free cfg ops kf ms (insert ?c A) w1 \<longrightarrow>
        (\<forall>a k. a \<notin> insert ?c A \<longrightarrow> first_keys cfg ms a = Some k \<longrightarrow> session_load_keys ops w' a = Some (kf k))"
      by blast
    have fk: "first_keys cfg (m # ms) a = (if a = ?c then Some (authority_keys m) else first_keys cfg ms a)" for a
      by (simp add: first_keys_def)
    have keys: "session_load_keys ops w' a = Some (kf k)"
      if old: "\<forall>a \<in> old - A. 0 < prov w a" and free: "keys_free cfg ops kf (m # ms) A w"
        and a: "a \<notin> A" "first_keys cfg (m # ms) a = Some k" for a k
    proof -
      have fc: "first_keys cfg (m # ms) ?c = Some (authority_keys m)" by (simp add: fk)
      have c: "session_load_keys ops w1 ?c = Some (kf (authority_keys m))"
        using w1(5) old False keys_freeD(1) [OF free False fc] by blast
      have "keys_free cfg ops kf ms (insert ?c A) w1"
        unfolding keys_free_def
      proof (intro allI impI)
        fix a k b assume ab: "a \<notin> insert ?c A" "first_keys cfg ms a = Some k" "b \<noteq> a"
        then have ak: "a \<notin> A" "a \<noteq> ?c" "first_keys cfg (m # ms) a = Some k" by (simp_all add: fk)
        have "kf (authority_keys m) \<noteq> kf k" by (rule keys_freeD(2) [OF free False fc ak(2) ak(1) ak(3)])
        moreover have "session_load_keys ops w b \<noteq> Some (kf k)" by (rule keys_freeD(1) [OF free ak(1,3) ab(3)])
        ultimately have "session_load_keys ops w1 b \<noteq> Some (kf k)"
          using c w1(3) by (cases "b = ?c") simp_all
        moreover have "kf k \<noteq> kf k'" if "b \<notin> insert ?c A" "first_keys cfg ms b = Some k'" for k'
          using that by (intro keys_freeD(2) [OF free ak(1,3) ab(3)]) (simp_all add: fk)
        ultimately show "session_load_keys ops w1 b \<noteq> Some (kf k) \<and>
            (b \<notin> insert ?c A \<longrightarrow> (\<forall>k'. first_keys cfg ms b = Some k' \<longrightarrow> kf k \<noteq> kf k'))"
          by blast
      qed
      then have rest: "\<forall>a k. a \<notin> insert ?c A \<longrightarrow> first_keys cfg ms a = Some k \<longrightarrow>
          session_load_keys ops w' a = Some (kf k)"
        using w'(5) old w1(2) by auto
      show ?thesis
      proof (cases "a = ?c")
        case True
        then show ?thesis using w'(3) c a(2) by (simp add: fk)
      next
        case False
        then show ?thesis using rest a by (simp add: fk)
      qed
    qed
    have "\<forall>a. prov w' a = prov w a + (if a \<in> account_of cfg ` set (m # ms) - A - old then 1 else 0)"
    proof
      fix a
      show "prov w' a = prov w a + (if a \<in> account_of cfg ` set (m # ms) - A - old then 1 else 0)"
        unfolding w'(2) [rule_format, of a] w1(2) [rule_format, of a] using False by (cases "a = ?c") simp_all
    qed
    moreover have "\<forall>a. a \<notin> account_of cfg ` set (m # ms) - A \<longrightarrow> session_load_keys ops w' a = session_load_keys ops w a"
    proof (intro allI impI)
      fix a assume a: "a \<notin> account_of cfg ` set (m # ms) - A"
      then have "a \<noteq> ?c" using False by auto
      with a show "session_load_keys ops w' a = session_load_keys ops w a"
        using w1(3) [rule_format, of a] w'(3) [rule_format, of a] by simp
    qed
    moreover have "fold (join_member cfg ops kf old) (m # ms) (A, w) = (A \<union> account_of cfg ` set (m # ms), w')"
      using w1(1) w'(1) by simp
    moreover have "\<forall>a. clean ops cons w a \<longrightarrow> clean ops cons w' a" using w1(4) w'(4) by blast
    ultimately show ?thesis using keys by blast
  qed
qed

section \<open>Rotation\<close>

text \<open>The references of the environment the pallet relies on: every account it has provided has a provider
  reference, and no account has a consumer reference but the one of its session keys.\<close>

definition world_ok ::
  "('w, 'acc, 'skeys) session_ops \<Rightarrow> ('w \<Rightarrow> 'acc \<Rightarrow> nat) \<Rightarrow> ('w \<Rightarrow> 'acc \<Rightarrow> nat) \<Rightarrow> 'acc set \<Rightarrow> 'w \<Rightarrow> bool" where
  "world_ok ops prov cons accounts w \<longleftrightarrow> (\<forall>a \<in> accounts. 0 < prov w a) \<and> (\<forall>a. clean ops cons w a)"

lemma new_session_rotation:
  assumes ops: "session_ops_ok ops prov cons"
    and st: "rotation_stage st \<noteq> AdditionalSession" "next_committee_st st = Some ci"
      "length (ci_committee ci) \<le> max_validators cfg" "finite (provided_accounts st)"
    and world: "world_ok ops prov cons (provided_accounts st) w"
  obtains w' where
    "new_session cfg ops kf st w = Ret (Some (map (account_of cfg) (ci_committee ci)),
       st\<lparr>next_committee_st := None, current_committee := ci,
          provided_accounts := account_of cfg ` set (ci_committee ci)\<rparr>, w')"
    and "\<forall>a. prov w' a + (if a \<in> provided_accounts st - account_of cfg ` set (ci_committee ci) then 1 else 0) =
      prov w a + (if a \<in> account_of cfg ` set (ci_committee ci) - provided_accounts st then 1 else 0)"
    and "\<forall>a \<in> provided_accounts st - account_of cfg ` set (ci_committee ci). session_load_keys ops w' a = None"
    and "keys_free cfg ops kf (ci_committee ci) {} w \<longrightarrow>
      (\<forall>a k. first_keys cfg (ci_committee ci) a = Some k \<longrightarrow> session_load_keys ops w' a = Some (kf k))"
    and "\<forall>a. clean ops cons w a \<longrightarrow> clean ops cons w' a"
proof -
  let ?ms = "ci_committee ci" and ?old = "provided_accounts st"
  let ?new = "account_of cfg ` set ?ms"
  obtain w1 where w1: "fold (join_member cfg ops kf ?old) ?ms ({}, w) = (?new, w1)"
    "\<forall>a. prov w1 a = prov w a + (if a \<in> ?new - ?old then 1 else 0)"
    "\<forall>a. clean ops cons w a \<longrightarrow> clean ops cons w1 a"
    "(\<forall>a \<in> ?old. 0 < prov w a) \<longrightarrow> keys_free cfg ops kf ?ms {} w \<longrightarrow>
      (\<forall>a k. first_keys cfg ?ms a = Some k \<longrightarrow> session_load_keys ops w1 a = Some (kf k))"
    using join_members_effect [OF ops, of cfg kf ?old ?ms "{}" w] by auto
  have gone: "set (sorted_list_of_set (?old - ?new)) = ?old - ?new" using st(4) by simp
  have "\<forall>a \<in> set (sorted_list_of_set (?old - ?new)). 0 < prov w1 a \<and> clean ops cons w1 a"
    unfolding gone using world w1(2,3) by (simp add: world_ok_def)
  from retire_accounts_effect [OF ops _ this] obtain w' where
    w': "exec_fold (retire_account ops) (sorted_list_of_set (?old - ?new)) w1 = Ret w'"
    "\<forall>a. prov w' a = prov w1 a - (if a \<in> ?old - ?new then 1 else 0)"
    "\<forall>a. session_load_keys ops w' a = (if a \<in> ?old - ?new then None else session_load_keys ops w1 a)"
    "\<forall>b. clean ops cons w1 b \<longrightarrow> clean ops cons w' b"
    unfolding gone by auto
  have "card ?new \<le> length ?ms" by (rule order_trans [OF card_image_le card_length]) simp
  with st(3) have "card ?new \<le> max_validators cfg" by simp
  then have run: "new_session cfg ops kf st w = Ret (Some (map (account_of cfg) ?ms),
      st\<lparr>next_committee_st := None, current_committee := ci, provided_accounts := ?new\<rparr>, w')"
    using st(1,2) w1(1) w'(1)
    by (simp add: new_session_def rotate_committee_to_next_epoch_def set_provided_accounts_def)
  show thesis
  proof (rule that [OF run])
    show "\<forall>a. prov w' a + (if a \<in> ?old - ?new then 1 else 0) = prov w a + (if a \<in> ?new - ?old then 1 else 0)"
    proof
      fix a
      have "0 < prov w a" if "a \<in> ?old" using world that by (simp add: world_ok_def)
      then show "prov w' a + (if a \<in> ?old - ?new then 1 else 0) = prov w a + (if a \<in> ?new - ?old then 1 else 0)"
        unfolding w'(2) [rule_format, of a] w1(2) [rule_format, of a] by auto
    qed
    show "\<forall>a \<in> ?old - ?new. session_load_keys ops w' a = None" using w'(3) by simp
    show "keys_free cfg ops kf ?ms {} w \<longrightarrow>
      (\<forall>a k. first_keys cfg ?ms a = Some k \<longrightarrow> session_load_keys ops w' a = Some (kf k))"
    proof (intro impI allI)
      fix a k assume free: "keys_free cfg ops kf ?ms {} w" and k: "first_keys cfg ?ms a = Some k"
      have "a \<in> ?new" using map_of_SomeD [OF k [unfolded first_keys_def]] by auto
      moreover have "session_load_keys ops w1 a = Some (kf k)"
        using w1(4) free k world by (simp add: world_ok_def)
      ultimately show "session_load_keys ops w' a = Some (kf k)" using w'(3) by simp
    qed
    show "\<forall>a. clean ops cons w a \<longrightarrow> clean ops cons w' a" using w1(3) w'(4) by blast
  qed
qed

section \<open>The pallet in a running chain\<close>

text \<open>
  A configuration of the running chain: the block number, the partner chain epoch of the block, the
  storage of the pallet and the rest of the runtime. A block starts with \<open>on_initialize\<close>; the session
  pallet asks \<open>should_end_session\<close> and, if so, calls \<open>new_session\<close>; the calls of the block are
  dispatched (their bounded vectors hold at most \<open>MaxValidators\<close> members); other pallets act on the world
  but keep the references this pallet relies on. Genesis is block 0, before any call.
\<close>

type_synonym ('acc, 'id, 'keys, 'w) chain = "nat \<times> sc_epoch_number \<times> ('acc, 'id, 'keys) smc_state \<times> 'w"

fun call_fits :: "('acc, 'id, 'keys, 'o) smc_config \<Rightarrow> ('id, 'keys) smc_call \<Rightarrow> bool" where
  "call_fits cfg (CallSet v e h) \<longleftrightarrow> length v \<le> max_validators cfg"
| "call_fits cfg _ \<longleftrightarrow> True"

inductive chain_step ::
  "('acc::linorder, 'id, 'keys, 'o) smc_config \<Rightarrow> ('w, 'acc, 'skeys) session_ops \<Rightarrow> ('w \<Rightarrow> 'acc \<Rightarrow> nat) \<Rightarrow>
   ('w \<Rightarrow> 'acc \<Rightarrow> nat) \<Rightarrow> ('keys \<Rightarrow> 'skeys) \<Rightarrow> ('acc, 'id, 'keys, 'w) chain \<Rightarrow> ('acc, 'id, 'keys, 'w) chain \<Rightarrow> bool"
  for cfg ops prov cons kf where
  block: "e \<le> e' \<Longrightarrow>
    chain_step cfg ops prov cons kf (n, e, st, w) (Suc n, e', on_initialize (Suc n) e' st, w)"
| end_session: "0 < n \<Longrightarrow> should_end_session cfg e st = (True, st1) \<Longrightarrow>
    new_session cfg ops kf st1 w = Ret (validators, st2, w2) \<Longrightarrow>
    chain_step cfg ops prov cons kf (n, e, st, w) (n, e, st2, w2)"
| continue_session: "0 < n \<Longrightarrow> should_end_session cfg e st = (False, st1) \<Longrightarrow>
    chain_step cfg ops prov cons kf (n, e, st, w) (n, e, st1, w)"
| dispatch: "0 < n \<Longrightarrow> call_fits cfg c \<Longrightarrow> smc_dispatch cfg origin c st = Inr st' \<Longrightarrow>
    chain_step cfg ops prov cons kf (n, e, st, w) (n, e, st', w)"
| environment: "world_ok ops prov cons (provided_accounts st) w' \<Longrightarrow>
    chain_step cfg ops prov cons kf (n, e, st, w) (n, e, st, w')"

inductive chain_reachable ::
  "('acc::linorder, 'id, 'keys, 'o) smc_config \<Rightarrow> ('w, 'acc, 'skeys) session_ops \<Rightarrow> ('w \<Rightarrow> 'acc \<Rightarrow> nat) \<Rightarrow>
   ('w \<Rightarrow> 'acc \<Rightarrow> nat) \<Rightarrow> ('keys \<Rightarrow> 'skeys) \<Rightarrow> ('acc, 'id, 'keys, 'w) chain \<Rightarrow> bool"
  for cfg ops prov cons kf where
  genesis: "genesis_build cfg (inc_providers ops) initial scripts empty_smc_state w0 = Ret (st, w) \<Longrightarrow>
    world_ok ops prov cons {} w0 \<Longrightarrow>
    chain_reachable cfg ops prov cons kf (0, 0, st, w)"
| step: "chain_reachable cfg ops prov cons kf c \<Longrightarrow> chain_step cfg ops prov cons kf c c' \<Longrightarrow>
    chain_reachable cfg ops prov cons kf c'"

text \<open>What holds of every reachable configuration.\<close>

definition next_ok :: "nat \<Rightarrow> ('id, 'keys) committee_info \<Rightarrow> ('id, 'keys) committee_info option \<Rightarrow> bool" where
  "next_ok bound current upcoming \<longleftrightarrow>
     (case upcoming of
        None \<Rightarrow> True
      | Some ci \<Rightarrow> ci_epoch ci = ci_epoch current + 1 \<and> length (ci_committee ci) \<le> bound)"

definition chain_inv ::
  "('acc, 'id, 'keys, 'o) smc_config \<Rightarrow> ('w, 'acc, 'skeys) session_ops \<Rightarrow> ('w \<Rightarrow> 'acc \<Rightarrow> nat) \<Rightarrow>
   ('w \<Rightarrow> 'acc \<Rightarrow> nat) \<Rightarrow> ('acc, 'id, 'keys, 'w) chain \<Rightarrow> bool" where
  "chain_inv cfg ops prov cons = (\<lambda>(n, e, st, w).
     (n = 0 \<longrightarrow> next_committee_st st = None) \<and>
     next_ok (max_validators cfg) (current_committee st) (next_committee_st st) \<and>
     length (ci_committee (current_committee st)) \<le> max_validators cfg \<and>
     provided_accounts st = account_of cfg ` set (ci_committee (current_committee st)) \<and>
     world_ok ops prov cons (provided_accounts st) w)"

lemma fold_inc_providers:
  assumes "session_ops_ok ops prov cons" and "distinct xs"
  shows "prov (fold (inc_providers ops) xs w) a = prov w a + (if a \<in> set xs then 1 else 0)"
    and "clean ops cons (fold (inc_providers ops) xs w) b \<longleftrightarrow> clean ops cons w b"
  using assms(2)
proof (induction xs arbitrary: w)
  case (Cons x xs)
  note eff = provide_account_effect [OF assms(1), unfolded provide_account_def]
  case 1 then show ?case using Cons(1) [of "inc_providers ops x w"] by (auto simp: eff)
  case 2 then show ?case using Cons(2) [of "inc_providers ops x w"] by (auto simp: eff)
qed simp_all

lemma world_ok_mono:
  assumes "world_ok ops prov cons A w" "\<forall>a. prov w' a + (if a \<in> A - B then 1 else 0) = prov w a + (if a \<in> B - A then 1 else 0)"
    and "\<forall>a. clean ops cons w a \<longrightarrow> clean ops cons w' a"
  shows "world_ok ops prov cons B w'"
proof -
  have "0 < prov w' b" if "b \<in> B" for b
    using assms(1) assms(2) [rule_format, of b] that by (cases "b \<in> A") (auto simp: world_ok_def)
  then show ?thesis using assms(1,3) by (simp add: world_ok_def)
qed

lemma genesis_inv:
  assumes "session_ops_ok ops prov cons" "genesis_build cfg (inc_providers ops) initial scripts empty_smc_state w0 = Ret (st, w)"
    and "world_ok ops prov cons {} w0"
  shows "chain_inv cfg ops prov cons (0, e, st, w)"
  using assms(2,3)
  by (auto simp: genesis_build_def set_provided_accounts_def empty_smc_state_def chain_inv_def next_ok_def Let_def
      world_ok_def image_image fold_inc_providers [OF assms(1)] split: if_splits)

lemma should_end_session_keeps:
  assumes "should_end_session cfg e st = (b, st1)"
  shows "next_committee_st st1 = next_committee_st st" "current_committee st1 = current_committee st"
    and "provided_accounts st1 = provided_accounts st"
    and "b \<Longrightarrow> rotation_stage st1 \<noteq> AdditionalSession \<Longrightarrow> next_committee_st st \<noteq> None"
  using assms
  by (auto simp: should_end_session_def next_committee_def Let_def split: if_splits option.splits)

lemma new_session_of_inv:
  assumes ops: "session_ops_ok ops prov cons" and inv: "chain_inv cfg ops prov cons (n, e, st, w)"
    and ends: "should_end_session cfg e st = (True, st1)"
  obtains st2 w2 where
    "new_session cfg ops kf st1 w =
       Ret (Some (map (account_of cfg) (ci_committee (current_committee st2))), st2, w2)"
    and "chain_inv cfg ops prov cons (n, e, st2, w2)"
proof (cases "rotation_stage st1 = AdditionalSession")
  case True
  show thesis
  proof (rule that)
    show "new_session cfg ops kf st1 w = Ret (Some (map (account_of cfg)
        (ci_committee (current_committee (st1\<lparr>rotation_stage := AwaitEpochChange\<rparr>)))),
        st1\<lparr>rotation_stage := AwaitEpochChange\<rparr>, w)"
      by (simp add: new_session_def True)
    show "chain_inv cfg ops prov cons (n, e, st1\<lparr>rotation_stage := AwaitEpochChange\<rparr>, w)"
      using inv by (auto simp: chain_inv_def should_end_session_keeps(1-3) [OF ends])
  qed
next
  case False
  have "next_committee_st st \<noteq> None" by (rule should_end_session_keeps(4) [OF ends _ False]) simp
  then obtain ci where ci: "next_committee_st st = Some ci" by blast
  have len: "length (ci_committee ci) \<le> max_validators cfg" using inv ci by (simp add: chain_inv_def next_ok_def)
  have fin: "finite (provided_accounts st1)" and world: "world_ok ops prov cons (provided_accounts st1) w"
    using inv should_end_session_keeps(3) [OF ends] by (auto simp: chain_inv_def)
  have next1: "next_committee_st st1 = Some ci" using ci should_end_session_keeps(1) [OF ends] by simp
  show thesis
  proof (rule new_session_rotation [OF ops False next1 len fin world, of kf])
    fix w'
    assume w': "new_session cfg ops kf st1 w = Ret (Some (map (account_of cfg) (ci_committee ci)),
       st1\<lparr>next_committee_st := None, current_committee := ci,
          provided_accounts := account_of cfg ` set (ci_committee ci)\<rparr>, w')"
      "\<forall>a. prov w' a + (if a \<in> provided_accounts st1 - account_of cfg ` set (ci_committee ci) then 1 else 0) =
        prov w a + (if a \<in> account_of cfg ` set (ci_committee ci) - provided_accounts st1 then 1 else 0)"
      "\<forall>a. clean ops cons w a \<longrightarrow> clean ops cons w' a"
    have "world_ok ops prov cons (account_of cfg ` set (ci_committee ci)) w'"
      by (rule world_ok_mono [OF world w'(2,3)])
    then show thesis using len
      by (intro that [of "st1\<lparr>next_committee_st := None, current_committee := ci,
          provided_accounts := account_of cfg ` set (ci_committee ci)\<rparr>" w'])
         (simp_all add: w'(1) chain_inv_def next_ok_def)
  qed
qed

lemma chain_step_inv:
  assumes ops: "session_ops_ok ops prov cons" and "chain_step cfg ops prov cons kf c c'"
    and inv: "chain_inv cfg ops prov cons c"
  shows "chain_inv cfg ops prov cons c'"
  using assms(2)
proof cases
  case (block e e' n st w)
  then show ?thesis using inv by (auto simp: chain_inv_def on_initialize_def next_ok_def)
next
  case (end_session n e st st1 w validators st2 w2)
  from new_session_of_inv [OF ops inv [unfolded end_session(1)] end_session(4), of kf]
  show ?thesis using end_session(2,5) by auto
next
  case (continue_session n e st st1 w)
  then show ?thesis using inv should_end_session_keeps [OF continue_session(4)] by (auto simp: chain_inv_def)
next
  case (dispatch n cl origin st st' e w)
  then show ?thesis using inv
    by (cases cl) (auto simp: chain_inv_def next_ok_def set_call_def set_main_chain_scripts_def ensure_def split: if_splits option.splits)
next
  case (environment st w' n e w)
  then show ?thesis using inv by (simp add: chain_inv_def)
qed

lemma chain_reachable_inv:
  assumes ops: "session_ops_ok ops prov cons" and "chain_reachable cfg ops prov cons kf c"
  shows "chain_inv cfg ops prov cons c"
  using assms(2)
proof induction
  case (genesis initial scripts w0 st w)
  then show ?case by (rule genesis_inv [OF ops])
next
  case (step c c')
  show ?case by (rule chain_step_inv [OF ops step.hyps(2) step.IH])
qed

section \<open>Properties\<close>

text \<open>An environment for concrete runs: provider counts and registered keys of accounts.\<close>

type_synonym demo_world = "(nat \<Rightarrow> nat) \<times> (nat \<Rightarrow> nat option)"

definition demo_ops :: "(demo_world, nat, nat) session_ops" where
  "demo_ops = \<lparr>
     inc_providers = (\<lambda>a (p, k). (p(a := p a + 1), k)),
     dec_providers = (\<lambda>a (p, k). if 1 < p a \<or> p a = 1 \<and> k a = None then Inr (p(a := p a - 1), k) else Inl ()),
     session_load_keys = (\<lambda>(p, k) a. k a),
     session_set_keys = (\<lambda>a x (p, k). if 0 < p a then Inr (p, k(a := Some x)) else Inl ()),
     session_purge_keys = (\<lambda>a (p, k). if k a = None then Inl () else Inr (p, k(a := None)))\<rparr>"

definition demo_prov :: "demo_world \<Rightarrow> nat \<Rightarrow> nat" where
  "demo_prov w = fst w"

definition demo_cons :: "demo_world \<Rightarrow> nat \<Rightarrow> nat" where
  "demo_cons w a = (if snd w a = None then 0 else 1)"

lemma demo_ops_ok: "session_ops_ok demo_ops demo_prov demo_cons"
  unfolding session_ops_ok_def
proof (intro conjI allI impI)
  fix a :: nat and w :: demo_world
  show "session_load_keys demo_ops w a = None \<Longrightarrow> \<exists>e. session_purge_keys demo_ops a w = Inl e"
    by (cases w) (simp add: demo_ops_def)
  show "\<exists>w'. session_purge_keys demo_ops a w = Inr w' \<and> demo_prov w' = demo_prov w \<and>
      session_load_keys demo_ops w' = (session_load_keys demo_ops w)(a := None) \<and>
      demo_cons w' = (demo_cons w)(a := demo_cons w a - 1)" if "session_load_keys demo_ops w a \<noteq> None"
    using that
    by (intro exI [of _ "(fst w, (snd w)(a := None))"])
       (auto simp: demo_ops_def demo_prov_def demo_cons_def fun_eq_iff split_beta)
  show "\<exists>w'. dec_providers demo_ops a w = Inr w' \<and> demo_prov w' = (demo_prov w)(a := demo_prov w a - 1) \<and>
      demo_cons w' = demo_cons w \<and> session_load_keys demo_ops w' = session_load_keys demo_ops w"
    if "1 < demo_prov w a \<or> demo_prov w a = 1 \<and> demo_cons w a = 0"
    using that
    by (intro exI [of _ "((fst w)(a := fst w a - 1), snd w)"])
       (auto simp: demo_ops_def demo_prov_def demo_cons_def fun_eq_iff split_beta split: if_splits)
next
  fix a k :: nat and w w' :: demo_world
  assume set_keys: "session_set_keys demo_ops a k w = Inr w'"
  obtain p l where w: "w = (p, l)" by (cases w)
  have w': "w' = (p, l(a := Some k))" using set_keys w by (simp add: demo_ops_def split: if_splits)
  show "demo_prov w' = demo_prov w" by (simp add: w w' demo_prov_def)
  show "session_load_keys demo_ops w' = (session_load_keys demo_ops w)(a := Some k)"
    by (simp add: w w' demo_ops_def)
  show "demo_cons w' = (demo_cons w)(a := demo_cons w a + (if session_load_keys demo_ops w a = None then 1 else 0))"
    by (simp add: w w' demo_ops_def demo_cons_def fun_eq_iff)
next
  fix a k :: nat and w :: demo_world
  assume "0 < demo_prov w a \<and> (\<forall>b. b \<noteq> a \<longrightarrow> session_load_keys demo_ops w b \<noteq> Some k)"
  then have "0 < demo_prov w a" by simp
  then show "\<exists>w'. session_set_keys demo_ops a k w = Inr w'"
    by (cases w) (simp add: demo_ops_def demo_prov_def)
qed (simp_all add: demo_ops_def demo_prov_def demo_cons_def fun_eq_iff split_beta)

text \<open>C10: rotating the committee. When the next committee is stored and the stage is not the additional
  session, \<open>new_session\<close> does not panic; it returns the accounts of the new committee in order,
  installs that committee and clears the stored one; an account gains a provider reference exactly when
  it joins and loses one exactly when it leaves; the session keys of the accounts that leave are purged;
  and when no other account holds them, every member ends up with its own session keys.\<close>

theorem new_session_rotates:
  fixes cfg :: "('acc::linorder, 'id, 'keys, 'o) smc_config"
  assumes "session_ops_ok ops prov cons" and "rotation_stage st \<noteq> AdditionalSession"
    and "next_committee_st st = Some ci" and "length (ci_committee ci) \<le> max_validators cfg"
    and "finite (provided_accounts st)" and "world_ok ops prov cons (provided_accounts st) w"
  shows "\<exists>w'. new_session cfg ops kf st w = Ret (Some (map (\<lambda>m. into_account cfg (authority_id m)) (ci_committee ci)),
       st\<lparr>next_committee_st := None, current_committee := ci,
          provided_accounts := account_of cfg ` set (ci_committee ci)\<rparr>, w') \<and>
    (\<forall>a. prov w' a + (if a \<in> provided_accounts st - account_of cfg ` set (ci_committee ci) then 1 else 0) =
      prov w a + (if a \<in> account_of cfg ` set (ci_committee ci) - provided_accounts st then 1 else 0)) \<and>
    (\<forall>a \<in> provided_accounts st - account_of cfg ` set (ci_committee ci). session_load_keys ops w' a = None) \<and>
    (keys_free cfg ops kf (ci_committee ci) {} w \<longrightarrow>
      (\<forall>a k. first_keys cfg (ci_committee ci) a = Some k \<longrightarrow> session_load_keys ops w' a = Some (kf k)))"
  by (rule new_session_rotation [OF assms, of kf]) (intro exI conjI; assumption)

definition demo_session_config :: "(nat, nat, nat, bool) smc_config" where
  "demo_session_config = demo_smc_config\<lparr>into_account := \<lambda>n. n\<rparr>"

definition demo_ci :: "(nat, nat) committee_info" where
  "demo_ci = \<lparr>ci_epoch = 1, ci_committee = [MemberPermissioned 1 5]\<rparr>"

definition demo_session_state :: "(nat, nat, nat) smc_state" where
  "demo_session_state = empty_smc_state\<lparr>next_committee_st := Some demo_ci, provided_accounts := {7}\<rparr>"

definition demo_session_world :: demo_world where
  "demo_session_world = ((\<lambda>_. 0)(7 := 1), Map.empty)"

theorem new_session_rotates_witness:
  "\<exists>w'. new_session demo_session_config demo_ops (\<lambda>k. k) demo_session_state demo_session_world =
      Ret (Some [1], demo_session_state\<lparr>next_committee_st := None, current_committee := demo_ci,
         provided_accounts := {1}\<rparr>, w') \<and>
    demo_prov w' 1 = 1 \<and> demo_prov w' 7 = 0 \<and> session_load_keys demo_ops w' 1 = Some 5"
proof -
  have st: "rotation_stage demo_session_state \<noteq> AdditionalSession" "next_committee_st demo_session_state = Some demo_ci"
    "length (ci_committee demo_ci) \<le> max_validators demo_session_config" "finite (provided_accounts demo_session_state)"
    "provided_accounts demo_session_state = {7}" "account_of demo_session_config ` set (ci_committee demo_ci) = {1}"
    "map (\<lambda>m. into_account demo_session_config (authority_id m)) (ci_committee demo_ci) = [1]"
    by (simp_all add: demo_session_state_def empty_smc_state_def demo_ci_def demo_session_config_def demo_smc_config_def
        authority_id_def)
  have world: "world_ok demo_ops demo_prov demo_cons (provided_accounts demo_session_state) demo_session_world"
    by (simp add: world_ok_def st(5) clean_def demo_ops_def demo_prov_def demo_cons_def demo_session_world_def)
  have fk: "first_keys demo_session_config (ci_committee demo_ci) = (\<lambda>a. if a = 1 then Some 5 else None)"
    by (simp add: first_keys_def demo_ci_def demo_session_config_def authority_id_def authority_keys_def fun_eq_iff)
  have free: "keys_free demo_session_config demo_ops (\<lambda>k. k) (ci_committee demo_ci) {} demo_session_world"
    by (simp add: keys_free_def fk demo_ops_def demo_session_world_def)
  have prov: "demo_prov demo_session_world 1 = 0" "demo_prov demo_session_world 7 = 1"
    by (simp_all add: demo_prov_def demo_session_world_def)
  from new_session_rotates [OF demo_ops_ok st(1-4) world, of "\<lambda>k. k", unfolded st(5-7)] obtain w' where
    w': "new_session demo_session_config demo_ops (\<lambda>k. k) demo_session_state demo_session_world =
      Ret (Some [1], demo_session_state\<lparr>next_committee_st := None, current_committee := demo_ci,
         provided_accounts := {1}\<rparr>, w')"
    "\<forall>a. demo_prov w' a + (if a \<in> {7} - {1} then 1 else 0) =
      demo_prov demo_session_world a + (if a \<in> {1} - {7} then 1 else 0)"
    "\<forall>a k. first_keys demo_session_config (ci_committee demo_ci) a = Some k \<longrightarrow>
      session_load_keys demo_ops w' a = Some k"
    using free by blast
  show ?thesis
    using w'(1) w'(2) [rule_format, of 1] w'(2) [rule_format, of 7] w'(3) [rule_format, of 1 5] prov
    by (simp add: fk)
qed

text \<open>C1: along every run of the chain, whenever \<open>should_end_session\<close> asks for the session to end, the
  following \<open>new_session\<close> does not panic (the stored next committee exists, and no account it has to
  release is blocked) and returns the accounts of the committee it leaves installed.\<close>

theorem session_end_never_panics:
  fixes cfg :: "('acc::linorder, 'id, 'keys, 'o) smc_config"
  assumes "session_ops_ok ops prov cons" and "chain_reachable cfg ops prov cons kf (n, e, st, w)"
    and "should_end_session cfg e st = (True, st1)"
  shows "\<exists>st2 w2. new_session cfg ops kf st1 w =
    Ret (Some (map (\<lambda>m. into_account cfg (authority_id m)) (ci_committee (current_committee st2))), st2, w2)"
  by (rule new_session_of_inv [OF assms(1) chain_reachable_inv [OF assms(1,2)] assms(3), of kf]) (intro exI)

text \<open>C11: along every run of the chain, the stored next committee is the one of the epoch after the
  current committee's, both fit the bound on validators, and the accounts the pallet provides for are
  exactly those of the current committee.\<close>

theorem committee_epochs_consecutive:
  fixes cfg :: "('acc::linorder, 'id, 'keys, 'o) smc_config"
  assumes "session_ops_ok ops prov cons" and "chain_reachable cfg ops prov cons kf (n, e, st, w)"
  shows "(\<forall>ci. next_committee_st st = Some ci \<longrightarrow>
       ci_epoch ci = ci_epoch (current_committee st) + 1 \<and> length (ci_committee ci) \<le> max_validators cfg) \<and>
     length (ci_committee (current_committee st)) \<le> max_validators cfg \<and>
     provided_accounts st = (\<lambda>m. into_account cfg (authority_id m)) ` set (ci_committee (current_committee st))"
  using chain_reachable_inv [OF assms] by (auto simp: chain_inv_def next_ok_def)

text \<open>C12: a change of epoch ends exactly two sessions and rotates the committee once. In the first block
  of a later epoch with the next committee stored, the session ends and the stored committee is
  installed; when the epoch is not past that committee's, the next check ends one more session, which
  keeps the committee, and the check after it lets the session go on.\<close>

theorem epoch_change_ends_two_sessions:
  fixes cfg :: "('acc::linorder, 'id, 'keys, 'o) smc_config"
  assumes "session_ops_ok ops prov cons" and "chain_reachable cfg ops prov cons kf (n, e, st, w)"
    and "next_committee_st st = Some ci" and "ci_epoch (current_committee st) < e" and "e \<le> ci_epoch ci"
  shows "\<exists>st1 st2 st3 st4 w2 v. should_end_session cfg e st = (True, st1) \<and>
    new_session cfg ops kf st1 w = Ret (v, st2, w2) \<and> current_committee st2 = ci \<and> next_committee_st st2 = None \<and>
    should_end_session cfg e st2 = (True, st3) \<and>
    new_session cfg ops kf st3 w2 = Ret (v, st4, w2) \<and> current_committee st4 = ci \<and>
    should_end_session cfg e st4 = (False, st4)"
proof -
  have inv: "chain_inv cfg ops prov cons (n, e, st, w)" by (rule chain_reachable_inv [OF assms(1,2)])
  let ?st1 = "st\<lparr>rotation_stage := NewSessionDueEpochChange\<rparr>"
  let ?st2 = "?st1\<lparr>next_committee_st := None, current_committee := ci,
      provided_accounts := account_of cfg ` set (ci_committee ci)\<rparr>"
  have ends: "should_end_session cfg e st = (True, ?st1)"
    using assms(3,4) by (simp add: should_end_session_def next_committee_def Let_def)
  have pre: "length (ci_committee ci) \<le> max_validators cfg" "finite (provided_accounts ?st1)"
    "world_ok ops prov cons (provided_accounts ?st1) w"
    using inv assms(3) by (auto simp: chain_inv_def next_ok_def)
  obtain w2 where run: "new_session cfg ops kf ?st1 w = Ret (Some (map (account_of cfg) (ci_committee ci)), ?st2, w2)"
    by (rule new_session_rotation [OF assms(1) _ _ pre, where kf = kf]) (simp_all add: assms(3))
  let ?st4 = "?st2\<lparr>rotation_stage := AwaitEpochChange\<rparr>"
  have "should_end_session cfg e ?st2 = (True, ?st2\<lparr>rotation_stage := AdditionalSession\<rparr>)"
    using assms(5) by (simp add: should_end_session_def next_committee_def Let_def not_less)
  moreover have "new_session cfg ops kf (?st2\<lparr>rotation_stage := AdditionalSession\<rparr>) w2 =
      Ret (Some (map (account_of cfg) (ci_committee ci)), ?st4, w2)"
    by (simp add: new_session_def)
  moreover have "should_end_session cfg e ?st4 = (False, ?st4)"
    using assms(5) by (simp add: should_end_session_def next_committee_def Let_def not_less)
  ultimately show ?thesis using ends run
    by (intro exI [of _ ?st1] exI [of _ ?st2] exI [of _ "?st2\<lparr>rotation_stage := AdditionalSession\<rparr>"]
        exI [of _ ?st4] exI [of _ w2] exI [of _ "Some (map (account_of cfg) (ci_committee ci))"]) simp
qed

text \<open>A concrete run: genesis with one validator, the first block in epoch 5, which stores the committee
  of epoch 6, and the first block of epoch 6.\<close>

definition demo_scripts :: main_chain_scripts where
  "demo_scripts = main_chain_scripts_configuration (empty_smc_state :: (nat, nat, nat) smc_state)"

definition demo_next_ci :: "(nat, nat) committee_info" where
  "demo_next_ci = \<lparr>ci_epoch = 6, ci_committee = [MemberPermissioned 1 5]\<rparr>"

definition demo_run_state :: "(nat, nat, nat) smc_state" where
  "demo_run_state = empty_smc_state\<lparr>current_committee := \<lparr>ci_epoch = 5, ci_committee = [MemberPermissioned 7 3]\<rparr>,
     next_committee_st := Some demo_next_ci, main_chain_scripts_configuration := demo_scripts,
     provided_accounts := {7}\<rparr>"

lemma demo_first_block_reachable:
  "chain_reachable demo_session_config demo_ops demo_prov demo_cons (\<lambda>k. k)
     (1, 5, demo_run_state, demo_session_world)"
proof -
  let ?st0 = "demo_run_state\<lparr>current_committee := \<lparr>ci_epoch = 0, ci_committee = [MemberPermissioned 7 3]\<rparr>,
     next_committee_st := None\<rparr>"
  note defs = demo_session_config_def demo_smc_config_def demo_run_state_def empty_smc_state_def
  have gen: "genesis_build demo_session_config (inc_providers demo_ops) [MemberPermissioned 7 3] demo_scripts
      empty_smc_state ((\<lambda>_. 0), Map.empty) = Ret (?st0, demo_session_world)"
    by (simp add: genesis_build_def set_provided_accounts_def defs authority_id_def demo_ops_def demo_session_world_def)
  have "world_ok demo_ops demo_prov demo_cons {} ((\<lambda>_. 0), Map.empty)"
    by (simp add: world_ok_def clean_def demo_cons_def)
  note r0 = chain_reachable.genesis [OF gen this]
  have b1: "chain_step demo_session_config demo_ops demo_prov demo_cons (\<lambda>k. k) (0, 0, ?st0, demo_session_world)
      (1, 5, demo_run_state\<lparr>next_committee_st := None\<rparr>, demo_session_world)"
    using chain_step.block [of 0 5 demo_session_config demo_ops demo_prov demo_cons "\<lambda>k. k" 0 ?st0 demo_session_world]
    by (simp add: on_initialize_def demo_run_state_def empty_smc_state_def)
  have b2: "chain_step demo_session_config demo_ops demo_prov demo_cons (\<lambda>k. k)
      (1, 5, demo_run_state\<lparr>next_committee_st := None\<rparr>, demo_session_world) (1, 5, demo_run_state, demo_session_world)"
    by (rule chain_step.dispatch [where c = "CallSet [MemberPermissioned 1 5] 6 []" and origin = True])
       (simp_all add: set_call_def ensure_def defs demo_next_ci_def)
  show ?thesis by (rule chain_reachable.step [OF chain_reachable.step [OF r0 b1] b2])
qed

lemma demo_run_reachable:
  "chain_reachable demo_session_config demo_ops demo_prov demo_cons (\<lambda>k. k)
     (Suc 1, 6, demo_run_state, demo_session_world)"
proof -
  have b3: "chain_step demo_session_config demo_ops demo_prov demo_cons (\<lambda>k. k)
      (1, 5, demo_run_state, demo_session_world) (Suc 1, 6, demo_run_state, demo_session_world)"
    using chain_step.block [of 5 6 demo_session_config demo_ops demo_prov demo_cons "\<lambda>k. k" 1 demo_run_state
        demo_session_world]
    by (simp add: on_initialize_def)
  show ?thesis by (rule chain_reachable.step [OF demo_first_block_reachable b3])
qed

lemma demo_run_ends:
  "should_end_session demo_session_config 6 demo_run_state =
     (True, demo_run_state\<lparr>rotation_stage := NewSessionDueEpochChange\<rparr>)"
  by (simp add: should_end_session_def next_committee_def demo_run_state_def empty_smc_state_def)

theorem session_end_never_panics_witness:
  "\<exists>st2 w2. new_session demo_session_config demo_ops (\<lambda>k. k)
      (demo_run_state\<lparr>rotation_stage := NewSessionDueEpochChange\<rparr>) demo_session_world =
    Ret (Some (map (\<lambda>m. into_account demo_session_config (authority_id m))
      (ci_committee (current_committee st2))), st2, w2)"
  by (rule session_end_never_panics [OF demo_ops_ok demo_run_reachable demo_run_ends])

theorem committee_epochs_consecutive_witness:
  "ci_epoch demo_next_ci = ci_epoch (current_committee demo_run_state) + 1 \<and> provided_accounts demo_run_state = {7}"
  using committee_epochs_consecutive [OF demo_ops_ok demo_run_reachable]
  by (simp add: demo_run_state_def)

theorem epoch_change_ends_two_sessions_witness:
  "\<exists>st1 st2 w2 v. should_end_session demo_session_config 6 demo_run_state = (True, st1) \<and>
    new_session demo_session_config demo_ops (\<lambda>k. k) st1 demo_session_world = Ret (v, st2, w2) \<and>
    current_committee st2 = demo_next_ci"
  using epoch_change_ends_two_sessions [OF demo_ops_ok demo_run_reachable, of demo_next_ci]
  by (simp add: demo_run_state_def demo_next_ci_def) blast

end
