(* ===== verification/BTree_Map.thy ===== *)
theory BTree_Map
  imports PC_Prelude "HOL-Library.List_Lexorder" "HOL-Library.Product_Lexorder"
begin

text \<open>
  \<open>BTreeMap\<close>, the ordered map of the Rust standard library, as its list of entries in iteration order.
  \<open>get\<close> is \<open>map_of\<close>. Two maps that hold the same entries are the same list, so that the derived
  equality of calls and inherent data holding such maps is equality of the lists.
\<close>

type_synonym ('k, 'v) btree_map = "('k \<times> 'v) list"

definition btm_ok :: "('k::linorder, 'v) btree_map \<Rightarrow> bool" where
  "btm_ok m \<longleftrightarrow> sorted_wrt (<) (map fst m)"

fun btm_insert :: "'k::linorder \<Rightarrow> 'v \<Rightarrow> ('k, 'v) btree_map \<Rightarrow> ('k, 'v) btree_map" where
  "btm_insert k v [] = [(k, v)]"
| "btm_insert k v ((k', v') # m) =
     (if k < k' then (k, v) # (k', v') # m
      else if k = k' then (k, v) # m
      else (k', v') # btm_insert k v m)"

definition btm_of_list :: "('k::linorder \<times> 'v) list \<Rightarrow> ('k, 'v) btree_map" where
  "btm_of_list kvs = fold (\<lambda>(k, v). btm_insert k v) kvs []"

lemma btm_ok_Nil [simp]: "btm_ok []"
  by (simp add: btm_ok_def)

lemma btm_ok_Cons [simp]: "btm_ok ((k, v) # m) \<longleftrightarrow> (\<forall>k' \<in> fst ` set m. k < k') \<and> btm_ok m"
  by (auto simp: btm_ok_def)

lemma btm_ok_distinct: "btm_ok m \<Longrightarrow> distinct (map fst m)"
  by (induction m) (auto simp: btm_ok_def)

lemma keys_btm_insert [simp]: "fst ` set (btm_insert k v m) = insert k (fst ` set m)"
  by (induction k v m rule: btm_insert.induct) auto

lemma btm_ok_insert [simp]: "btm_ok m \<Longrightarrow> btm_ok (btm_insert k v m)"
  by (induction k v m rule: btm_insert.induct) auto

lemma btm_smaller_not_in: "btm_ok ((k', v') # m) \<Longrightarrow> k < k' \<Longrightarrow> map_of m k = None"
  by (force simp: map_of_eq_None_iff)

lemma map_of_btm_insert [simp]: "btm_ok m \<Longrightarrow> map_of (btm_insert k v m) = (map_of m)(k \<mapsto> v)"
  by (induction k v m rule: btm_insert.induct) (auto simp: fun_eq_iff)

lemma btm_ok_fold_insert: "btm_ok m \<Longrightarrow> btm_ok (fold (\<lambda>(k, v). btm_insert k v) kvs m)"
  by (induction kvs arbitrary: m) (auto simp: split_beta)

lemma map_of_fold_insert:
  "btm_ok m \<Longrightarrow> map_of (fold (\<lambda>(k, v). btm_insert k v) kvs m) = fold (\<lambda>(k, v) f. f(k \<mapsto> v)) kvs (map_of m)"
  by (induction kvs arbitrary: m) (auto simp: split_beta)

lemma btm_ok_of_list [simp]: "btm_ok (btm_of_list kvs)"
  by (simp add: btm_of_list_def btm_ok_fold_insert)

lemma map_of_btm_of_list: "map_of (btm_of_list kvs) = fold (\<lambda>(k, v) f. f(k \<mapsto> v)) kvs Map.empty"
  by (simp add: btm_of_list_def map_of_fold_insert)

lemma fold_upd_snoc: "fold (\<lambda>(k, v) f. f(k \<mapsto> v)) kvs f = f ++ map_of (rev kvs)"
  by (induction kvs arbitrary: f) (auto simp: split_beta)

lemma btm_insert_append:
  "\<forall>k' \<in> fst ` set m. k' < k \<Longrightarrow> btm_insert k v m = m @ [(k, v)]"
  by (induction m) auto

lemma btm_rebuild_aux:
  "btm_ok (acc @ m) \<Longrightarrow> fold (\<lambda>(k, v). btm_insert k v) m acc = acc @ m"
proof (induction m arbitrary: acc)
  case (Cons kv m)
  obtain k v where kv: "kv = (k, v)" by fastforce
  have "\<forall>k' \<in> fst ` set acc. k' < k" using Cons.prems kv by (auto simp: btm_ok_def sorted_wrt_append)
  then show ?case using Cons.IH [of "acc @ [(k, v)]"] Cons.prems by (simp add: kv btm_insert_append)
qed simp

text \<open>Inserting the entries of a map one by one, in order, rebuilds it.\<close>

lemma btm_rebuild: "btm_ok m \<Longrightarrow> btm_of_list m = m"
  using btm_rebuild_aux [of "[]" m] by (simp add: btm_of_list_def)

lemma map_of_btm_ext:
  assumes "btm_ok m" "btm_ok m'" "map_of m = map_of m'"
  shows "m = m'"
proof (rule map_sorted_distinct_set_unique [where f = fst])
  have "set m = {(k, v). map_of m k = Some v}"
    using assms(1) by (auto dest: btm_ok_distinct simp: map_of_eq_Some_iff)
  moreover have "set m' = {(k, v). map_of m' k = Some v}"
    using assms(2) by (auto dest: btm_ok_distinct simp: map_of_eq_Some_iff)
  ultimately show "set m = set m'" using assms(3) by simp
  then show "inj_on fst (set m \<union> set m')"
    using btm_ok_distinct [OF assms(1)] by (simp add: distinct_map)
qed (use assms(1,2) in \<open>auto simp: btm_ok_def strict_sorted_iff\<close>)

section \<open>Initial segments of ordered lists\<close>

lemma filter_initial_segment:
  assumes "sorted_wrt R xs" and "\<And>x y. R x y \<Longrightarrow> P y \<Longrightarrow> P x"
  shows "filter P xs = take (length (filter P xs)) xs"
    and "filter (\<lambda>x. \<not> P x) xs = drop (length (filter P xs)) xs"
    and "takeWhile P xs = filter P xs" and "dropWhile P xs = filter (\<lambda>x. \<not> P x) xs"
  using assms(1)
proof (induction xs)
  case (Cons x xs)
  have none: "filter P xs = []" "filter (\<lambda>x. \<not> P x) xs = xs" if "\<not> P x" "sorted_wrt R (x # xs)"
    using that assms(2) by (auto simp: filter_empty_conv filter_id_conv)
  case 1 then show ?case using Cons none by (cases "P x") auto
  case 2 then show ?case using Cons none by (cases "P x") auto
  case 3 then show ?case using Cons none by (cases "P x") auto
  case 4 then show ?case using Cons none by (cases "P x") auto
qed simp_all

lemma filter_between:
  assumes "sorted_wrt R xs" and "\<And>x y. R x y \<Longrightarrow> P y \<Longrightarrow> P x" and "\<And>x y. R x y \<Longrightarrow> Q y \<Longrightarrow> Q x"
  shows "filter (\<lambda>x. Q x \<and> \<not> P x) xs = drop (length (filter P xs)) (take (length (filter Q xs)) xs)"
  using assms(1)
proof (induction xs)
  case (Cons x xs)
  have sorted: "sorted_wrt R xs" using Cons.prems by simp
  have none: "\<forall>y \<in> set xs. \<not> S y" if "\<not> S x" "\<And>x y. R x y \<Longrightarrow> S y \<Longrightarrow> S x" for S
    using Cons.prems that by auto
  consider "\<not> Q x" | "Q x" "P x" | "Q x" "\<not> P x" by blast
  then show ?case
  proof cases
    case 1
    then show ?thesis using none [of Q] assms(3) by (simp add: filter_empty_conv)
  next
    case 2
    then show ?thesis using Cons.IH sorted by simp
  next
    case 3
    have "\<forall>y \<in> set xs. \<not> P y" using none [of P] 3 assms(2) by blast
    then have "filter P xs = []" "filter (\<lambda>x. Q x \<and> \<not> P x) xs = filter Q xs"
      by (auto simp: filter_empty_conv intro: filter_cong)
    then show ?thesis using 3 filter_initial_segment(1) [OF sorted assms(3)] by simp
  qed
qed simp

end
