(* ===== verification/Governed_Map.thy ===== *)
theory Governed_Map
  imports Inherents BTree_Map
begin

text \<open>
  The Governed Map: \<open>toolkit/governed-map/pallet/src/lib.rs\<close> and the inherent data provider of
  \<open>toolkit/governed-map/primitives/src/lib.rs\<close>.

  Keys are the bytes of the strings. The handler \<open>OnGovernedMappingChange\<close> is a parameter acting on a
  state \<open>'h\<close> of its own. Calls run in a storage transaction, so that a call that fails leaves the
  storage as it was: a call is a function from state to an error or the new state. The Cardano data
  source is a parameter; \<open>gm_source_ok\<close> states the documented contract of its two queries against the
  true content \<open>cardano\<close> of the map at each main chain block.
\<close>

section \<open>Pallet\<close>

record main_chain_scripts_v1 =
  gm_validator_address :: bytes
  gm_asset_policy_id :: bytes

record gm_state =
  gm_initialized :: bool
  last_update_block :: "nat option"
  gm_mapping :: "bytes \<rightharpoonup> bytes"
  gm_main_chain_scripts :: "main_chain_scripts_v1 option"

record ('origin, 'h) gm_config =
  max_changes :: u32
  max_key_length :: u32
  max_value_length :: u32
  on_governed_mapping_change :: "bytes \<Rightarrow> bytes option \<Rightarrow> bytes option \<Rightarrow> 'h \<Rightarrow> 'h"
  gm_scripts_origin :: "'origin \<Rightarrow> bool"
  gm_none_origin :: "'origin \<Rightarrow> bool"

datatype gm_error = GmBadOrigin | InherentCalledTwice | MainChainScriptNotSet

datatype gm_inherent_error =
    GmInherentMissing
  | GmInherentNotExpected
  | GmIncorrectInherent
  | KeyExceedsBounds bytes
  | ValueExceedsBounds bytes bytes
  | TooManyChanges

type_synonym gm_inherent_data_v1 = "(bytes, bytes option) btree_map"

datatype gm_call =
    RegisterChanges "(bytes, bytes option) btree_map"
  | GmSetMainChainScripts main_chain_scripts_v1

definition gm_empty :: gm_state where
  "gm_empty = \<lparr>gm_initialized = False, last_update_block = None, gm_mapping = Map.empty,
     gm_main_chain_scripts = None\<rparr>"

definition gm_genesis_build :: "main_chain_scripts_v1 option \<Rightarrow> gm_state \<Rightarrow> gm_state" where
  "gm_genesis_build scripts st = st\<lparr>gm_main_chain_scripts := scripts\<rparr>"

definition decode_inherent_data :: "gm_inherent_data_v1 inherent_data \<Rightarrow> gm_inherent_data_v1 option exec" where
  "decode_inherent_data data = (case data of Inr r \<Rightarrow> Ret r | Inl _ \<Rightarrow> Panic)"

definition bound_key :: "('o, 'h) gm_config \<Rightarrow> bytes \<Rightarrow> gm_inherent_error + bytes" where
  "bound_key cfg key =
     (if length key \<le> unat (max_key_length cfg) then Inr key else Inl (KeyExceedsBounds key))"

definition bound_value :: "('o, 'h) gm_config \<Rightarrow> bytes \<Rightarrow> bytes \<Rightarrow> gm_inherent_error + bytes" where
  "bound_value cfg key val =
     (if length val \<le> unat (max_value_length cfg) then Inr val else Inl (ValueExceedsBounds key val))"

text \<open>The loop over the raw changes. \<open>try_insert\<close> refuses a new key in a full map.\<close>

definition try_insert :: "nat \<Rightarrow> 'k::linorder \<Rightarrow> 'v \<Rightarrow> ('k, 'v) btree_map \<Rightarrow> ('k, 'v) btree_map option" where
  "try_insert bound k v m = (if length m < bound \<or> map_of m k \<noteq> None then Some (btm_insert k v m) else None)"

fun bound_changes ::
  "('o, 'h) gm_config \<Rightarrow> gm_inherent_data_v1 \<Rightarrow> (bytes, bytes option) btree_map \<Rightarrow>
   (gm_inherent_error + (bytes, bytes option) btree_map) exec" where
  "bound_changes cfg [] changes = Ret (Inr changes)"
| "bound_changes cfg ((key, new_value) # raw) changes =
     (case (case new_value of Some v \<Rightarrow> try_bind (bound_value cfg key v) (\<lambda>v. Inr (Some v)) | None \<Rightarrow> Inr None) of
        Inl e \<Rightarrow> Ret (Inl e)
      | Inr new_value \<Rightarrow>
          (case bound_key cfg key of
             Inl e \<Rightarrow> Ret (Inl e)
           | Inr key \<Rightarrow>
               exec_bind (expect (try_insert (unat (max_changes cfg)) key new_value changes))
                 (bound_changes cfg raw)))"

definition create_inherent_or_err ::
  "('o, 'h) gm_config \<Rightarrow> gm_state \<Rightarrow> gm_inherent_data_v1 inherent_data \<Rightarrow>
   (gm_inherent_error + gm_call option) exec" where
  "create_inherent_or_err cfg st data =
     exec_bind (decode_inherent_data data) (\<lambda>r.
     case r of
       None \<Rightarrow> Ret (Inr None)
     | Some raw_changes \<Rightarrow>
         if raw_changes = [] \<and> gm_initialized st then Ret (Inr None)
         else if length raw_changes > unat (max_changes cfg) then Ret (Inl TooManyChanges)
         else exec_map (\<lambda>c. try_bind c (\<lambda>changes. Inr (Some (RegisterChanges changes))))
                (bound_changes cfg raw_changes []))"

definition gm_create_inherent ::
  "('o, 'h) gm_config \<Rightarrow> gm_state \<Rightarrow> gm_inherent_data_v1 inherent_data \<Rightarrow> gm_call option exec" where
  "gm_create_inherent cfg st data =
     exec_bind (create_inherent_or_err cfg st data) (\<lambda>r. case r of Inr c \<Rightarrow> Ret c | Inl _ \<Rightarrow> Panic)"

definition gm_check_inherent ::
  "('o, 'h) gm_config \<Rightarrow> gm_state \<Rightarrow> gm_call \<Rightarrow> gm_inherent_data_v1 inherent_data \<Rightarrow>
   (gm_inherent_error + unit) exec" where
  "gm_check_inherent cfg st call data =
     exec_map (\<lambda>r. case r of
         None \<Rightarrow> Inl GmInherentNotExpected
       | Some expected_call \<Rightarrow> if call \<noteq> expected_call then Inl GmIncorrectInherent else Inr ())
       (gm_create_inherent cfg st data)"

fun gm_is_inherent :: "gm_call \<Rightarrow> bool" where
  "gm_is_inherent (RegisterChanges changes) = True"
| "gm_is_inherent _ = False"

definition gm_is_inherent_required ::
  "gm_state \<Rightarrow> gm_inherent_data_v1 inherent_data \<Rightarrow> (gm_inherent_error + gm_inherent_error option) exec" where
  "gm_is_inherent_required st data =
     exec_map (\<lambda>r. case r of
         None \<Rightarrow> Inr None
       | Some changes \<Rightarrow> if changes = [] \<and> gm_initialized st then Inr None else Inr (Some GmInherentMissing))
       (decode_inherent_data data)"

definition register_change ::
  "('o, 'h) gm_config \<Rightarrow> bytes \<times> bytes option \<Rightarrow> gm_state \<times> 'h \<Rightarrow> gm_state \<times> 'h" where
  "register_change cfg = (\<lambda>(key, val) (st, h).
     let old_value = gm_mapping st key
     in (st\<lparr>gm_mapping := (gm_mapping st)(key := val)\<rparr>, on_governed_mapping_change cfg key val old_value h))"

definition register_changes ::
  "('o, 'h) gm_config \<Rightarrow> nat \<Rightarrow> 'o \<Rightarrow> (bytes, bytes option) btree_map \<Rightarrow> gm_state \<times> 'h \<Rightarrow>
   gm_error + gm_state \<times> 'h" where
  "register_changes cfg current_block origin changes = (\<lambda>(st, h).
     try_bind (ensure (gm_none_origin cfg origin) GmBadOrigin) (\<lambda>_.
     try_bind (ensure (case last_update_block st of None \<Rightarrow> True | Some last_block \<Rightarrow> last_block < current_block)
       InherentCalledTwice) (\<lambda>_.
     let st = st\<lparr>last_update_block := Some current_block\<rparr> in
     try_bind (ensure (gm_main_chain_scripts st \<noteq> None) MainChainScriptNotSet) (\<lambda>_.
     let st = (if gm_initialized st then st else st\<lparr>gm_initialized := True\<rparr>)
     in Inr (fold (register_change cfg) changes (st, h))))))"

definition gm_set_main_chain_scripts ::
  "('o, 'h) gm_config \<Rightarrow> 'o \<Rightarrow> main_chain_scripts_v1 \<Rightarrow> gm_state \<times> 'h \<Rightarrow> gm_error + gm_state \<times> 'h" where
  "gm_set_main_chain_scripts cfg origin new_main_chain_script = (\<lambda>(st, h).
     try_bind (ensure (gm_scripts_origin cfg origin) GmBadOrigin) (\<lambda>_.
       Inr (st\<lparr>gm_main_chain_scripts := Some new_main_chain_script, gm_initialized := False\<rparr>, h)))"

fun gm_dispatch ::
  "('o, 'h) gm_config \<Rightarrow> nat \<Rightarrow> 'o \<Rightarrow> gm_call \<Rightarrow> gm_state \<times> 'h \<Rightarrow> gm_error + gm_state \<times> 'h" where
  "gm_dispatch cfg n origin (RegisterChanges changes) s = register_changes cfg n origin changes s"
| "gm_dispatch cfg n origin (GmSetMainChainScripts scripts) s = gm_set_main_chain_scripts cfg origin scripts s"

definition get_key_value :: "bytes \<Rightarrow> gm_state \<Rightarrow> bytes option" where
  "get_key_value key st = gm_mapping st key"

section \<open>Inherent data provider\<close>

text \<open>The runtime API of the parent block; \<open>api_present\<close> is \<open>has_api\<close>, and a failing API call is the
  error \<open>Inl\<close> of a query.\<close>

record 'e gm_api =
  api_present :: "'e + bool"
  api_pallet_version :: "'e + u32"
  api_main_chain_scripts :: "'e + main_chain_scripts_v1 option"
  api_is_initialized :: "'e + bool"
  api_current_state :: "'e + (bytes, bytes) btree_map"

record ('hash, 'e) gm_data_source =
  get_state_at_block :: "'hash \<Rightarrow> main_chain_scripts_v1 \<Rightarrow> 'e + (bytes, bytes) btree_map"
  get_mapping_changes :: "'hash option \<Rightarrow> 'hash \<Rightarrow> main_chain_scripts_v1 \<Rightarrow> 'e + (bytes \<times> bytes option) list"

datatype gm_idp = GmInert | GmActiveV1 gm_inherent_data_v1

datatype 'e gm_idp_error = GmApiError 'e | GmDataSourceError 'e | GmUnsupportedPalletVersion u32 u32

definition gm_diff :: "(bytes, bytes) btree_map \<Rightarrow> (bytes, bytes) btree_map \<Rightarrow> gm_inherent_data_v1" where
  "gm_diff current_state new_state =
     (let changes = fold (\<lambda>(key, _) changes.
            if map_of new_state key = None then btm_insert key None changes else changes) current_state []
      in fold (\<lambda>(key, val) changes.
            if map_of current_state key \<noteq> Some val then btm_insert key (Some val) changes else changes)
           new_state changes)"

definition gm_idp_new_v1 ::
  "'e gm_api \<Rightarrow> 'hash \<Rightarrow> 'hash option \<Rightarrow> ('hash, 'e) gm_data_source \<Rightarrow> 'e gm_idp_error + gm_idp" where
  "gm_idp_new_v1 api mc_hash parent_mc_hash ds =
     try_bind (map_err GmApiError (api_main_chain_scripts api)) (\<lambda>s.
     case s of
       None \<Rightarrow> Inr GmInert
     | Some main_chain_script \<Rightarrow>
         try_bind (map_err GmApiError (api_is_initialized api)) (\<lambda>initialized.
         if initialized then
           try_bind (map_err GmDataSourceError (get_mapping_changes ds parent_mc_hash mc_hash main_chain_script))
             (\<lambda>raw_changes. Inr (GmActiveV1 (fold (\<lambda>(key, val). btm_insert key val) raw_changes [])))
         else
           try_bind (map_err GmDataSourceError (get_state_at_block ds mc_hash main_chain_script)) (\<lambda>new_state.
           try_bind (map_err GmApiError (api_current_state api)) (\<lambda>current_state.
             Inr (GmActiveV1 (gm_diff current_state new_state))))))"

definition gm_idp_new ::
  "'e gm_api \<Rightarrow> 'hash \<Rightarrow> 'hash option \<Rightarrow> ('hash, 'e) gm_data_source \<Rightarrow> 'e gm_idp_error + gm_idp" where
  "gm_idp_new api mc_hash parent_mc_hash ds =
     try_bind (map_err GmApiError (api_present api)) (\<lambda>present.
     if \<not> present then Inr GmInert
     else try_bind (map_err GmApiError (api_pallet_version api)) (\<lambda>version.
       if version = 1 then gm_idp_new_v1 api mc_hash parent_mc_hash ds
       else Inl (GmUnsupportedPalletVersion version 1)))"

fun gm_provide_inherent_data :: "gm_idp \<Rightarrow> gm_inherent_data_v1 inherent_data" where
  "gm_provide_inherent_data (GmActiveV1 data) = Inr (Some data)"
| "gm_provide_inherent_data GmInert = Inr None"

section \<open>The inherent is strict\<close>

lemma gm_create_inherent_iff:
  "gm_create_inherent cfg st data = Ret r \<longleftrightarrow>
     (\<exists>d. data = Inr d \<and>
       (case d of
          None \<Rightarrow> r = None
        | Some raw \<Rightarrow>
            if raw = [] \<and> gm_initialized st then r = None
            else length raw \<le> unat (max_changes cfg) \<and>
              (\<exists>changes. bound_changes cfg raw [] = Ret (Inr changes) \<and> r = Some (RegisterChanges changes))))"
proof (cases data)
  case (Inr d)
  show ?thesis
  proof (cases d)
    case None
    then show ?thesis using Inr
      by (auto simp: gm_create_inherent_def create_inherent_or_err_def decode_inherent_data_def)
  next
    case (Some raw)
    show ?thesis
    proof (cases "bound_changes cfg raw []")
      case (Ret b)
      then show ?thesis using Inr Some
        by (cases b) (auto simp: gm_create_inherent_def create_inherent_or_err_def decode_inherent_data_def)
    qed (auto simp: Inr Some gm_create_inherent_def create_inherent_or_err_def decode_inherent_data_def)
  qed
qed (simp add: gm_create_inherent_def create_inherent_or_err_def decode_inherent_data_def)

lemma gm_required_iff:
  "gm_is_inherent_required st data = Ret (Inr q) \<longleftrightarrow>
     (\<exists>d. data = Inr d \<and> q = (case d of
        None \<Rightarrow> None
      | Some raw \<Rightarrow> if raw = [] \<and> gm_initialized st then None else Some GmInherentMissing))"
  by (auto simp: gm_is_inherent_required_def decode_inherent_data_def split: sum.splits option.splits)

lemma gm_created_is_inherent: "gm_create_inherent cfg st data = Ret (Some c) \<Longrightarrow> gm_is_inherent c"
  by (auto simp: gm_create_inherent_iff split: option.splits if_splits)

lemma gm_not_created:
  "gm_create_inherent cfg st data = Ret None \<Longrightarrow> gm_is_inherent_required st data = Ret (Inr None)"
  by (auto simp: gm_create_inherent_iff gm_required_iff split: option.splits if_splits)

lemma gm_created_required:
  "gm_create_inherent cfg st data = Ret (Some c) \<Longrightarrow>
    gm_is_inherent_required st data = Ret (Inr (Some GmInherentMissing))"
  by (auto simp: gm_create_inherent_iff gm_required_iff split: option.splits if_splits)

lemma gm_check_iff: "gm_check_inherent cfg st c data = Ret (Inr ()) \<longleftrightarrow> gm_create_inherent cfg st data = Ret (Some c)"
  by (cases "gm_create_inherent cfg st data") (auto simp: gm_check_inherent_def split: option.splits if_splits)

interpretation gm: strict_inherent "gm_create_inherent cfg" "gm_check_inherent cfg" gm_is_inherent
  gm_is_inherent_required "\<lambda>_ _. True" for cfg
  by unfold_locales (auto simp: gm_check_iff gm_not_created gm_created_required dest: gm_created_is_inherent)

section \<open>Effect of the changes\<close>

text \<open>A map of changes applied to a mapping.\<close>

definition apply_changes :: "('k \<Rightarrow> 'v option option) \<Rightarrow> ('k \<rightharpoonup> 'v) \<Rightarrow> ('k \<rightharpoonup> 'v)" where
  "apply_changes changes m = (\<lambda>k. case changes k of Some v \<Rightarrow> v | None \<Rightarrow> m k)"

lemma apply_changes_upd: "apply_changes (changes(k \<mapsto> v)) m = (apply_changes changes m)(k := v)"
  by (auto simp: apply_changes_def)

lemma apply_changes_none [simp]: "apply_changes Map.empty m = m"
  by (simp add: apply_changes_def)

lemma fold_fun_upd: "fold (\<lambda>(k, v) m. m(k := v)) kvs m = apply_changes (map_of (rev kvs)) m"
  by (induction kvs arbitrary: m rule: rev_induct) (auto simp: apply_changes_upd)

lemma register_change_step:
  "register_change cfg (k, v) (st\<lparr>gm_mapping := m\<rparr>, h) =
     (st\<lparr>gm_mapping := m(k := v)\<rparr>, on_governed_mapping_change cfg k v (m k) h)"
  by (simp add: register_change_def)

lemma register_change_fold:
  assumes "distinct (map fst changes)"
  shows "fold (register_change cfg) changes (st, h) =
    (st\<lparr>gm_mapping := apply_changes (map_of changes) (gm_mapping st)\<rparr>,
     fold (\<lambda>(k, v). on_governed_mapping_change cfg k v (gm_mapping st k)) changes h)"
  using assms
proof (induction changes rule: rev_induct)
  case (snoc x changes)
  obtain k v where x: "x = (k, v)" by fastforce
  have "k \<notin> fst ` set changes" using snoc.prems x by simp
  then have fresh: "map_of changes k = None" by (simp add: map_of_eq_None_iff)
  then have upd: "map_of (changes @ [x]) = (map_of changes)(k \<mapsto> v)"
    by (auto simp: x fun_eq_iff map_add_def split: option.split)
  have old: "apply_changes (map_of changes) (gm_mapping st) k = gm_mapping st k"
    using fresh by (simp add: apply_changes_def)
  have "distinct (map fst changes)" using snoc.prems by simp
  from snoc.IH [OF this] show ?case
    unfolding upd apply_changes_upd by (simp add: x register_change_step old del: fun_upd_apply)
qed simp

lemma bound_changes_id:
  assumes "btm_ok (acc @ raw)" and "bound_changes cfg raw acc = Ret (Inr changes)"
  shows "changes = acc @ raw"
  using assms
proof (induction cfg raw acc rule: bound_changes.induct)
  case (2 cfg key v raw acc)
  have ins: "btm_insert key w acc = acc @ [(key, w)]" for w
    using 2(2) by (intro btm_insert_append) (auto simp: btm_ok_def sorted_wrt_append)
  have ok: "btm_ok ((acc @ [(key, v)]) @ raw)" using 2(2) by simp
  have "bound_changes cfg raw (acc @ [(key, v)]) = Ret (Inr changes)"
    using 2(3)
    by (auto simp: run_simps bound_value_def bound_key_def try_insert_def ins split: option.splits if_splits sum.splits)
  moreover have "bound_key cfg key = Inr key"
    using 2(3) by (auto simp: run_simps bound_key_def split: option.splits if_splits sum.splits)
  moreover have "(case v of None \<Rightarrow> Inr None | Some w \<Rightarrow> try_bind (bound_value cfg key w) (\<lambda>w. Inr (Some w))) = Inr v"
    using 2(3) by (auto simp: run_simps bound_value_def split: option.splits if_splits sum.splits)
  ultimately show ?case using 2(1) [of v key "acc @ [(key, v)]"] ok by simp
qed simp

lemma gm_created:
  assumes "gm_create_inherent cfg st (Inr (Some raw)) = Ret r" and "btm_ok raw"
  shows "r = (if raw = [] \<and> gm_initialized st then None else Some (RegisterChanges raw))"
  using assms bound_changes_id [of "[]" raw cfg]
  by (auto simp: gm_create_inherent_iff split: if_splits)

lemma gm_diff_ok:
  assumes "btm_ok current" and "btm_ok new"
  shows "btm_ok (gm_diff current new) \<and>
    apply_changes (map_of (gm_diff current new)) (map_of current) = map_of new"
proof -
  let ?del = "\<lambda>kvs. fold (\<lambda>(key, _) changes. if map_of new key = None then btm_insert key None changes else changes)
    kvs ([] :: gm_inherent_data_v1)"
  let ?add = "\<lambda>kvs m. fold (\<lambda>(key, val) changes.
    if map_of current key \<noteq> Some val then btm_insert key (Some val) changes else changes) kvs m"
  have del: "btm_ok (?del kvs) \<and> map_of (?del kvs) k =
      (if k \<in> fst ` set kvs \<and> map_of new k = None then Some None else None)" for kvs k
    by (induction kvs rule: rev_induct) (auto simp: split_beta)
  have add: "btm_ok (?add kvs m) \<and> map_of (?add kvs m) k =
      (case map_of kvs k of
         Some v \<Rightarrow> if map_of current k \<noteq> Some v then Some (Some v) else map_of m k
       | None \<Rightarrow> map_of m k)" if "btm_ok m" "distinct (map fst kvs)" for kvs m k
    using that(2)
  proof (induction kvs rule: rev_induct)
    case (snoc x kvs)
    obtain key val where x: "x = (key, val)" by fastforce
    have "map_of kvs key = None" using snoc.prems x by (simp add: map_of_eq_None_iff)
    then show ?case using snoc by (auto simp: x map_add_def split: option.splits)
  qed (simp add: that(1))
  have eq: "gm_diff current new = ?add new (?del current)" by (simp add: gm_diff_def)
  have ok: "btm_ok (gm_diff current new)"
    unfolding eq using add [OF conjunct1 [OF del] btm_ok_distinct [OF assms(2)]] by blast
  have a: "map_of (gm_diff current new) k =
      (case map_of new k of
         Some v \<Rightarrow> if map_of current k \<noteq> Some v then Some (Some v) else map_of (?del current) k
       | None \<Rightarrow> map_of (?del current) k)" for k
    unfolding eq using add [OF conjunct1 [OF del] btm_ok_distinct [OF assms(2)]] by blast
  have d: "map_of (?del current) k = (if map_of current k \<noteq> None \<and> map_of new k = None then Some None else None)" for k
    using del [of current k] by (simp only: map_of_eq_None_iff) simp
  have "apply_changes (map_of (gm_diff current new)) (map_of current) k = map_of new k" for k
    unfolding apply_changes_def a d by (auto split: option.split)
  then show ?thesis using ok by auto
qed

section \<open>The map over a run of the chain\<close>

text \<open>The runtime API of the pallet, as the runtime implements it.\<close>

definition gm_api_of :: "gm_state \<Rightarrow> 'e gm_api" where
  "gm_api_of st = \<lparr>
     api_present = Inr True, api_pallet_version = Inr 1,
     api_main_chain_scripts = Inr (gm_main_chain_scripts st),
     api_is_initialized = Inr (gm_initialized st),
     api_current_state = Inr (map (\<lambda>k. (k, the (gm_mapping st k))) (sorted_list_of_set (dom (gm_mapping st))))\<rparr>"

definition gm_source_ok ::
  "('hash option \<Rightarrow> 'hash \<Rightarrow> bool) \<Rightarrow> (main_chain_scripts_v1 \<Rightarrow> 'hash \<Rightarrow> (bytes \<rightharpoonup> bytes)) \<Rightarrow> ('hash, 'e) gm_data_source \<Rightarrow> bool" where
  "gm_source_ok follows cardano ds \<longleftrightarrow>
     (\<forall>p h s m. follows p h \<longrightarrow> get_state_at_block ds h s = Inr m \<longrightarrow> btm_ok m \<and> map_of m = cardano s h) \<and>
     (\<forall>h h' s changes. follows (Some h) h' \<longrightarrow> get_mapping_changes ds (Some h) h' s = Inr changes \<longrightarrow>
        fold (\<lambda>(k, v) m. m(k := v)) changes (cardano s h) = cardano s h')"

text \<open>Inherents come first in a block and must succeed; a failing call of another kind leaves the
  storage as it was.\<close>

fun gm_inherents ::
  "('o, 'h) gm_config \<Rightarrow> nat \<Rightarrow> 'o \<Rightarrow> gm_call list \<Rightarrow> gm_state \<times> 'h \<Rightarrow> gm_error + gm_state \<times> 'h" where
  "gm_inherents cfg n origin [] s = Inr s"
| "gm_inherents cfg n origin (c # calls) s = try_bind (gm_dispatch cfg n origin c s) (gm_inherents cfg n origin calls)"

definition gm_extrinsic ::
  "('o, 'h) gm_config \<Rightarrow> nat \<Rightarrow> 'o \<times> gm_call \<Rightarrow> gm_state \<times> 'h \<Rightarrow> gm_state \<times> 'h" where
  "gm_extrinsic cfg n = (\<lambda>(origin, c) s. case gm_dispatch cfg n origin c s of Inr s' \<Rightarrow> s' | Inl _ \<Rightarrow> s)"

text \<open>A run: the block number, the main chain block referenced by the block, the state after it. Every
  block passes the verification of a node with a data source of its own, one of \<open>S\<close>, refers to a main chain block
  that may follow the one its parent refers to, and holds any extrinsics a signed
  or privileged origin may submit.\<close>

inductive gm_run ::
  "('o, 'h) gm_config \<Rightarrow> ('hash, 'e) gm_data_source set \<Rightarrow> ('hash option \<Rightarrow> 'hash \<Rightarrow> bool) \<Rightarrow> nat \<Rightarrow> 'hash option \<Rightarrow> gm_state \<times> 'h \<Rightarrow> bool"
  for cfg S follows where
  genesis: "gm_run cfg S follows 0 None (gm_genesis_build scripts gm_empty, h)"
| block: "gm_run cfg S follows n parent_mc_hash (st, h) \<Longrightarrow> ds \<in> S \<Longrightarrow> follows parent_mc_hash mc_hash \<Longrightarrow>
    gm_idp_new (gm_api_of st) mc_hash parent_mc_hash ds = Inr idp \<Longrightarrow>
    list_all gm_is_inherent calls \<Longrightarrow>
    verify_inherents (gm_check_inherent cfg) gm_is_inherent gm_is_inherent_required st
      (gm_provide_inherent_data idp) calls \<Longrightarrow>
    gm_create_inherent cfg st (gm_provide_inherent_data idp) = Ret r \<Longrightarrow>
    gm_inherents cfg (Suc n) origin calls (st, h) = Inr s1 \<Longrightarrow>
    list_all (\<lambda>(o', c). \<not> gm_none_origin cfg o') extrinsics \<Longrightarrow>
    gm_run cfg S follows (Suc n) (Some mc_hash) (fold (gm_extrinsic cfg (Suc n)) extrinsics s1)"

definition gm_inv ::
  "(main_chain_scripts_v1 \<Rightarrow> 'hash \<Rightarrow> (bytes \<rightharpoonup> bytes)) \<Rightarrow> nat \<Rightarrow> 'hash option \<Rightarrow> gm_state \<Rightarrow> bool" where
  "gm_inv cardano n mc st \<longleftrightarrow>
     finite (dom (gm_mapping st)) \<and>
     (case last_update_block st of None \<Rightarrow> True | Some b \<Rightarrow> b \<le> n) \<and>
     (gm_initialized st \<longrightarrow>
        (\<exists>s h. gm_main_chain_scripts st = Some s \<and> mc = Some h \<and> gm_mapping st = cardano s h))"

lemma map_of_sorted_dom:
  assumes "finite (dom m)"
  shows "map_of (map (\<lambda>k. (k, the (m k))) (sorted_list_of_set (dom m))) = m"
    and "btm_ok (map (\<lambda>k. (k, the (m k))) (sorted_list_of_set (dom m)))"
  using assms by (auto simp: fun_eq_iff map_of_map_keys btm_ok_def comp_def)

text \<open>The data an active provider hands to the pallet takes the pallet's mapping to the one on Cardano.\<close>

lemma gm_idp_data:
  assumes src: "gm_source_ok follows cardano ds" "follows parent mc_hash" and inv: "gm_inv cardano n parent st"
    and idp: "gm_idp_new (gm_api_of st) mc_hash parent ds = Inr idp"
  shows "case gm_main_chain_scripts st of
      None \<Rightarrow> idp = GmInert
    | Some s \<Rightarrow> \<exists>raw. idp = GmActiveV1 raw \<and> btm_ok raw \<and>
        apply_changes (map_of raw) (gm_mapping st) = cardano s mc_hash"
proof (cases "gm_main_chain_scripts st")
  case None
  then show ?thesis using idp by (simp add: gm_idp_new_def gm_api_of_def gm_idp_new_v1_def)
next
  case (Some s)
  show ?thesis
  proof (cases "gm_initialized st")
    case True
    then obtain h where h: "parent = Some h" "gm_mapping st = cardano s h"
      using inv Some by (auto simp: gm_inv_def)
    obtain changes where changes: "get_mapping_changes ds parent mc_hash s = Inr changes"
      and raw: "idp = GmActiveV1 (fold (\<lambda>(key, val). btm_insert key val) changes [])"
      using idp True Some by (auto simp: gm_idp_new_def gm_api_of_def gm_idp_new_v1_def)
    have "fold (\<lambda>(k, v) m. m(k := v)) changes (cardano s h) = cardano s mc_hash"
      using src changes unfolding gm_source_ok_def h(1) by blast
    then have "apply_changes (map_of (rev changes)) (gm_mapping st) = cardano s mc_hash"
      by (simp add: fold_fun_upd h(2))
    then show ?thesis using Some raw
      by (simp add: btm_ok_fold_insert map_of_fold_insert fold_upd_snoc)
  next
    case False
    let ?cur = "map (\<lambda>k. (k, the (gm_mapping st k))) (sorted_list_of_set (dom (gm_mapping st)))"
    have fin: "finite (dom (gm_mapping st))" using inv by (simp add: gm_inv_def)
    obtain new where new: "get_state_at_block ds mc_hash s = Inr new" "idp = GmActiveV1 (gm_diff ?cur new)"
      using idp False Some by (auto simp: gm_idp_new_def gm_api_of_def gm_idp_new_v1_def)
    have "btm_ok new \<and> map_of new = cardano s mc_hash"
      using src new(1) unfolding gm_source_ok_def by blast
    then show ?thesis
      using gm_diff_ok [OF map_of_sorted_dom(2) [OF fin], of new] Some new(2)
      by (simp add: map_of_sorted_dom(1) [OF fin])
  qed
qed

lemma gm_inherents_once:
  assumes "set calls = {RegisterChanges raw}" and "btm_ok raw"
    and "gm_inherents cfg n origin calls (st, h) = Inr (st1, h1)"
  shows "gm_main_chain_scripts st \<noteq> None \<and>
    st1 = st\<lparr>last_update_block := Some n, gm_initialized := True,
      gm_mapping := apply_changes (map_of raw) (gm_mapping st)\<rparr> \<and>
    h1 = fold (\<lambda>(k, v). on_governed_mapping_change cfg k v (gm_mapping st k)) raw h"
proof (cases calls)
  case (Cons c rest)
  then have c: "c = RegisterChanges raw" using assms(1) by auto
  let ?st1 = "st\<lparr>last_update_block := Some n, gm_initialized := True,
      gm_mapping := apply_changes (map_of raw) (gm_mapping st)\<rparr>"
  let ?h1 = "fold (\<lambda>(k, v). on_governed_mapping_change cfg k v (gm_mapping st k)) raw h"
  have first: "gm_dispatch cfg n origin c (st, h) = Inr s' \<Longrightarrow>
      s' = (?st1, ?h1) \<and> gm_main_chain_scripts st \<noteq> None" for s'
    by (auto simp: c register_changes_def Let_def register_change_fold [OF btm_ok_distinct [OF assms(2)]])
  have again: "\<exists>e. gm_dispatch cfg n origin c (?st1, ?h1) = Inl e"
    by (auto simp: c register_changes_def Let_def ensure_def)
  obtain s' where s': "gm_dispatch cfg n origin c (st, h) = Inr s'" "gm_inherents cfg n origin rest s' = Inr (st1, h1)"
    using assms(3) Cons by auto
  have "rest = []"
  proof (rule ccontr)
    assume "rest \<noteq> []"
    then obtain rest' where "rest = c # rest'" using assms(1) Cons c by (cases rest) auto
    then show False using s' first [OF s'(1)] again by auto
  qed
  then show ?thesis using s' first [OF s'(1)] by simp
qed (use assms(1) in simp)

lemma gm_block_effect:
  assumes src: "gm_source_ok follows cardano ds" "follows parent mc_hash" and inv: "gm_inv cardano n parent st"
    and idp: "gm_idp_new (gm_api_of st) mc_hash parent ds = Inr idp"
    and inh: "list_all gm_is_inherent calls"
    and ver: "verify_inherents (gm_check_inherent cfg) gm_is_inherent gm_is_inherent_required st
      (gm_provide_inherent_data idp) calls"
    and created: "gm_create_inherent cfg st (gm_provide_inherent_data idp) = Ret r"
    and run: "gm_inherents cfg n' origin calls (st, h) = Inr (st1, h1)" and s: "gm_main_chain_scripts st = Some s"
  shows "\<exists>raw. idp = GmActiveV1 raw \<and> gm_initialized st1 \<and> gm_main_chain_scripts st1 = Some s \<and>
    gm_mapping st1 = cardano s mc_hash \<and>
    h1 = fold (\<lambda>(k, v). on_governed_mapping_change cfg k v (gm_mapping st k)) raw h \<and>
    last_update_block st1 \<in> {last_update_block st, Some n'}"
proof -
  obtain raw where raw: "idp = GmActiveV1 raw" "btm_ok raw"
      "apply_changes (map_of raw) (gm_mapping st) = cardano s mc_hash"
    using gm_idp_data [OF src inv idp] s by auto
  have calls: "set calls = set_option r"
  proof -
    have "filter gm_is_inherent calls = calls" using inh by (induction calls) auto
    with gm.accepted_block_honest [OF TrueI ver created] show ?thesis by simp
  qed
  have r: "r = (if raw = [] \<and> gm_initialized st then None else Some (RegisterChanges raw))"
    using created raw by (intro gm_created) simp_all
  show ?thesis
  proof (cases "raw = [] \<and> gm_initialized st")
    case True
    then have "calls = []" using calls r by simp
    then show ?thesis using True run raw s by simp
  next
    case False
    then have "set calls = {RegisterChanges raw}" using calls r by simp
    from gm_inherents_once [OF this raw(2) run] show ?thesis using raw s by simp
  qed
qed

lemma gm_extrinsics_inv:
  assumes "list_all (\<lambda>(o', c). \<not> gm_none_origin cfg o') extrinsics" and "gm_inv cardano n mc (fst s)"
  shows "gm_inv cardano n mc (fst (fold (gm_extrinsic cfg n) extrinsics s))"
  using assms
proof (induction extrinsics arbitrary: s)
  case (Cons x extrinsics)
  obtain origin c where x: "x = (origin, c)" by fastforce
  have "gm_inv cardano n mc (fst (gm_extrinsic cfg n x s))"
    using Cons.prems
    by (cases c; cases s)
       (auto simp: x gm_extrinsic_def register_changes_def gm_set_main_chain_scripts_def ensure_def gm_inv_def)
  then show ?case using Cons by simp
qed simp

lemma gm_run_inv:
  assumes src: "\<And>ds. ds \<in> S \<Longrightarrow> gm_source_ok follows cardano ds" and "gm_run cfg S follows n mc s"
  shows "gm_inv cardano n mc (fst s)"
  using assms(2)
proof induction
  case (genesis scripts h)
  show ?case by (simp add: gm_inv_def gm_genesis_build_def gm_empty_def)
next
  case (block n parent st h ds mc_hash idp calls r origin s1 extrinsics)
  note src = src [OF block.hyps(2)] block.hyps(3)
  have inv: "gm_inv cardano n parent st" using block.IH by simp
  obtain st1 h1 where s1: "s1 = (st1, h1)" by fastforce
  have "gm_inv cardano (Suc n) (Some mc_hash) st1"
  proof (cases "gm_main_chain_scripts st")
    case None
    then have "idp = GmInert" using gm_idp_data [OF src inv block.hyps(4)] by simp
    then have "r = None" using block.hyps(7) by (simp add: gm_create_inherent_iff)
    moreover have "filter gm_is_inherent calls = calls" using block.hyps(5) by (induction calls) auto
    ultimately have "calls = []" using gm.accepted_block_honest [OF TrueI block.hyps(6,7)] by simp
    then have "st1 = st" using block.hyps(8) s1 by simp
    moreover have "\<not> gm_initialized st" using inv None by (auto simp: gm_inv_def)
    ultimately show ?thesis using inv by (auto simp: gm_inv_def split: option.splits)
  next
    case (Some s)
    from gm_block_effect [OF src inv block.hyps(4-7) block.hyps(8) [unfolded s1] Some]
    have eff: "gm_main_chain_scripts st1 = Some s" "gm_mapping st1 = cardano s mc_hash"
      "last_update_block st1 \<in> {last_update_block st, Some (Suc n)}" by blast+
    have "finite (dom (cardano s mc_hash))"
    proof -
      obtain raw where "apply_changes (map_of raw) (gm_mapping st) = cardano s mc_hash"
        using gm_idp_data [OF src inv block.hyps(4)] Some by auto
      then have "dom (cardano s mc_hash) \<subseteq> fst ` set raw \<union> dom (gm_mapping st)"
        by (auto simp: apply_changes_def fun_eq_iff map_of_eq_None_iff split: option.splits)
      then show ?thesis using inv by (auto simp: gm_inv_def intro: finite_subset)
    qed
    then show ?thesis using inv eff by (auto simp: gm_inv_def split: option.splits)
  qed
  then show ?case using gm_extrinsics_inv [OF block.hyps(9), where s = s1] by (simp add: s1)
qed

section \<open>Properties\<close>

text \<open>C16: along every run of the chain, an initialised Governed Map pallet holds exactly the mapping
  that is on Cardano, under the configured scripts, at the main chain block its latest block refers to,
  for every key. Changes of the scripts and extrinsics of any origin are part of the run.\<close>

theorem governed_map_mirrors_cardano:
  assumes "\<forall>ds \<in> S. gm_source_ok follows cardano ds" and "gm_run cfg S follows n mc (st, h)" and "gm_initialized st"
  shows "\<exists>s b. gm_main_chain_scripts st = Some s \<and> mc = Some b \<and> (\<forall>key. get_key_value key st = cardano s b key)"
  using gm_run_inv [OF bspec [OF assms(1)] assms(2)] assms(3) by (auto simp: gm_inv_def get_key_value_def)

text \<open>An accepted block of any author brings the pallet up to date. When the scripts are set, after
  the inherents of the block the pallet is initialised and its mapping is the one on Cardano at the
  referenced block, and the handler has been called once for every change of the inherent data, in
  order, with the value the pallet held before.\<close>

theorem governed_map_accepted_block:
  assumes "\<forall>ds \<in> S. gm_source_ok follows cardano ds" and "gm_run cfg S follows n parent (st, h)" and "ds \<in> S" and "follows parent mc_hash"
    and "gm_idp_new (gm_api_of st) mc_hash parent ds = Inr idp" and "list_all gm_is_inherent calls"
    and "verify_inherents (gm_check_inherent cfg) gm_is_inherent gm_is_inherent_required st
      (gm_provide_inherent_data idp) calls"
    and "gm_create_inherent cfg st (gm_provide_inherent_data idp) = Ret r"
    and "gm_inherents cfg n' origin calls (st, h) = Inr (st1, h1)" and "gm_main_chain_scripts st = Some s"
  shows "gm_initialized st1 \<and> gm_mapping st1 = cardano s mc_hash \<and>
    (\<exists>raw. idp = GmActiveV1 raw \<and>
      h1 = fold (\<lambda>(k, v). on_governed_mapping_change cfg k v (gm_mapping st k)) raw h)"
proof -
  have "gm_inv cardano n parent st" using gm_run_inv [OF bspec [OF assms(1)] assms(2)] by simp
  from gm_block_effect [OF bspec [OF assms(1,3)] assms(4) this assms(5-10)] show ?thesis by blast
qed

definition demo_gm_config :: "(bool, (bytes \<times> bytes option \<times> bytes option) list) gm_config" where
  "demo_gm_config = \<lparr>max_changes = 4, max_key_length = 8, max_value_length = 8,
     on_governed_mapping_change = (\<lambda>k v v' log. log @ [(k, v, v')]), gm_scripts_origin = Not, gm_none_origin = id\<rparr>"

definition demo_cardano :: "main_chain_scripts_v1 \<Rightarrow> u8 \<Rightarrow> (bytes \<rightharpoonup> bytes)" where
  "demo_cardano s b = [[1] \<mapsto> [b]]"

definition demo_gm_source :: "(u8, unit) gm_data_source" where
  "demo_gm_source = \<lparr>get_state_at_block = (\<lambda>b s. Inr [([1], [b])]),
     get_mapping_changes = (\<lambda>a b s. Inr [([1], None), ([1], Some [b])])\<rparr>"

definition demo_gm_scripts :: main_chain_scripts_v1 where
  "demo_gm_scripts = \<lparr>gm_validator_address = [7], gm_asset_policy_id = [8]\<rparr>"

definition demo_gm_start :: gm_state where
  "demo_gm_start = gm_genesis_build (Some demo_gm_scripts) gm_empty"

lemma demo_gm_source_ok: "gm_source_ok (\<lambda>_ _. True) demo_cardano demo_gm_source"
  by (simp add: gm_source_ok_def demo_cardano_def demo_gm_source_def)

lemma demo_gm_idp:
  "gm_idp_new (gm_api_of demo_gm_start) 5 None demo_gm_source = Inr (GmActiveV1 [([1], Some [5])])"
  by (simp add: gm_idp_new_def gm_idp_new_v1_def gm_api_of_def demo_gm_source_def demo_gm_start_def
      gm_genesis_build_def gm_empty_def gm_diff_def)

lemma demo_gm_created:
  "gm_create_inherent demo_gm_config demo_gm_start (gm_provide_inherent_data (GmActiveV1 [([1], Some [5])])) =
     Ret (Some (RegisterChanges [([1], Some [5])]))"
  by (simp add: gm_create_inherent_iff demo_gm_config_def demo_gm_start_def gm_genesis_build_def gm_empty_def
      bound_key_def bound_value_def try_insert_def)

lemma demo_gm_verified:
  "verify_inherents (gm_check_inherent demo_gm_config) gm_is_inherent gm_is_inherent_required demo_gm_start
     (gm_provide_inherent_data (GmActiveV1 [([1], Some [5])])) [RegisterChanges [([1], Some [5])]]"
  by (rule gm.honest_block_accepted [OF TrueI]) (simp only: honest_calls_def demo_gm_created exec_map.simps option.case)

lemma demo_gm_registered:
  "gm_inherents demo_gm_config (Suc 0) True [RegisterChanges [([1], Some [5])]] (demo_gm_start, []) =
     Inr (demo_gm_start\<lparr>last_update_block := Some 1, gm_initialized := True, gm_mapping := [[1] \<mapsto> [5]]\<rparr>,
       [([1], Some [5], None)])"
  by (simp add: register_changes_def register_change_def demo_gm_config_def demo_gm_start_def
      gm_genesis_build_def gm_empty_def ensure_def)

lemma demo_gm_run0: "gm_run demo_gm_config {demo_gm_source} (\<lambda>_ _. True) 0 None (demo_gm_start, [])"
  unfolding demo_gm_start_def by (rule gm_run.genesis)

theorem governed_map_mirrors_cardano_witness:
  "\<exists>s b. gm_main_chain_scripts demo_gm_start = Some s \<and> Some (5 :: u8) = Some b \<and>
     (\<forall>key. get_key_value key (demo_gm_start\<lparr>last_update_block := Some 1, gm_initialized := True,
        gm_mapping := [[1] \<mapsto> [5]]\<rparr>) = demo_cardano s b key)"
proof -
  have "gm_run demo_gm_config {demo_gm_source} (\<lambda>_ _. True) (Suc 0) (Some 5)
      (fold (gm_extrinsic demo_gm_config (Suc 0)) [] (demo_gm_start\<lparr>last_update_block := Some 1,
        gm_initialized := True, gm_mapping := [[1] \<mapsto> [5]]\<rparr>, [([1], Some [5], None)]))"
    by (rule gm_run.block [OF demo_gm_run0 _ _ demo_gm_idp _ demo_gm_verified demo_gm_created demo_gm_registered]) simp_all
  from governed_map_mirrors_cardano [OF _ this [unfolded fold.simps id_apply]]
  show ?thesis by (simp add: demo_gm_source_ok)
qed

theorem governed_map_accepted_block_witness:
  "gm_initialized (demo_gm_start\<lparr>last_update_block := Some 1, gm_initialized := True,
      gm_mapping := [[1] \<mapsto> [5]]\<rparr>) \<and> [[1] \<mapsto> [5]] = demo_cardano demo_gm_scripts 5"
  using governed_map_accepted_block [OF _ demo_gm_run0 _ _ demo_gm_idp _ demo_gm_verified
      demo_gm_created demo_gm_registered, of demo_cardano demo_gm_scripts]
  by (simp add: demo_gm_start_def gm_genesis_build_def demo_gm_source_ok)

end
