(* ===== verification/Bridge.thy ===== *)
theory Bridge
  imports Inherents Domain
begin

text \<open>
  The token bridge: \<open>toolkit/bridge/pallet/src/lib.rs\<close> and the inherent data provider of
  \<open>toolkit/bridge/primitives/src/lib.rs\<close>.

  The transfer handler of the runtime is a parameter acting on a state \<open>'h\<close> of its own. The data source
  is a parameter that may keep a cache \<open>'s\<close> between queries. The locale \<open>bridge_source\<close> states what the
  pallet relies on: a query returns the transfers of the next ledger entries after the checkpoint, and
  a checkpoint after the last of them. Its client lemma is that a chain handles every entry once.
\<close>

section \<open>Pallet\<close>

record bridge_scripts =
  token_policy_id :: bytes
  token_asset_name :: bytes
  illiquid_circulation_supply_validator_address :: bytes

datatype 'r bridge_transfer =
    UserTransfer (token_amount: u64) (recipient: 'r)
  | ReserveTransfer (token_amount: u64)
  | InvalidTransfer (token_amount: u64) (transfer_utxo_id: utxo_id)

datatype bridge_data_checkpoint = CheckpointUtxo utxo_id | CheckpointBlock u32

record 'r token_bridge_transfers =
  tb_transfers :: "'r bridge_transfer list"
  tb_data_checkpoint :: bridge_data_checkpoint

record bridge_state =
  br_main_chain_scripts :: "bridge_scripts option"
  br_data_checkpoint :: "bridge_data_checkpoint option"

record ('origin, 'r, 'h) bridge_config =
  governance_origin :: "'origin \<Rightarrow> bool"
  br_none_origin :: "'origin \<Rightarrow> bool"
  handle_incoming_transfer :: "'r bridge_transfer \<Rightarrow> 'h \<Rightarrow> 'h"
  max_transfers_per_block :: u32

datatype bridge_inherent_error = BrInherentRequired | BrInherentNotExpected | BrIncorrectInherent

datatype bridge_error = BrBadOrigin

datatype 'r bridge_call =
    HandleTransfers "'r bridge_transfer list" bridge_data_checkpoint
  | BrSetMainChainScripts bridge_scripts bridge_data_checkpoint

definition br_genesis_build :: "bridge_scripts option \<Rightarrow> utxo_id option \<Rightarrow> bridge_state" where
  "br_genesis_build scripts initial_checkpoint =
     \<lparr>br_main_chain_scripts = scripts, br_data_checkpoint = map_option CheckpointUtxo initial_checkpoint\<rparr>"

definition handle_transfers ::
  "('o, 'r, 'h) bridge_config \<Rightarrow> 'o \<Rightarrow> 'r bridge_transfer list \<Rightarrow> bridge_data_checkpoint \<Rightarrow>
   bridge_state \<times> 'h \<Rightarrow> bridge_error + bridge_state \<times> 'h" where
  "handle_transfers cfg origin transfers data_checkpoint = (\<lambda>(st, h).
     try_bind (ensure (br_none_origin cfg origin) BrBadOrigin) (\<lambda>_.
       Inr (st\<lparr>br_data_checkpoint := Some data_checkpoint\<rparr>, fold (handle_incoming_transfer cfg) transfers h)))"

definition br_set_main_chain_scripts ::
  "('o, 'r, 'h) bridge_config \<Rightarrow> 'o \<Rightarrow> bridge_scripts \<Rightarrow> bridge_data_checkpoint \<Rightarrow>
   bridge_state \<times> 'h \<Rightarrow> bridge_error + bridge_state \<times> 'h" where
  "br_set_main_chain_scripts cfg origin new_scripts data_checkpoint = (\<lambda>(st, h).
     try_bind (ensure (governance_origin cfg origin) BrBadOrigin) (\<lambda>_.
       Inr (st\<lparr>br_main_chain_scripts := Some new_scripts, br_data_checkpoint := Some data_checkpoint\<rparr>, h)))"

fun br_dispatch ::
  "('o, 'r, 'h) bridge_config \<Rightarrow> 'o \<Rightarrow> 'r bridge_call \<Rightarrow> bridge_state \<times> 'h \<Rightarrow> bridge_error + bridge_state \<times> 'h" where
  "br_dispatch cfg origin (HandleTransfers ts c) s = handle_transfers cfg origin ts c s"
| "br_dispatch cfg origin (BrSetMainChainScripts scripts c) s = br_set_main_chain_scripts cfg origin scripts c s"

definition br_decode_inherent_data ::
  "'r token_bridge_transfers inherent_data \<Rightarrow> 'r token_bridge_transfers option exec" where
  "br_decode_inherent_data data = (case data of Inr r \<Rightarrow> Ret r | Inl _ \<Rightarrow> Panic)"

definition br_create_inherent ::
  "('o, 'r, 'h) bridge_config \<Rightarrow> 's \<Rightarrow> 'r token_bridge_transfers inherent_data \<Rightarrow> 'r bridge_call option exec" where
  "br_create_inherent cfg st data =
     exec_bind (br_decode_inherent_data data) (\<lambda>r.
     case r of
       None \<Rightarrow> Ret None
     | Some d \<Rightarrow>
         if length (tb_transfers d) \<le> unat (max_transfers_per_block cfg)
         then Ret (Some (HandleTransfers (tb_transfers d) (tb_data_checkpoint d)))
         else Panic)"

definition br_check_inherent ::
  "('o, 'r, 'h) bridge_config \<Rightarrow> 's \<Rightarrow> 'r bridge_call \<Rightarrow> 'r token_bridge_transfers inherent_data \<Rightarrow>
   (bridge_inherent_error + unit) exec" where
  "br_check_inherent cfg st call data =
     exec_map (\<lambda>r. case r of
         None \<Rightarrow> Inl BrInherentNotExpected
       | Some expected_call \<Rightarrow> if call \<noteq> expected_call then Inl BrIncorrectInherent else Inr ())
       (br_create_inherent cfg st data)"

fun br_is_inherent :: "'r bridge_call \<Rightarrow> bool" where
  "br_is_inherent (HandleTransfers ts c) = True"
| "br_is_inherent _ = False"

definition br_is_inherent_required ::
  "'s \<Rightarrow> 'r token_bridge_transfers inherent_data \<Rightarrow> (bridge_inherent_error + bridge_inherent_error option) exec" where
  "br_is_inherent_required st data =
     exec_map (\<lambda>r. case r of None \<Rightarrow> Inr None | Some _ \<Rightarrow> Inr (Some BrInherentRequired))
       (br_decode_inherent_data data)"

section \<open>Inherent data provider\<close>

record 'e bridge_api =
  br_api_version :: "'e + u32 option"
  br_api_max_transfers :: "'e + u32"
  br_api_last_checkpoint :: "'e + bridge_data_checkpoint option"
  br_api_scripts :: "'e + bridge_scripts option"

datatype 'r bridge_idp = BrInert | BrActiveV1 "'r token_bridge_transfers"

datatype 'e bridge_idp_error = BrApiError 'e | BrDataSourceError 'e | BrUnsupportedPalletVersion u32 u32

type_synonym ('r, 'hash, 'e, 's) bridge_query =
  "bridge_scripts \<Rightarrow> bridge_data_checkpoint \<Rightarrow> u32 \<Rightarrow> 'hash \<Rightarrow> 's \<Rightarrow>
   ('e + 'r bridge_transfer list \<times> bridge_data_checkpoint) \<times> 's"

definition br_idp_new_v1 ::
  "'e bridge_api \<Rightarrow> 'hash \<Rightarrow> ('r, 'hash, 'e, 's) bridge_query \<Rightarrow> 's \<Rightarrow> ('e bridge_idp_error + 'r bridge_idp) \<times> 's" where
  "br_idp_new_v1 api current_mc_hash get_transfers c =
     (case try_bind (map_err BrApiError (br_api_max_transfers api)) (\<lambda>max_transfers.
           try_bind (map_err BrApiError (br_api_last_checkpoint api)) (\<lambda>last_checkpoint.
           try_bind (map_err BrApiError (br_api_scripts api)) (\<lambda>scripts.
             Inr (max_transfers, last_checkpoint, scripts)))) of
        Inl e \<Rightarrow> (Inl e, c)
      | Inr (max_transfers, Some last_checkpoint, Some main_chain_scripts) \<Rightarrow>
          (case get_transfers main_chain_scripts last_checkpoint max_transfers current_mc_hash c of
             (Inl e, c') \<Rightarrow> (Inl (BrDataSourceError e), c')
           | (Inr (transfers, new_checkpoint), c') \<Rightarrow>
               (Inr (BrActiveV1 \<lparr>tb_transfers = transfers, tb_data_checkpoint = new_checkpoint\<rparr>), c'))
      | Inr _ \<Rightarrow> (Inr BrInert, c))"

definition br_idp_new ::
  "'e bridge_api \<Rightarrow> 'hash \<Rightarrow> ('r, 'hash, 'e, 's) bridge_query \<Rightarrow> 's \<Rightarrow> ('e bridge_idp_error + 'r bridge_idp) \<times> 's" where
  "br_idp_new api current_mc_hash get_transfers c =
     (case br_api_version api of
        Inl e \<Rightarrow> (Inl (BrApiError e), c)
      | Inr None \<Rightarrow> (Inr BrInert, c)
      | Inr (Some pallet_version) \<Rightarrow>
          if pallet_version = 1 then br_idp_new_v1 api current_mc_hash get_transfers c
          else (Inl (BrUnsupportedPalletVersion pallet_version 1), c))"

fun br_provide_inherent_data :: "'r bridge_idp \<Rightarrow> 'r token_bridge_transfers inherent_data" where
  "br_provide_inherent_data BrInert = Inr None"
| "br_provide_inherent_data (BrActiveV1 data) = Inr (Some data)"

text \<open>The runtime API of the pallet, as the runtime implements it.\<close>

definition br_api_of :: "('o, 'r, 'h) bridge_config \<Rightarrow> bridge_state \<Rightarrow> 'e bridge_api" where
  "br_api_of cfg st = \<lparr>br_api_version = Inr (Some 1),
     br_api_max_transfers = Inr (max_transfers_per_block cfg),
     br_api_last_checkpoint = Inr (br_data_checkpoint st), br_api_scripts = Inr (br_main_chain_scripts st)\<rparr>"

section \<open>The inherent is strict\<close>

lemma br_create_inherent_iff:
  "br_create_inherent cfg st data = Ret r \<longleftrightarrow>
     (\<exists>d. data = Inr d \<and> (case d of
        None \<Rightarrow> r = None
      | Some t \<Rightarrow> length (tb_transfers t) \<le> unat (max_transfers_per_block cfg) \<and>
          r = Some (HandleTransfers (tb_transfers t) (tb_data_checkpoint t))))"
  by (auto simp: br_create_inherent_def br_decode_inherent_data_def split: sum.splits option.splits if_splits)

lemma br_required_iff:
  "br_is_inherent_required st data = Ret (Inr q) \<longleftrightarrow>
     (\<exists>d. data = Inr d \<and> q = map_option (\<lambda>_. BrInherentRequired) d)"
  by (auto simp: br_is_inherent_required_def br_decode_inherent_data_def split: sum.splits option.splits)

lemma br_check_iff: "br_check_inherent cfg st c data = Ret (Inr ()) \<longleftrightarrow> br_create_inherent cfg st data = Ret (Some c)"
  by (cases "br_create_inherent cfg st data") (auto simp: br_check_inherent_def split: option.splits if_splits)

interpretation br: strict_inherent "br_create_inherent cfg" "br_check_inherent cfg" br_is_inherent
  br_is_inherent_required "\<lambda>_ _. True" for cfg
  by unfold_locales (auto simp: br_check_iff br_create_inherent_iff br_required_iff split: option.splits)

section \<open>Runs of the chain\<close>

fun br_inherents ::
  "('o, 'r, 'h) bridge_config \<Rightarrow> 'o \<Rightarrow> 'r bridge_call list \<Rightarrow> bridge_state \<times> 'h \<Rightarrow> bridge_error + bridge_state \<times> 'h" where
  "br_inherents cfg origin [] s = Inr s"
| "br_inherents cfg origin (c # calls) s = try_bind (br_dispatch cfg origin c s) (br_inherents cfg origin calls)"

text \<open>A sequence of blocks that refer to the main chain blocks \<open>hashes\<close>. Every block passes the
  verification of a node with its own data source, and holds the inherent of the pallet at most once.\<close>

inductive br_run ::
  "('o, 'r, 'h) bridge_config \<Rightarrow> ('r, 'hash, 'e, 's) bridge_query \<Rightarrow> bridge_state \<times> 'h \<times> 's \<Rightarrow> 'hash list \<Rightarrow>
   bridge_state \<times> 'h \<times> 's \<Rightarrow> bool"
  for cfg get_transfers where
  start: "br_run cfg get_transfers s [] s"
| block: "br_idp_new (br_api_of cfg st) mc_hash get_transfers c = (Inr idp, c1) \<Longrightarrow>
    list_all br_is_inherent calls \<Longrightarrow> length calls \<le> 1 \<Longrightarrow>
    verify_inherents (br_check_inherent cfg) br_is_inherent br_is_inherent_required st
      (br_provide_inherent_data idp) calls \<Longrightarrow>
    br_create_inherent cfg st (br_provide_inherent_data idp) = Ret r \<Longrightarrow>
    br_inherents cfg origin calls (st, h) = Inr (st1, h1) \<Longrightarrow>
    br_run cfg get_transfers (st1, h1, c1) hashes s' \<Longrightarrow>
    br_run cfg get_transfers (st, h, c) (mc_hash # hashes) s'"

lemma br_block_effect:
  assumes idp: "br_idp_new (br_api_of cfg st) mc_hash get_transfers c = (Inr idp, c1)"
    and calls: "list_all br_is_inherent calls" "length calls \<le> 1"
    and ver: "verify_inherents (br_check_inherent cfg) br_is_inherent br_is_inherent_required st
      (br_provide_inherent_data idp) calls"
    and created: "br_create_inherent cfg st (br_provide_inherent_data idp) = Ret r"
    and run: "br_inherents cfg origin calls (st, h) = Inr (st1, h1)"
    and st: "br_main_chain_scripts st = Some scripts" "br_data_checkpoint st = Some cp"
  shows "\<exists>ts cp'. get_transfers scripts cp (max_transfers_per_block cfg) mc_hash c = (Inr (ts, cp'), c1) \<and>
    br_main_chain_scripts st1 = Some scripts \<and> br_data_checkpoint st1 = Some cp' \<and>
    h1 = fold (handle_incoming_transfer cfg) ts h"
proof -
  obtain ts cp' where q: "get_transfers scripts cp (max_transfers_per_block cfg) mc_hash c = (Inr (ts, cp'), c1)"
    and idp': "idp = BrActiveV1 \<lparr>tb_transfers = ts, tb_data_checkpoint = cp'\<rparr>"
    using idp st by (auto simp: br_idp_new_def br_idp_new_v1_def br_api_of_def split: prod.splits sum.splits)
  have r: "r = Some (HandleTransfers ts cp')" using created by (simp add: br_create_inherent_iff idp')
  have "filter br_is_inherent calls = calls" using calls(1) by (induction calls) auto
  with br.accepted_block_honest [OF TrueI ver created] r have "set calls = {HandleTransfers ts cp'}" by simp
  with calls(2) have "calls = [HandleTransfers ts cp']" by (cases calls) auto
  then show ?thesis using q run st by (auto simp: handle_transfers_def)
qed

lemma map_filter_append: "List.map_filter f (xs @ ys) = List.map_filter f xs @ List.map_filter f ys"
  by (simp add: List.map_filter_def)

text \<open>The contract of a data source. \<open>ledger\<close> lists the entries at the bridge address in the order of the
  main chain, \<open>below\<close> counts the entries a checkpoint has passed and \<open>upto\<close> those in the main chain up to
  a block; a query made with a checkpoint that is not past the block returns the transfers of the next
  entries, as many as there are and fit the limit, and a checkpoint just after them.\<close>

locale bridge_source =
  fixes get_transfers :: "('r, 'hash, 'e, 's) bridge_query"
    and ledger :: "bridge_scripts \<Rightarrow> 'u list"
    and transfer_of :: "'u \<Rightarrow> 'r bridge_transfer option"
    and below :: "bridge_scripts \<Rightarrow> bridge_data_checkpoint \<Rightarrow> nat"
    and upto :: "bridge_scripts \<Rightarrow> 'hash \<Rightarrow> nat"
    and cache_ok :: "'s \<Rightarrow> bool"
  assumes cache_kept: "cache_ok c \<Longrightarrow> get_transfers scripts cp n mc_hash c = (r, c') \<Longrightarrow> cache_ok c'"
    and next_transfers: "cache_ok c \<Longrightarrow> get_transfers scripts cp n mc_hash c = (Inr (ts, cp'), c') \<Longrightarrow>
      below scripts cp \<le> upto scripts mc_hash \<Longrightarrow> 0 < n \<Longrightarrow>
      below scripts cp' = min (below scripts cp + unat n) (upto scripts mc_hash) \<and>
      ts = List.map_filter transfer_of
        (take (below scripts cp' - below scripts cp) (drop (below scripts cp) (ledger scripts)))"
begin

text \<open>A run handles the entries between its first and its last checkpoint, each once, in the order of
  the main chain, whatever the limit per block.\<close>

lemma handles_each_once:
  assumes "br_run cfg get_transfers (st, h, c) hashes (st', h', c')" and "cache_ok c"
    and "br_main_chain_scripts st = Some scripts" and "br_data_checkpoint st = Some cp"
    and "0 < max_transfers_per_block cfg"
    and "sorted (below scripts cp # map (upto scripts) hashes)"
  shows "\<exists>cp'. br_main_chain_scripts st' = Some scripts \<and> br_data_checkpoint st' = Some cp' \<and> cache_ok c' \<and>
    below scripts cp \<le> below scripts cp' \<and>
    (hashes \<noteq> [] \<longrightarrow> below scripts cp' \<le> upto scripts (last hashes)) \<and>
    h' = fold (handle_incoming_transfer cfg) (List.map_filter transfer_of
      (take (below scripts cp' - below scripts cp) (drop (below scripts cp) (ledger scripts)))) h"
  using assms
proof (induction "(st, h, c)" hashes "(st', h', c')" arbitrary: st h c cp rule: br_run.induct)
  case start
  then show ?case by (auto simp: map_filter_simps)
next
  case (block st mc_hash c idp c1 calls r origin h st1 h1 hashes)
  obtain ts cp1 where q: "get_transfers scripts cp (max_transfers_per_block cfg) mc_hash c = (Inr (ts, cp1), c1)"
    and st1: "br_main_chain_scripts st1 = Some scripts" "br_data_checkpoint st1 = Some cp1"
    and h1: "h1 = fold (handle_incoming_transfer cfg) ts h"
    using br_block_effect [OF block.hyps(1-6) block.prems(2,3)] by blast
  have le: "below scripts cp \<le> upto scripts mc_hash" using block.prems(5) by simp
  have c1: "cache_ok c1" by (rule cache_kept [OF block.prems(1) q])
  have nx: "below scripts cp1 = min (below scripts cp + unat (max_transfers_per_block cfg)) (upto scripts mc_hash)"
      "ts = List.map_filter transfer_of
        (take (below scripts cp1 - below scripts cp) (drop (below scripts cp) (ledger scripts)))"
    using next_transfers [OF block.prems(1) q le block.prems(4)] by simp_all
  have "sorted (below scripts cp1 # map (upto scripts) hashes)"
    using block.prems(5) nx(1) by (auto simp: min_le_iff_disj intro: order_trans)
  from block.hyps(8) [OF c1 st1 block.prems(4) this] obtain cp' where
    cp': "br_main_chain_scripts st' = Some scripts" "br_data_checkpoint st' = Some cp'" "cache_ok c'"
    "below scripts cp1 \<le> below scripts cp'"
    "hashes \<noteq> [] \<longrightarrow> below scripts cp' \<le> upto scripts (last hashes)"
    "h' = fold (handle_incoming_transfer cfg) (List.map_filter transfer_of
      (take (below scripts cp' - below scripts cp1) (drop (below scripts cp1) (ledger scripts)))) h1"
    by blast
  have mono: "below scripts cp \<le> below scripts cp1" using nx(1) le by simp
  let ?d = "below scripts cp" and ?m = "below scripts cp1" and ?e = "below scripts cp'"
  have split: "take (?e - ?d) (drop ?d (ledger scripts)) =
      take (?m - ?d) (drop ?d (ledger scripts)) @ take (?e - ?m) (drop ?m (ledger scripts))"
    using mono cp'(4) take_add [of "?m - ?d" "?e - ?m" "drop ?d (ledger scripts)"] by simp
  have "hashes = [] \<Longrightarrow> st' = st1" using block.hyps(7) by (auto elim: br_run.cases)
  then have last: "?e \<le> upto scripts (last (mc_hash # hashes))" using cp'(2,5) st1(2) nx(1) by (cases hashes) auto
  show ?case
    using cp' mono last by (intro exI [of _ cp']) (auto simp: split map_filter_append h1 nx(2))
qed

end

section \<open>Properties\<close>

text \<open>C30: the inherent of the bridge may be repeated. A block that holds the expected
  \<open>handle_transfers\<close> call twice passes the verification of every node with the same inherent data, both
  calls are dispatched, and every transfer is handled twice: nothing in the call remembers that it has
  run in this block.\<close>

theorem bridge_inherent_repeats:
  assumes "length (tb_transfers t) \<le> unat (max_transfers_per_block cfg)" and "br_none_origin cfg origin"
  shows "verify_inherents (br_check_inherent cfg) br_is_inherent br_is_inherent_required st (Inr (Some t))
      [HandleTransfers (tb_transfers t) (tb_data_checkpoint t), HandleTransfers (tb_transfers t) (tb_data_checkpoint t)] \<and>
    br_inherents cfg origin
      [HandleTransfers (tb_transfers t) (tb_data_checkpoint t), HandleTransfers (tb_transfers t) (tb_data_checkpoint t)]
      (st, h) =
      Inr (st\<lparr>br_data_checkpoint := Some (tb_data_checkpoint t)\<rparr>,
        fold (handle_incoming_transfer cfg) (tb_transfers t @ tb_transfers t) h)"
  using assms br_required_iff [of st "Inr (Some t)" "Some BrInherentRequired"]
  by (auto simp: verify_inherents_def br_check_iff br_create_inherent_iff handle_transfers_def ensure_def)

definition demo_br_config :: "(bool, bytes, bytes bridge_transfer list) bridge_config" where
  "demo_br_config = \<lparr>governance_origin = Not, br_none_origin = id,
     handle_incoming_transfer = (\<lambda>t log. log @ [t]), max_transfers_per_block = 2\<rparr>"

theorem bridge_inherent_repeats_witness:
  "br_inherents demo_br_config True [HandleTransfers [UserTransfer 5 [1]] (CheckpointBlock 9),
      HandleTransfers [UserTransfer 5 [1]] (CheckpointBlock 9)]
      (br_genesis_build None None, []) =
    Inr ((br_genesis_build None None)\<lparr>br_data_checkpoint := Some (CheckpointBlock 9)\<rparr>,
      [UserTransfer 5 [1], UserTransfer 5 [1]])"
  using bridge_inherent_repeats [of "\<lparr>tb_transfers = [UserTransfer 5 [1]], tb_data_checkpoint = CheckpointBlock 9\<rparr>"
      demo_br_config True "br_genesis_build None None" "[]"]
  by (simp add: demo_br_config_def)

end
