(* ===== verification/Text_Forms.thy ===== *)
theory Text_Forms
  imports Domain
begin

text \<open>
  Textual forms of main chain identifiers, \<open>FromStr\<close> and \<open>Display\<close> of \<open>toolkit/sidechain/domain/src/lib.rs\<close>
  with the functions \<open>toolkit/utils/byte-string-derivation\<close> generates for byte strings. The hexadecimal codec of
  \<open>sp_core::bytes\<close> is the record \<open>hex_codec\<close>; \<open>hex_codec_ok\<close> states that what is encoded is decoded and that the
  text has only letters and digits. Parsing and printing of integers and \<open>str::split\<close> follow the
  standard library of Rust.
\<close>

section \<open>Standard library\<close>

fun split_on :: "char \<Rightarrow> string \<Rightarrow> string list" where
  "split_on c [] = [[]]"
| "split_on c (x # xs) =
     (if x = c then [] # split_on c xs else (x # hd (split_on c xs)) # tl (split_on c xs))"

fun split_once :: "char \<Rightarrow> string \<Rightarrow> (string \<times> string) option" where
  "split_once c [] = None"
| "split_once c (x # xs) = (if x = c then Some ([], xs) else map_option (\<lambda>(a, b). (x # a, b)) (split_once c xs))"

definition is_digit :: "char \<Rightarrow> bool" where
  "is_digit c \<longleftrightarrow> 48 \<le> (of_char c :: nat) \<and> (of_char c :: nat) \<le> 57"

definition parse_digits :: "string \<Rightarrow> nat option" where
  "parse_digits s =
     (if s \<noteq> [] \<and> list_all is_digit s then Some (foldl (\<lambda>n c. 10 * n + (of_char c - 48)) 0 s) else None)"

text \<open>\<open>u16::from_str\<close> takes an optional plus sign, \<open>i16::from_str\<close> also a minus sign.\<close>

definition strip_plus :: "string \<Rightarrow> string" where
  "strip_plus s = (if s \<noteq> [] \<and> hd s = CHR ''+'' then tl s else s)"

definition u16_from_str :: "string \<Rightarrow> u16 option" where
  "u16_from_str s = Option.bind (parse_digits (strip_plus s)) (\<lambda>n. if n < 65536 then Some (of_nat n) else None)"

definition i16_from_str :: "string \<Rightarrow> int option" where
  "i16_from_str s =
     (if s \<noteq> [] \<and> hd s = CHR ''-''
      then Option.bind (parse_digits (tl s)) (\<lambda>n. if n \<le> 32768 then Some (- int n) else None)
      else Option.bind (parse_digits (strip_plus s)) (\<lambda>n. if n < 32768 then Some (int n) else None))"

fun show_nat :: "nat \<Rightarrow> string" where
  "show_nat n = (if n < 10 then [char_of (48 + n)] else show_nat (n div 10) @ [char_of (48 + n mod 10)])"

declare show_nat.simps [simp del]

section \<open>Byte strings\<close>

record hex_codec =
  from_hex :: "string \<Rightarrow> bytes option"
  to_hex :: "bytes \<Rightarrow> string"

definition is_hex_digit :: "char \<Rightarrow> bool" where
  "is_hex_digit c \<longleftrightarrow> is_digit c \<or> c \<in> set ''abcdef''"

definition hex_codec_ok :: "hex_codec \<Rightarrow> bool" where
  "hex_codec_ok H \<longleftrightarrow> (\<forall>bs. from_hex H (to_hex H bs) = Some bs \<and> list_all is_hex_digit (to_hex H bs))"

text \<open>\<open>decode_hex\<close> of a type that wraps an array of \<open>n\<close> bytes, a bounded vector of at most \<open>n\<close>, and a vector.\<close>

definition decode_hex_array :: "hex_codec \<Rightarrow> nat \<Rightarrow> string \<Rightarrow> string + bytes" where
  "decode_hex_array H n s =
     try_bind (ok_or (from_hex H s) ''Cannot decode bytes from hex string'') (\<lambda>bs.
       if length bs = n then Inr bs else Inl ''Invalid length'')"

definition decode_hex_bounded :: "hex_codec \<Rightarrow> nat \<Rightarrow> string \<Rightarrow> string + bytes" where
  "decode_hex_bounded H n s =
     try_bind (ok_or (from_hex H s) ''Cannot decode bytes from hex string'') (\<lambda>bs.
       if length bs \<le> n then Inr bs else Inl ''Invalid length'')"

definition decode_hex_vec :: "hex_codec \<Rightarrow> string \<Rightarrow> string + bytes" where
  "decode_hex_vec H s = ok_or (from_hex H s) ''Cannot decode bytes from hex string''"

definition to_hex_string :: "hex_codec \<Rightarrow> bytes \<Rightarrow> string" where
  "to_hex_string H bs = to_hex H bs"

section \<open>Identifiers\<close>

definition utxo_index_from_str :: "string \<Rightarrow> u16 option" where
  "utxo_index_from_str s =
     Option.bind (u16_from_str s) (\<lambda>parsed. Option.bind (i16_from_str s) (\<lambda>_. Some parsed))"

definition utxo_id_from_str :: "hex_codec \<Rightarrow> string \<Rightarrow> string + utxo_id" where
  "utxo_id_from_str H s =
     (case split_on (CHR ''#'') s of
        [hash_str, index_str] \<Rightarrow>
          try_bind (map_err (\<lambda>_. ''invalid string input for McTxHash'') (decode_hex_array H 32 hash_str)) (\<lambda>h.
          try_bind (ok_or (utxo_index_from_str index_str) ''invalid string input for OutputIndex'') (\<lambda>i.
            Inr \<lparr>tx_hash = h, utxo_index = i\<rparr>))
      | _ \<Rightarrow> Inl (''UtxoId string must conform to format: '<hash>#<index>'' @ [CHR 0x27]))"

definition utxo_id_display :: "hex_codec \<Rightarrow> utxo_id \<Rightarrow> string" where
  "utxo_id_display H u = to_hex H (tx_hash u) @ ''#'' @ show_nat (unat (utxo_index u))"

definition asset_id_from_str :: "hex_codec \<Rightarrow> string \<Rightarrow> string + bytes \<times> bytes" where
  "asset_id_from_str H s =
     (case split_once (CHR ''.'') s of
        Some (policy_id, asset_name) \<Rightarrow>
          try_bind (map_err (\<lambda>e. policy_id @ '' is invalid Policy ID: '' @ e) (decode_hex_array H 28 policy_id)) (\<lambda>p.
          try_bind (map_err (\<lambda>e. asset_name @ '' is invalid Asset Name: '' @ e) (decode_hex_bounded H 32 asset_name)) (\<lambda>n.
            Inr (p, n)))
      | None \<Rightarrow> Inl ''AssetId should be <hex encoded Policy ID>.<hex encoded Asset Name>'')"

section \<open>Round trips\<close>

lemma split_on_no: "c \<notin> set s \<Longrightarrow> split_on c s = [s]"
  by (induction s) auto

lemma split_on_append: "c \<notin> set s \<Longrightarrow> split_on c (s @ c # t) = s # split_on c t"
  by (induction s) auto

lemma split_once_append: "c \<notin> set s \<Longrightarrow> split_once c (s @ c # t) = Some (s, t)"
  by (induction s) auto

lemma of_char_digit [simp]: "d < 10 \<Longrightarrow> (of_char (char_of (48 + d) :: char) :: nat) = 48 + d"
  by (simp add: take_bit_nat_def of_char_of)

lemma show_nat_digits: "list_all is_digit (show_nat n) \<and> show_nat n \<noteq> []"
proof (induction n rule: show_nat.induct)
  case (1 n)
  have "is_digit (char_of (48 + d))" if "d < 10" for d :: nat using that by (simp add: is_digit_def)
  then show ?case using 1 by (subst (1 2) show_nat.simps) simp
qed

lemma parse_show: "parse_digits (show_nat n) = Some n"
proof -
  have "foldl (\<lambda>n c. 10 * n + (of_char c - 48)) 0 (show_nat n) = n"
  proof (induction n rule: show_nat.induct)
    case (1 n)
    then show ?case by (subst show_nat.simps) (cases "n < 10", simp_all)
  qed
  then show ?thesis using show_nat_digits by (simp add: parse_digits_def)
qed

lemma show_nat_unsigned: "strip_plus (show_nat n) = show_nat n" "hd (show_nat n) \<noteq> CHR ''-''"
  using show_nat_digits [of n] by (cases "show_nat n"; auto simp: strip_plus_def is_digit_def)+

lemma u16_from_show: "u16_from_str (show_nat n) = (if n < 65536 then Some (of_nat n) else None)"
  by (simp add: u16_from_str_def parse_show show_nat_unsigned)

lemma i16_from_show: "i16_from_str (show_nat n) = (if n < 32768 then Some (int n) else None)"
  by (simp add: i16_from_str_def parse_show show_nat_unsigned)

lemma hex_clean: "hex_codec_ok H \<Longrightarrow> c \<in> set (to_hex H bs) \<Longrightarrow> c \<noteq> CHR ''#'' \<and> c \<noteq> CHR ''.''"
proof -
  assume "hex_codec_ok H" "c \<in> set (to_hex H bs)"
  then have "is_hex_digit c" unfolding hex_codec_ok_def list_all_iff by blast
  then show ?thesis by (auto simp: is_hex_digit_def is_digit_def)
qed

text \<open>C33: the text of a UTxO identifier is read back as the identifier, as long as its output index is below 2^15; the
  text of an identifier with a larger index, which the type and the ledger allow, is refused.\<close>

theorem utxo_id_text_roundtrip:
  assumes "hex_codec_ok H" and "length (tx_hash u) = 32"
  shows "utxo_id_from_str H (utxo_id_display H u) =
    (if unat (utxo_index u) < 2 ^ 15 then Inr u else Inl ''invalid string input for OutputIndex'')"
proof -
  have "CHR ''#'' \<notin> set (to_hex H (tx_hash u))" using hex_clean [OF assms(1)] by blast
  moreover have "CHR ''#'' \<notin> set (show_nat n)" for n
    using show_nat_digits [of n] by (auto simp: list_all_iff is_digit_def)
  ultimately have "split_on (CHR ''#'') (utxo_id_display H u) = [to_hex H (tx_hash u), show_nat (unat (utxo_index u))]"
    by (simp add: utxo_id_display_def split_on_append split_on_no)
  moreover have "decode_hex_array H 32 (to_hex H (tx_hash u)) = Inr (tx_hash u)"
    using assms by (simp add: decode_hex_array_def hex_codec_ok_def)
  moreover have "unat (utxo_index u) < 65536" using unsigned_less [of "utxo_index u"] by simp
  ultimately show ?thesis
    by (auto simp: utxo_id_from_str_def utxo_index_from_str_def u16_from_show i16_from_show)
qed

lemma asset_id_from_text:
  assumes "hex_codec_ok H" and "length p = 28" and "length n \<le> 32"
  shows "asset_id_from_str H (to_hex_string H p @ ''.'' @ to_hex_string H n) = Inr (p, n)"
proof -
  have "CHR ''.'' \<notin> set (to_hex H p)" using hex_clean [OF assms(1)] by blast
  then show ?thesis using assms
    by (simp add: asset_id_from_str_def to_hex_string_def split_once_append decode_hex_array_def decode_hex_bounded_def hex_codec_ok_def)
qed

section \<open>A hexadecimal codec\<close>

definition hex_digit :: "nat \<Rightarrow> char" where
  "hex_digit n = (if n < 10 then char_of (48 + n) else char_of (87 + n))"

definition unhex_digit :: "char \<Rightarrow> nat option" where
  "unhex_digit c = (if is_digit c then Some (of_char c - 48) else if is_hex_digit c then Some (of_char c - 87) else None)"

fun demo_from_hex :: "string \<Rightarrow> bytes option" where
  "demo_from_hex [] = Some []"
| "demo_from_hex [_] = None"
| "demo_from_hex (a # b # r) =
     Option.bind (unhex_digit a) (\<lambda>x. Option.bind (unhex_digit b) (\<lambda>y.
     map_option (\<lambda>bs. of_nat (16 * x + y) # bs) (demo_from_hex r)))"

definition demo_hex :: hex_codec where
  "demo_hex = \<lparr>from_hex = demo_from_hex,
     to_hex = (\<lambda>bs. concat (map (\<lambda>b. [hex_digit (unat b div 16), hex_digit (unat b mod 16)]) bs))\<rparr>"

lemma hex_digit_ok: "n < 16 \<Longrightarrow> unhex_digit (hex_digit n) = Some n \<and> is_hex_digit (hex_digit n)"
proof -
  assume "n < 16"
  then consider "n < 10" | "n = 10" | "n = 11" | "n = 12" | "n = 13" | "n = 14" | "n = 15" by linarith
  then show ?thesis
  proof cases
    case 1
    then show ?thesis by (simp add: hex_digit_def unhex_digit_def is_hex_digit_def is_digit_def)
  qed (simp_all add: hex_digit_def unhex_digit_def is_hex_digit_def is_digit_def char_of_def bit_0)
qed

lemma demo_hex_ok: "hex_codec_ok demo_hex"
proof -
  have "unat (b :: u8) div 16 < 16" for b using unsigned_less [of b] by (simp add: div_less_iff_less_mult)
  moreover have "16 * of_nat (unat b div 16) + of_nat (unat b mod 16) = (b :: u8)" for b
  proof -
    have "(of_nat (16 * (unat b div 16) + unat b mod 16) :: u8) = b" by (simp only: mult_div_mod_eq of_nat_unat ucast_id)
    then show ?thesis unfolding of_nat_add of_nat_mult by simp
  qed
  ultimately have "from_hex demo_hex (to_hex demo_hex bs) = Some bs \<and> list_all is_hex_digit (to_hex demo_hex bs)" for bs
    by (induction bs) (simp_all add: demo_hex_def hex_digit_ok)
  then show ?thesis by (simp add: hex_codec_ok_def)
qed

theorem utxo_id_text_roundtrip_witness:
  "utxo_id_from_str demo_hex (utxo_id_display demo_hex \<lparr>tx_hash = replicate 32 171, utxo_index = 7\<rparr>) =
     Inr \<lparr>tx_hash = replicate 32 171, utxo_index = 7\<rparr>"
  using utxo_id_text_roundtrip [OF demo_hex_ok, of "\<lparr>tx_hash = replicate 32 171, utxo_index = 7\<rparr>"] by simp

end
