(* ===== verification/Plutus_Data.thy ===== *)
theory Plutus_Data
  imports Text_Forms "HOL-Library.Monad_Syntax"
begin

text \<open>
  The datums of the smart contracts, \<open>toolkit/smart-contracts/plutus-data/src\<close>: versioned generic
  datums, D-parameter, permissioned and registered candidates, Governed Map entries, bridge transfers,
  the reserve and the version oracle.

  \<open>PlutusData\<close> is a type of the \<open>cardano_serialization_lib\<close> crate. Its constructors and accessors are the
  record \<open>csl\<close>, and \<open>csl_ok\<close> states their documented behaviour: an accessor returns what the constructor
  of its kind was given, and nothing for the other kinds. Integers are read as \<open>u64\<close>, the composition
  \<open>as_integer()?.as_u64()\<close> that every decoder uses. \<open>PlutusList::get\<close> panics out of range; where the code
  has checked the length first, the model matches on the list.
\<close>

section \<open>Plutus data\<close>

record 'pd csl =
  new_list :: "'pd list \<Rightarrow> 'pd"
  new_bytes :: "bytes \<Rightarrow> 'pd"
  new_integer :: "u64 \<Rightarrow> 'pd"
  new_constr :: "u64 \<Rightarrow> 'pd list \<Rightarrow> 'pd"
  as_list :: "'pd \<Rightarrow> 'pd list option"
  as_bytes :: "'pd \<Rightarrow> bytes option"
  as_integer_u64 :: "'pd \<Rightarrow> u64 option"
  as_constr :: "'pd \<Rightarrow> (u64 \<times> 'pd list) option"

definition csl_ok :: "'pd csl \<Rightarrow> bool" where
  "csl_ok C \<longleftrightarrow>
     (\<forall>xs. as_list C (new_list C xs) = Some xs \<and> as_bytes C (new_list C xs) = None \<and>
        as_integer_u64 C (new_list C xs) = None \<and> as_constr C (new_list C xs) = None) \<and>
     (\<forall>b. as_list C (new_bytes C b) = None \<and> as_bytes C (new_bytes C b) = Some b \<and>
        as_integer_u64 C (new_bytes C b) = None \<and> as_constr C (new_bytes C b) = None) \<and>
     (\<forall>n. as_list C (new_integer C n) = None \<and> as_bytes C (new_integer C n) = None \<and>
        as_integer_u64 C (new_integer C n) = Some n \<and> as_constr C (new_integer C n) = None) \<and>
     (\<forall>a xs. as_list C (new_constr C a xs) = None \<and> as_bytes C (new_constr C a xs) = None \<and>
        as_integer_u64 C (new_constr C a xs) = None \<and> as_constr C (new_constr C a xs) = Some (a, xs))"

definition as_u64 :: "'pd csl \<Rightarrow> 'pd \<Rightarrow> u64 option" where
  "as_u64 C d = as_integer_u64 C d"

definition as_u32 :: "'pd csl \<Rightarrow> 'pd \<Rightarrow> u32 option" where
  "as_u32 C d = do { n \<leftarrow> as_integer_u64 C d; try_narrow n }"

definition as_u16 :: "'pd csl \<Rightarrow> 'pd \<Rightarrow> u16 option" where
  "as_u16 C d = do { n \<leftarrow> as_u32 C d; try_narrow n }"

text \<open>Conversion of a byte vector to an array of fixed size, and to a vector of bounded size.\<close>

definition try_array :: "nat \<Rightarrow> bytes \<Rightarrow> bytes option" where
  "try_array n bs = (if length bs = n then Some bs else None)"

definition try_bounded :: "nat \<Rightarrow> bytes \<Rightarrow> bytes option" where
  "try_bounded n bs = (if length bs \<le> n then Some bs else None)"

section \<open>Versioned datums\<close>

datatype 'pd data_decoding_error = DataDecodingError 'pd string string

record 'pd versioned_generic_datum =
  vgd_datum :: 'pd
  vgd_appendix :: 'pd
  vgd_version :: u64

definition vgd_to_plutus :: "'pd csl \<Rightarrow> 'pd versioned_generic_datum \<Rightarrow> 'pd" where
  "vgd_to_plutus C v = new_list C [vgd_datum v, vgd_appendix v, new_integer C (vgd_version v)]"

definition plutus_data_version_and_payload :: "'pd csl \<Rightarrow> 'pd \<Rightarrow> 'pd versioned_generic_datum option" where
  "plutus_data_version_and_payload C data =
     (case as_list C data of
        Some [d, a, v] \<Rightarrow> do {
          version \<leftarrow> as_u64 C v;
          Some \<lparr>vgd_datum = d, vgd_appendix = a, vgd_version = version\<rparr> }
      | _ \<Rightarrow> None)"

text \<open>The blanket implementation for datums with a legacy schema.\<close>

definition decode_with_legacy ::
  "string \<Rightarrow> ('pd \<Rightarrow> string + 'a) \<Rightarrow> (u64 \<Rightarrow> 'pd \<Rightarrow> 'pd \<Rightarrow> string + 'a) \<Rightarrow> 'pd csl \<Rightarrow> 'pd \<Rightarrow>
   'pd data_decoding_error + 'a" where
  "decode_with_legacy name decode_legacy decode_versioned C data =
     map_err (DataDecodingError data name)
       (case plutus_data_version_and_payload C data of
          None \<Rightarrow> decode_legacy data
        | Some v \<Rightarrow> decode_versioned (vgd_version v) (vgd_datum v) (vgd_appendix v))"

definition unknown_version :: "u64 \<Rightarrow> string" where
  "unknown_version version = ''Unknown version: '' @ show_nat (unat version)"

definition cannot_parse :: "string \<Rightarrow> string" where
  "cannot_parse msg = ''Cannot parse appendix: '' @ msg"

definition script_hash_try_from :: "'pd csl \<Rightarrow> 'pd \<Rightarrow> 'pd data_decoding_error + bytes" where
  "script_hash_try_from C datum =
     ok_or (do { bytes \<leftarrow> as_bytes C datum; try_array 28 bytes })
       (DataDecodingError datum ''ScriptHash'' ''Expected [u8;32]'')"

definition script_hash_to_plutus :: "'pd csl \<Rightarrow> bytes \<Rightarrow> 'pd" where
  "script_hash_to_plutus C h = new_bytes C h"

section \<open>D-parameter\<close>

definition d_param_decode_legacy :: "'pd csl \<Rightarrow> 'pd \<Rightarrow> string + d_parameter" where
  "d_param_decode_legacy C data =
     ok_or
       (case as_list C data of
          Some [p, r] \<Rightarrow> do {
            permissioned \<leftarrow> as_u16 C p;
            registered \<leftarrow> as_u16 C r;
            Some \<lparr>num_permissioned_candidates = permissioned, num_registered_candidates = registered\<rparr> }
        | _ \<Rightarrow> None)
       ''Expected [u16, u16]''"

definition d_param_decode_versioned :: "'pd csl \<Rightarrow> u64 \<Rightarrow> 'pd \<Rightarrow> 'pd \<Rightarrow> string + d_parameter" where
  "d_param_decode_versioned C version datum appendix =
     (if version = 0 then map_err cannot_parse (d_param_decode_legacy C appendix)
      else Inl (unknown_version version))"

definition d_param_try_from :: "'pd csl \<Rightarrow> 'pd \<Rightarrow> 'pd data_decoding_error + d_parameter" where
  "d_param_try_from C =
     decode_with_legacy ''DParamDatum'' (d_param_decode_legacy C) (d_param_decode_versioned C) C"

definition d_parameter_to_plutus_data :: "'pd csl \<Rightarrow> d_parameter \<Rightarrow> 'pd" where
  "d_parameter_to_plutus_data C d = vgd_to_plutus C \<lparr>
     vgd_datum = new_constr C 0 [],
     vgd_appendix = new_list C [new_integer C (ucast (num_permissioned_candidates d)),
                                new_integer C (ucast (num_registered_candidates d))],
     vgd_version = 0\<rparr>"

section \<open>Candidate keys\<close>

definition decode_candidate_key :: "'pd csl \<Rightarrow> 'pd \<Rightarrow> candidate_key option" where
  "decode_candidate_key C data =
     (case as_list C data of
        Some [i, b] \<Rightarrow> do {
          key_id \<leftarrow> as_bytes C i;
          key_id \<leftarrow> try_array 4 key_id;
          key_bytes \<leftarrow> as_bytes C b;
          Some \<lparr>ck_id = key_id, ck_bytes = key_bytes\<rparr> }
      | _ \<Rightarrow> None)"

fun traverse_option :: "('a \<Rightarrow> 'b option) \<Rightarrow> 'a list \<Rightarrow> 'b list option" where
  "traverse_option f [] = Some []"
| "traverse_option f (x # xs) = do { y \<leftarrow> f x; ys \<leftarrow> traverse_option f xs; Some (y # ys) }"

definition decode_candidate_keys :: "'pd csl \<Rightarrow> 'pd \<Rightarrow> candidate_keys option" where
  "decode_candidate_keys C data = do {
     outer_list \<leftarrow> as_list C data;
     traverse_option (decode_candidate_key C) outer_list }"

definition candidate_key_to_plutus :: "'pd csl \<Rightarrow> candidate_key \<Rightarrow> 'pd" where
  "candidate_key_to_plutus C key = new_list C [new_bytes C (ck_id key), new_bytes C (ck_bytes key)]"

definition candidate_keys_to_plutus :: "'pd csl \<Rightarrow> candidate_keys \<Rightarrow> 'pd" where
  "candidate_keys_to_plutus C keys = new_list C (map (candidate_key_to_plutus C) keys)"

section \<open>Permissioned candidates\<close>

record permissioned_candidate_datum_v0 =
  pc0_sidechain_public_key :: bytes
  pc0_aura_public_key :: bytes
  pc0_grandpa_public_key :: bytes

record permissioned_candidate_datum_v1 =
  pc1_partner_chains_key :: bytes
  pc1_keys :: candidate_keys

datatype permissioned_candidate_datums =
    PermissionedV0 "permissioned_candidate_datum_v0 list"
  | PermissionedV1 "permissioned_candidate_datum_v1 list"

definition permissioned_data_of_v0 :: "key_types \<Rightarrow> permissioned_candidate_datum_v0 \<Rightarrow> permissioned_candidate_data" where
  "permissioned_data_of_v0 K v = \<lparr>pcd_sidechain_public_key = pc0_sidechain_public_key v,
     pcd_keys = [\<lparr>ck_id = aura_id K, ck_bytes = pc0_aura_public_key v\<rparr>,
                 \<lparr>ck_id = grandpa_id K, ck_bytes = pc0_grandpa_public_key v\<rparr>]\<rparr>"

definition permissioned_data_of_v1 :: "permissioned_candidate_datum_v1 \<Rightarrow> permissioned_candidate_data" where
  "permissioned_data_of_v1 v =
     \<lparr>pcd_sidechain_public_key = pc1_partner_chains_key v, pcd_keys = pc1_keys v\<rparr>"

fun permissioned_data_of :: "key_types \<Rightarrow> permissioned_candidate_datums \<Rightarrow> permissioned_candidate_data list" where
  "permissioned_data_of K (PermissionedV0 v) = map (permissioned_data_of_v0 K) v"
| "permissioned_data_of K (PermissionedV1 v) = map permissioned_data_of_v1 v"

definition candidates_to_plutus_data_v0 :: "'pd csl \<Rightarrow> permissioned_candidate_data list \<Rightarrow> 'pd" where
  "candidates_to_plutus_data_v0 C candidates = vgd_to_plutus C \<lparr>
     vgd_datum = new_constr C 0 [],
     vgd_appendix = new_list C (map (\<lambda>candidate. new_list C
       (new_bytes C (pcd_sidechain_public_key candidate) #
        map (\<lambda>key. new_bytes C (ck_bytes key)) (pcd_keys candidate))) candidates),
     vgd_version = 0\<rparr>"

definition candidates_to_plutus_data_v1 :: "'pd csl \<Rightarrow> permissioned_candidate_data list \<Rightarrow> 'pd" where
  "candidates_to_plutus_data_v1 C candidates = vgd_to_plutus C \<lparr>
     vgd_datum = new_constr C 0 [],
     vgd_appendix = new_list C (map (\<lambda>candidate. new_list C
       [new_bytes C (pcd_sidechain_public_key candidate), candidate_keys_to_plutus C (pcd_keys candidate)])
       candidates),
     vgd_version = 1\<rparr>"

definition permissioned_candidates_to_plutus_data ::
  "key_types \<Rightarrow> 'pd csl \<Rightarrow> permissioned_candidate_data list \<Rightarrow> 'pd" where
  "permissioned_candidates_to_plutus_data K C candidates =
     (if list_all (\<lambda>c. has_only_aura_and_grandpa_keys K (pcd_keys c)) candidates
      then candidates_to_plutus_data_v0 C candidates
      else candidates_to_plutus_data_v1 C candidates)"

definition decode_legacy_candidate_datum :: "'pd csl \<Rightarrow> 'pd \<Rightarrow> permissioned_candidate_datum_v0 option" where
  "decode_legacy_candidate_datum C datum =
     (case as_list C datum of
        Some [a, b, c] \<Rightarrow> do {
          sc \<leftarrow> as_bytes C a;
          aura \<leftarrow> as_bytes C b;
          grandpa \<leftarrow> as_bytes C c;
          Some \<lparr>pc0_sidechain_public_key = sc, pc0_aura_public_key = aura, pc0_grandpa_public_key = grandpa\<rparr> }
      | _ \<Rightarrow> None)"

definition decode_v1_candidate_datum :: "'pd csl \<Rightarrow> 'pd \<Rightarrow> permissioned_candidate_datum_v1 option" where
  "decode_v1_candidate_datum C datum =
     (case as_list C datum of
        Some [a, b] \<Rightarrow> do {
          partner_chains_key \<leftarrow> as_bytes C a;
          keys \<leftarrow> decode_candidate_keys C b;
          Some \<lparr>pc1_partner_chains_key = partner_chains_key, pc1_keys = keys\<rparr> }
      | _ \<Rightarrow> None)"

definition permissioned_decode_legacy :: "'pd csl \<Rightarrow> 'pd \<Rightarrow> string + permissioned_candidate_datums" where
  "permissioned_decode_legacy C data =
     try_bind
       (ok_or (do { list_datums \<leftarrow> as_list C data; traverse_option (decode_legacy_candidate_datum C) list_datums })
         ''Expected [[ByteString, ByteString, ByteString]]'')
       (\<lambda>v. Inr (PermissionedV0 v))"

definition decode_v1_appendix :: "'pd csl \<Rightarrow> 'pd \<Rightarrow> string + permissioned_candidate_datums" where
  "decode_v1_appendix C data =
     try_bind
       (ok_or (do { list_datums \<leftarrow> as_list C data; traverse_option (decode_v1_candidate_datum C) list_datums })
         ''Expected [[ByteString, ByteString], [[ByteString, ByteString], ... ]]'')
       (\<lambda>v. Inr (PermissionedV1 v))"

definition permissioned_decode_versioned ::
  "'pd csl \<Rightarrow> u64 \<Rightarrow> 'pd \<Rightarrow> 'pd \<Rightarrow> string + permissioned_candidate_datums" where
  "permissioned_decode_versioned C version datum appendix =
     (if version = 0 then map_err cannot_parse (permissioned_decode_legacy C appendix)
      else if version = 1 then map_err cannot_parse (decode_v1_appendix C appendix)
      else Inl (unknown_version version))"

definition permissioned_try_from ::
  "'pd csl \<Rightarrow> 'pd \<Rightarrow> 'pd data_decoding_error + permissioned_candidate_datums" where
  "permissioned_try_from C = decode_with_legacy ''PermissionedCandidateDatums''
     (permissioned_decode_legacy C) (permissioned_decode_versioned C) C"

section \<open>Registered candidates\<close>

record register_validator_common =
  rv_stake_ownership :: ada_based_staking
  rv_sidechain_pub_key :: bytes
  rv_sidechain_signature :: bytes
  rv_registration_utxo :: utxo_id
  rv_own_pkh :: bytes

datatype register_validator_datum =
    RegisterV0 register_validator_common (aura_pub_key: bytes) (grandpa_pub_key: bytes)
  | RegisterV1 register_validator_common (register_keys: candidate_keys)

definition stake_ownership_to_plutus_data :: "'pd csl \<Rightarrow> ada_based_staking \<Rightarrow> 'pd" where
  "stake_ownership_to_plutus_data C v =
     new_constr C 0 [new_bytes C (abs_pub_key v), new_bytes C (abs_signature v)]"

definition tx_hash_to_plutus_data :: "'pd csl \<Rightarrow> bytes \<Rightarrow> 'pd" where
  "tx_hash_to_plutus_data C v = new_constr C 0 [new_bytes C v]"

definition utxo_id_to_plutus_data :: "'pd csl \<Rightarrow> utxo_id \<Rightarrow> 'pd" where
  "utxo_id_to_plutus_data C v =
     new_constr C 0 [tx_hash_to_plutus_data C (tx_hash v), new_integer C (ucast (utxo_index v))]"

definition decode_ada_based_staking_datum :: "'pd csl \<Rightarrow> 'pd \<Rightarrow> ada_based_staking option" where
  "decode_ada_based_staking_datum C datum =
     (case as_constr C datum of
        Some (alternative, k # s # _) \<Rightarrow>
          if alternative = 0 then do {
            k \<leftarrow> as_bytes C k;
            pub_key \<leftarrow> try_array 32 k;
            s \<leftarrow> as_bytes C s;
            signature \<leftarrow> try_array 64 s;
            Some \<lparr>abs_pub_key = pub_key, abs_signature = signature\<rparr> }
          else None
      | _ \<Rightarrow> None)"

definition decode_tx_hash_datum :: "'pd csl \<Rightarrow> 'pd \<Rightarrow> bytes option" where
  "decode_tx_hash_datum C datum =
     (case as_constr C datum of
        Some (alternative, h # _) \<Rightarrow>
          if alternative = 0 then do { bytes \<leftarrow> as_bytes C h; try_array 32 bytes } else None
      | _ \<Rightarrow> None)"

definition decode_utxo_id_datum :: "'pd csl \<Rightarrow> 'pd \<Rightarrow> utxo_id option" where
  "decode_utxo_id_datum C datum =
     (case as_constr C datum of
        Some (alternative, h # i # _) \<Rightarrow>
          if alternative = 0 then do {
            h \<leftarrow> decode_tx_hash_datum C h;
            i \<leftarrow> as_u16 C i;
            Some \<lparr>tx_hash = h, utxo_index = i\<rparr> }
          else None
      | _ \<Rightarrow> None)"

definition decode_v0_register_validator_datum :: "'pd csl \<Rightarrow> 'pd \<Rightarrow> 'pd \<Rightarrow> register_validator_datum option" where
  "decode_v0_register_validator_datum C datum appendix =
     (case as_constr C appendix of
        Some (alternative, f0 # f1 # f2 # f3 # f4 # f5 # _) \<Rightarrow>
          if alternative = 0 then do {
            stake_ownership \<leftarrow> decode_ada_based_staking_datum C f0;
            sidechain_pub_key \<leftarrow> as_bytes C f1;
            sidechain_signature \<leftarrow> as_bytes C f2;
            registration_utxo \<leftarrow> decode_utxo_id_datum C f3;
            aura \<leftarrow> as_bytes C f4;
            grandpa \<leftarrow> as_bytes C f5;
            pkh \<leftarrow> as_bytes C datum;
            own_pkh \<leftarrow> try_array 28 pkh;
            Some (RegisterV0 \<lparr>rv_stake_ownership = stake_ownership, rv_sidechain_pub_key = sidechain_pub_key,
              rv_sidechain_signature = sidechain_signature, rv_registration_utxo = registration_utxo,
              rv_own_pkh = own_pkh\<rparr> aura grandpa) }
          else None
      | _ \<Rightarrow> None)"

definition decode_v1_register_validator_datum :: "'pd csl \<Rightarrow> 'pd \<Rightarrow> 'pd \<Rightarrow> register_validator_datum option" where
  "decode_v1_register_validator_datum C datum appendix =
     (case as_constr C appendix of
        Some (alternative, [f0, f1, f2, f3, f4]) \<Rightarrow>
          if alternative = 0 then do {
            stake_ownership \<leftarrow> decode_ada_based_staking_datum C f0;
            sidechain_pub_key \<leftarrow> as_bytes C f1;
            sidechain_signature \<leftarrow> as_bytes C f2;
            registration_utxo \<leftarrow> decode_utxo_id_datum C f3;
            keys \<leftarrow> decode_candidate_keys C f4;
            pkh \<leftarrow> as_bytes C datum;
            own_pkh \<leftarrow> try_array 28 pkh;
            Some (RegisterV1 \<lparr>rv_stake_ownership = stake_ownership, rv_sidechain_pub_key = sidechain_pub_key,
              rv_sidechain_signature = sidechain_signature, rv_registration_utxo = registration_utxo,
              rv_own_pkh = own_pkh\<rparr> keys) }
          else None
      | _ \<Rightarrow> None)"

definition decode_legacy_register_validator_datum :: "'pd csl \<Rightarrow> 'pd \<Rightarrow> register_validator_datum option" where
  "decode_legacy_register_validator_datum C datum =
     (case as_constr C datum of
        Some (alternative, f0 # f1 # f2 # f3 # f4 # f5 # f6 # _) \<Rightarrow>
          if alternative = 0 then do {
            stake_ownership \<leftarrow> decode_ada_based_staking_datum C f0;
            sidechain_pub_key \<leftarrow> as_bytes C f1;
            sidechain_signature \<leftarrow> as_bytes C f2;
            registration_utxo \<leftarrow> decode_utxo_id_datum C f3;
            pkh \<leftarrow> as_bytes C f4;
            own_pkh \<leftarrow> try_array 28 pkh;
            aura \<leftarrow> as_bytes C f5;
            grandpa \<leftarrow> as_bytes C f6;
            Some (RegisterV0 \<lparr>rv_stake_ownership = stake_ownership, rv_sidechain_pub_key = sidechain_pub_key,
              rv_sidechain_signature = sidechain_signature, rv_registration_utxo = registration_utxo,
              rv_own_pkh = own_pkh\<rparr> aura grandpa) }
          else None
      | _ \<Rightarrow> None)"

definition register_decode_legacy :: "'pd csl \<Rightarrow> 'pd \<Rightarrow> string + register_validator_datum" where
  "register_decode_legacy C data = ok_or (decode_legacy_register_validator_datum C data) ''Invalid data''"

definition register_decode_versioned :: "'pd csl \<Rightarrow> u64 \<Rightarrow> 'pd \<Rightarrow> 'pd \<Rightarrow> string + register_validator_datum" where
  "register_decode_versioned C version datum appendix =
     (if version = 0 then ok_or (decode_v0_register_validator_datum C datum appendix) ''Can not parse appendix''
      else if version = 1 then ok_or (decode_v1_register_validator_datum C datum appendix) ''Can not parse appendix''
      else Inl (unknown_version version))"

definition register_try_from :: "'pd csl \<Rightarrow> 'pd \<Rightarrow> 'pd data_decoding_error + register_validator_datum" where
  "register_try_from C = decode_with_legacy ''RegisterValidatorDatum''
     (register_decode_legacy C) (register_decode_versioned C) C"

definition register_fields_to_plutus :: "'pd csl \<Rightarrow> register_validator_common \<Rightarrow> 'pd list \<Rightarrow> u64 \<Rightarrow> 'pd" where
  "register_fields_to_plutus C r keys version = vgd_to_plutus C \<lparr>
     vgd_datum = new_bytes C (rv_own_pkh r),
     vgd_appendix = new_constr C 0
       ([stake_ownership_to_plutus_data C (rv_stake_ownership r), new_bytes C (rv_sidechain_pub_key r),
         new_bytes C (rv_sidechain_signature r), utxo_id_to_plutus_data C (rv_registration_utxo r)] @ keys),
     vgd_version = version\<rparr>"

fun register_datum_to_plutus :: "'pd csl \<Rightarrow> register_validator_datum \<Rightarrow> 'pd" where
  "register_datum_to_plutus C (RegisterV0 r aura grandpa) =
     register_fields_to_plutus C r [new_bytes C aura, new_bytes C grandpa] 0"
| "register_datum_to_plutus C (RegisterV1 r keys) =
     register_fields_to_plutus C r [candidate_keys_to_plutus C keys] 1"

definition register_common_of :: "candidate_registration \<Rightarrow> register_validator_common" where
  "register_common_of r = \<lparr>rv_stake_ownership = reg_stake_ownership r,
     rv_sidechain_pub_key = reg_partner_chain_pub_key r,
     rv_sidechain_signature = reg_partner_chain_signature r,
     rv_registration_utxo = reg_registration_utxo r, rv_own_pkh = reg_own_pkh r\<rparr>"

definition candidate_registration_to_plutus_data :: "key_types \<Rightarrow> 'pd csl \<Rightarrow> candidate_registration \<Rightarrow> 'pd" where
  "candidate_registration_to_plutus_data K C r =
     register_datum_to_plutus C
       (if has_only_aura_and_grandpa_keys K (reg_keys r)
        then RegisterV0 (register_common_of r)
               (find_or_empty (aura_id K) (reg_keys r)) (find_or_empty (grandpa_id K) (reg_keys r))
        else RegisterV1 (register_common_of r) (reg_keys r))"

definition registration_with :: "register_validator_common \<Rightarrow> candidate_keys \<Rightarrow> candidate_registration" where
  "registration_with r keys = \<lparr>reg_stake_ownership = rv_stake_ownership r,
     reg_partner_chain_pub_key = rv_sidechain_pub_key r,
     reg_partner_chain_signature = rv_sidechain_signature r, reg_own_pkh = rv_own_pkh r,
     reg_registration_utxo = rv_registration_utxo r, reg_keys = keys\<rparr>"

fun candidate_registration_of :: "key_types \<Rightarrow> register_validator_datum \<Rightarrow> candidate_registration" where
  "candidate_registration_of K (RegisterV0 r aura grandpa) = registration_with r
     [\<lparr>ck_id = aura_id K, ck_bytes = aura\<rparr>, \<lparr>ck_id = grandpa_id K, ck_bytes = grandpa\<rparr>]"
| "candidate_registration_of K (RegisterV1 r keys) = registration_with r keys"

section \<open>Governed Map entries\<close>

record governed_map_datum =
  gmd_key :: bytes
  gmd_value :: bytes

text \<open>Unlike the other decoders this one reads the list without checking its length. \<open>from_utf8\<close> is the
  test of the standard library for valid UTF-8, a parameter here.\<close>

definition pl_get :: "'pd list \<Rightarrow> nat \<Rightarrow> 'pd exec" where
  "pl_get xs i = (if i < length xs then Ret (xs ! i) else Panic)"

definition governed_map_datum_try_from ::
  "(bytes \<Rightarrow> bool) \<Rightarrow> 'pd csl \<Rightarrow> 'pd \<Rightarrow> ('pd data_decoding_error + governed_map_datum) exec" where
  "governed_map_datum_try_from from_utf8 C datum =
     (let error = DataDecodingError datum ''GovernedMapDatum'' ''Expected List([UTF8String, Bytes])'' in
      case as_list C datum of
        None \<Rightarrow> Ret (Inl error)
      | Some list \<Rightarrow>
          exec_bind (pl_get list 0) (\<lambda>k.
          case as_bytes C k of
            None \<Rightarrow> Ret (Inl error)
          | Some key \<Rightarrow>
              if \<not> from_utf8 key then Ret (Inl error)
              else exec_bind (pl_get list 1) (\<lambda>v.
                Ret (ok_or (do { v \<leftarrow> as_bytes C v; Some \<lparr>gmd_key = key, gmd_value = v\<rparr> }) error))))"

definition governed_map_datum_to_plutus_data :: "'pd csl \<Rightarrow> governed_map_datum \<Rightarrow> 'pd" where
  "governed_map_datum_to_plutus_data C d = new_list C [new_bytes C (gmd_key d), new_bytes C (gmd_value d)]"

section \<open>Bridge transfers\<close>

datatype token_transfer_datum_v1 = DatumUserTransfer bytes | DatumReserveTransfer

datatype token_transfer_datum = TransferV1 token_transfer_datum_v1

fun token_transfer_datum_v1_to_plutus :: "'pd csl \<Rightarrow> token_transfer_datum_v1 \<Rightarrow> 'pd" where
  "token_transfer_datum_v1_to_plutus C (DatumUserTransfer receiver) = vgd_to_plutus C
     \<lparr>vgd_datum = new_constr C 0 [], vgd_appendix = new_constr C 0 [new_bytes C receiver], vgd_version = 1\<rparr>"
| "token_transfer_datum_v1_to_plutus C DatumReserveTransfer = vgd_to_plutus C
     \<lparr>vgd_datum = new_constr C 0 [], vgd_appendix = new_constr C 1 [], vgd_version = 1\<rparr>"

fun token_transfer_datum_to_plutus :: "'pd csl \<Rightarrow> token_transfer_datum \<Rightarrow> 'pd" where
  "token_transfer_datum_to_plutus C (TransferV1 d) = token_transfer_datum_v1_to_plutus C d"

definition decode_v1_token_transfer_datum :: "'pd csl \<Rightarrow> 'pd \<Rightarrow> token_transfer_datum option" where
  "decode_v1_token_transfer_datum C appendix =
     (case as_constr C appendix of
        None \<Rightarrow> None
      | Some (alternative, data) \<Rightarrow>
          if alternative = 0 \<and> length data = 1
          then do { receiver \<leftarrow> as_bytes C (data ! 0); Some (TransferV1 (DatumUserTransfer receiver)) }
          else if alternative = 1 \<and> data = [] then Some (TransferV1 DatumReserveTransfer)
          else None)"

definition token_transfer_try_from :: "'pd csl \<Rightarrow> 'pd \<Rightarrow> 'pd data_decoding_error + token_transfer_datum" where
  "token_transfer_try_from C data =
     (case plutus_data_version_and_payload C data of
        None \<Rightarrow> Inl (DataDecodingError data ''TokenTransferDatum'' ''unversioned datum'')
      | Some v \<Rightarrow>
          if vgd_version v = 1
          then ok_or (decode_v1_token_transfer_datum C (vgd_appendix v))
                 (DataDecodingError (vgd_appendix v) ''TokenTransferDatum'' ''malformed appendix'')
          else Inl (DataDecodingError data ''TokenTransferDatum'' ''invalid version''))"

section \<open>Reserve\<close>

datatype reserve_redeemer = DepositToReserve | ReleaseFromReserve | UpdateReserve | Handover

record asset_id =
  ai_policy_id :: bytes
  ai_asset_name :: bytes

record reserve_mutable_settings =
  total_accrued_function_asset_name :: bytes
  initial_incentive :: u64

record reserve_datum =
  rsv_token :: asset_id
  rsv_mutable_settings :: reserve_mutable_settings
  token_total_amount_transferred :: u64

fun reserve_redeemer_to_plutus :: "'pd csl \<Rightarrow> reserve_redeemer \<Rightarrow> 'pd" where
  "reserve_redeemer_to_plutus C DepositToReserve = new_constr C 0 []"
| "reserve_redeemer_to_plutus C ReleaseFromReserve = new_constr C 1 []"
| "reserve_redeemer_to_plutus C UpdateReserve = new_constr C 2 []"
| "reserve_redeemer_to_plutus C Handover = new_constr C 3 []"

definition reserve_datum_to_plutus :: "'pd csl \<Rightarrow> reserve_datum \<Rightarrow> 'pd" where
  "reserve_datum_to_plutus C r = vgd_to_plutus C \<lparr>
     vgd_datum = new_list C [
       new_constr C 0 [new_bytes C (ai_policy_id (rsv_token r)), new_bytes C (ai_asset_name (rsv_token r))],
       new_list C [new_bytes C (total_accrued_function_asset_name (rsv_mutable_settings r)),
                   new_integer C (initial_incentive (rsv_mutable_settings r))],
       new_integer C (token_total_amount_transferred r)],
     vgd_appendix = new_constr C 0 [],
     vgd_version = 0\<rparr>"

definition decode_token_id_datum :: "'pd csl \<Rightarrow> 'pd \<Rightarrow> asset_id option" where
  "decode_token_id_datum C pd =
     (case as_constr C pd of
        Some (alternative, p # n # _) \<Rightarrow>
          if alternative = 0 then do {
            p \<leftarrow> as_bytes C p;
            n \<leftarrow> as_bytes C n;
            policy_id \<leftarrow> try_array 28 p;
            asset_name \<leftarrow> try_bounded 32 n;
            Some \<lparr>ai_policy_id = policy_id, ai_asset_name = asset_name\<rparr> }
          else None
      | _ \<Rightarrow> None)"

definition decode_v0_reserve_datum :: "'pd csl \<Rightarrow> 'pd \<Rightarrow> reserve_datum option" where
  "decode_v0_reserve_datum C datum =
     (case as_list C datum of
        Some (t # m # s # _) \<Rightarrow> do {
          token \<leftarrow> decode_token_id_datum C t;
          (case as_list C m of
             Some (f # i # _) \<Rightarrow> do {
               f \<leftarrow> as_bytes C f;
               script_hash \<leftarrow> try_array 28 f;
               incentive \<leftarrow> as_integer_u64 C i;
               transferred \<leftarrow> as_integer_u64 C s;
               Some \<lparr>rsv_token = token,
                 rsv_mutable_settings =
                   \<lparr>total_accrued_function_asset_name = script_hash, initial_incentive = incentive\<rparr>,
                 token_total_amount_transferred = transferred\<rparr> }
           | _ \<Rightarrow> None) }
      | _ \<Rightarrow> None)"

definition reserve_try_from :: "'pd csl \<Rightarrow> 'pd \<Rightarrow> 'pd data_decoding_error + reserve_datum" where
  "reserve_try_from C datum =
     (case plutus_data_version_and_payload C datum of
        Some v \<Rightarrow>
          if vgd_version v = 0
          then ok_or (decode_v0_reserve_datum C (vgd_datum v))
                 (DataDecodingError (vgd_datum v) ''ReserveDatum'' ''invalid data'')
          else Inl (DataDecodingError datum ''ReserveDatum'' ''unversioned datum'')
      | None \<Rightarrow> Inl (DataDecodingError datum ''ReserveDatum'' ''unversioned datum''))"

definition after_withdrawal :: "u64 \<Rightarrow> reserve_datum \<Rightarrow> reserve_datum" where
  "after_withdrawal amount r =
     r\<lparr>token_total_amount_transferred := token_total_amount_transferred r + amount\<rparr>"

datatype ics_redeemer = DepositMoreToSupply | WithdrawFromSupply

fun ics_redeemer_to_plutus :: "'pd csl \<Rightarrow> ics_redeemer \<Rightarrow> 'pd" where
  "ics_redeemer_to_plutus C DepositMoreToSupply = new_integer C 0"
| "ics_redeemer_to_plutus C WithdrawFromSupply = new_integer C 1"

section \<open>Version oracle\<close>

type_synonym version_oracle = u32

record version_oracle_datum =
  vod_version_oracle :: version_oracle
  vod_currency_symbol :: bytes

datatype version_oracle_policy_redeemer =
    InitializeVersionOracle version_oracle bytes
  | MintVersionOracle version_oracle bytes
  | BurnVersionOracle version_oracle

definition version_oracle_try_from :: "'pd csl \<Rightarrow> 'pd \<Rightarrow> 'pd data_decoding_error + version_oracle" where
  "version_oracle_try_from C datum =
     ok_or (as_u32 C datum) (DataDecodingError datum ''VersionOracle'' ''Expected u32'')"

definition version_oracle_to_plutus :: "'pd csl \<Rightarrow> version_oracle \<Rightarrow> 'pd" where
  "version_oracle_to_plutus C v = new_integer C (ucast v)"

definition version_oracle_datum_try_from :: "'pd csl \<Rightarrow> 'pd \<Rightarrow> 'pd data_decoding_error + version_oracle_datum" where
  "version_oracle_datum_try_from C datum =
     ok_or
       (case as_list C datum of
          Some [a, b] \<Rightarrow> do {
            oracle \<leftarrow> ok (version_oracle_try_from C a);
            symbol \<leftarrow> ok (script_hash_try_from C b);
            Some \<lparr>vod_version_oracle = oracle, vod_currency_symbol = symbol\<rparr> }
        | _ \<Rightarrow> None)
       (DataDecodingError datum ''VersionOracleDatum'' ''Expected [u32, [u8;32]]'')"

definition version_oracle_datum_to_plutus :: "'pd csl \<Rightarrow> version_oracle_datum \<Rightarrow> 'pd" where
  "version_oracle_datum_to_plutus C d =
     new_list C [version_oracle_to_plutus C (vod_version_oracle d), script_hash_to_plutus C (vod_currency_symbol d)]"

definition version_oracle_redeemer_try_from ::
  "'pd csl \<Rightarrow> 'pd \<Rightarrow> 'pd data_decoding_error + version_oracle_policy_redeemer" where
  "version_oracle_redeemer_try_from C redeemer =
     ok_or
       (do {
          (alternative, data) \<leftarrow> as_constr C redeemer;
          (if alternative = 0 \<and> length data = 2 then do {
             v \<leftarrow> ok (version_oracle_try_from C (data ! 0));
             h \<leftarrow> ok (script_hash_try_from C (data ! 1));
             Some (InitializeVersionOracle v h) }
           else if alternative = 1 \<and> length data = 2 then do {
             v \<leftarrow> ok (version_oracle_try_from C (data ! 0));
             h \<leftarrow> ok (script_hash_try_from C (data ! 1));
             Some (MintVersionOracle v h) }
           else if alternative = 2 \<and> length data = 1 then do {
             v \<leftarrow> ok (version_oracle_try_from C (data ! 0));
             Some (BurnVersionOracle v) }
           else None) })
       (DataDecodingError redeemer ''VersionOraclePolicyRedeemer''
         ''Expected one of Constr 0 [u32, [u8;32]], Constr 1 [u32, [u8;32]], or Constr 2 [u32]'')"

fun version_oracle_redeemer_to_plutus :: "'pd csl \<Rightarrow> version_oracle_policy_redeemer \<Rightarrow> 'pd" where
  "version_oracle_redeemer_to_plutus C (InitializeVersionOracle v h) =
     new_constr C 0 [version_oracle_to_plutus C v, script_hash_to_plutus C h]"
| "version_oracle_redeemer_to_plutus C (MintVersionOracle v h) =
     new_constr C 1 [version_oracle_to_plutus C v, script_hash_to_plutus C h]"
| "version_oracle_redeemer_to_plutus C (BurnVersionOracle v) = new_constr C 2 [version_oracle_to_plutus C v]"

section \<open>Round trips\<close>

text \<open>The accessors on constructed data, for \<open>simp\<close>.\<close>

lemma csl_simps:
  assumes "csl_ok C"
  shows "as_list C (new_list C xs) = Some xs" "as_list C (new_bytes C b) = None"
    "as_list C (new_integer C n) = None" "as_list C (new_constr C a xs) = None"
    "as_bytes C (new_list C xs) = None" "as_bytes C (new_bytes C b) = Some b"
    "as_bytes C (new_integer C n) = None" "as_bytes C (new_constr C a xs) = None"
    "as_integer_u64 C (new_list C xs) = None" "as_integer_u64 C (new_bytes C b) = None"
    "as_integer_u64 C (new_integer C n) = Some n" "as_integer_u64 C (new_constr C a xs) = None"
    "as_constr C (new_list C xs) = None" "as_constr C (new_bytes C b) = None"
    "as_constr C (new_integer C n) = None" "as_constr C (new_constr C a xs) = Some (a, xs)"
  using assms by (simp_all add: csl_ok_def)

lemma traverse_option_map:
  "(\<And>x. x \<in> set xs \<Longrightarrow> f (g x) = Some (h x)) \<Longrightarrow> traverse_option f (map g xs) = Some (map h xs)"
  by (induction xs) auto

lemma as_u32_new_integer:
  assumes "csl_ok C"
  shows "as_u32 C (new_integer C (ucast (n :: u32))) = Some n"
  by (simp add: as_u32_def csl_simps [OF assms] try_narrow_Some_iff unat_ucast_widen)

lemma as_u16_new_integer:
  assumes "csl_ok C"
  shows "as_u16 C (new_integer C (ucast (n :: u16))) = Some n"
proof -
  have "as_u32 C (new_integer C (ucast (n :: u16))) = Some (ucast n)"
    by (simp add: as_u32_def csl_simps [OF assms] try_narrow_Some_iff unat_ucast_widen)
  then show ?thesis by (simp add: as_u16_def try_narrow_Some_iff unat_ucast_widen)
qed

lemma version_and_payload_vgd:
  assumes "csl_ok C"
  shows "plutus_data_version_and_payload C (vgd_to_plutus C v) = Some v"
  by (simp add: plutus_data_version_and_payload_def vgd_to_plutus_def csl_simps [OF assms] as_u64_def)

lemma decode_candidate_keys_to_plutus:
  assumes "csl_ok C" and "list_all (\<lambda>k. length (ck_id k) = 4) ks"
  shows "decode_candidate_keys C (candidate_keys_to_plutus C ks) = Some ks"
proof -
  have "traverse_option (decode_candidate_key C) (map (candidate_key_to_plutus C) ks) = Some (map (\<lambda>k. k) ks)"
    using assms(2)
    by (intro traverse_option_map)
       (auto simp: decode_candidate_key_def candidate_key_to_plutus_def csl_simps [OF assms(1)] try_array_def
         list_all_iff)
  then show ?thesis by (simp add: decode_candidate_keys_def candidate_keys_to_plutus_def csl_simps [OF assms(1)])
qed

definition registration_sizes_ok :: "register_validator_common \<Rightarrow> bool" where
  "registration_sizes_ok r \<longleftrightarrow>
     length (abs_pub_key (rv_stake_ownership r)) = 32 \<and> length (abs_signature (rv_stake_ownership r)) = 64 \<and>
     length (tx_hash (rv_registration_utxo r)) = 32 \<and> length (rv_own_pkh r) = 28"

lemma decode_stake_ownership:
  assumes "csl_ok C" and "length (abs_pub_key v) = 32" and "length (abs_signature v) = 64"
  shows "decode_ada_based_staking_datum C (stake_ownership_to_plutus_data C v) = Some v"
  using assms(2,3)
  by (simp add: decode_ada_based_staking_datum_def stake_ownership_to_plutus_data_def csl_simps [OF assms(1)]
      try_array_def)

lemma decode_utxo_id:
  assumes "csl_ok C" and "length (tx_hash v) = 32"
  shows "decode_utxo_id_datum C (utxo_id_to_plutus_data C v) = Some v"
  using assms(2)
  by (simp add: decode_utxo_id_datum_def utxo_id_to_plutus_data_def decode_tx_hash_datum_def
      tx_hash_to_plutus_data_def csl_simps [OF assms(1)] try_array_def as_u16_new_integer [OF assms(1)])

lemma register_try_from_to_plutus:
  assumes "csl_ok C"
    and "case d of RegisterV0 r _ _ \<Rightarrow> registration_sizes_ok r
      | RegisterV1 r ks \<Rightarrow> registration_sizes_ok r \<and> list_all (\<lambda>k. length (ck_id k) = 4) ks"
  shows "register_try_from C (register_datum_to_plutus C d) = Inr d"
  using assms(2)
  by (cases d)
     (simp_all add: register_try_from_def decode_with_legacy_def register_fields_to_plutus_def
       version_and_payload_vgd [OF assms(1)] register_decode_versioned_def decode_v0_register_validator_datum_def
       decode_v1_register_validator_datum_def csl_simps [OF assms(1)] registration_sizes_ok_def
       decode_stake_ownership [OF assms(1)] decode_utxo_id [OF assms(1)] try_array_def
       decode_candidate_keys_to_plutus [OF assms(1)])

text \<open>What decoding makes of the keys of a permissioned candidate encoded with version 0: the first key
  becomes the AURA key, the second one the GRANDPA key.\<close>

definition relabel_keys :: "key_types \<Rightarrow> candidate_keys \<Rightarrow> candidate_keys" where
  "relabel_keys K ks = map2 (\<lambda>i k. \<lparr>ck_id = i, ck_bytes = ck_bytes k\<rparr>) [aura_id K, grandpa_id K] ks"

lemma two_keys:
  assumes "has_only_aura_and_grandpa_keys K ks"
  obtains a b where "ks = [a, b]"
  using assms by (auto simp: has_only_aura_and_grandpa_keys_def length_Suc_conv numeral_2_eq_2)

lemma permissioned_v0_decode:
  assumes "csl_ok C" and "list_all (\<lambda>c. has_only_aura_and_grandpa_keys K (pcd_keys c)) cs"
  shows "\<exists>d. permissioned_try_from C (candidates_to_plutus_data_v0 C cs) = Inr d \<and>
    permissioned_data_of K d = map (\<lambda>c. c\<lparr>pcd_keys := relabel_keys K (pcd_keys c)\<rparr>) cs"
proof -
  let ?d = "map (\<lambda>c. \<lparr>pc0_sidechain_public_key = pcd_sidechain_public_key c,
      pc0_aura_public_key = ck_bytes (pcd_keys c ! 0), pc0_grandpa_public_key = ck_bytes (pcd_keys c ! 1)\<rparr>) cs"
  have two: "\<exists>a b. pcd_keys c = [a, b]" if "c \<in> set cs" for c
    using assms(2) that two_keys by (metis list_all_iff)
  have "traverse_option (decode_legacy_candidate_datum C) (map (\<lambda>candidate. new_list C
       (new_bytes C (pcd_sidechain_public_key candidate) #
        map (\<lambda>key. new_bytes C (ck_bytes key)) (pcd_keys candidate))) cs) = Some ?d"
    using two by (intro traverse_option_map) (fastforce simp: decode_legacy_candidate_datum_def csl_simps [OF assms(1)])
  then have "permissioned_try_from C (candidates_to_plutus_data_v0 C cs) = Inr (PermissionedV0 ?d)"
    by (simp add: permissioned_try_from_def decode_with_legacy_def candidates_to_plutus_data_v0_def
        version_and_payload_vgd [OF assms(1)] permissioned_decode_versioned_def permissioned_decode_legacy_def
        csl_simps [OF assms(1)])
  moreover have "permissioned_data_of K (PermissionedV0 ?d) = map (\<lambda>c. c\<lparr>pcd_keys := relabel_keys K (pcd_keys c)\<rparr>) cs"
    using two by (fastforce simp: permissioned_data_of_v0_def relabel_keys_def)
  ultimately show ?thesis by blast
qed

lemma permissioned_v1_decode:
  assumes "csl_ok C" and "list_all (\<lambda>c. list_all (\<lambda>k. length (ck_id k) = 4) (pcd_keys c)) cs"
  shows "\<exists>d. permissioned_try_from C (candidates_to_plutus_data_v1 C cs) = Inr d \<and> permissioned_data_of K d = cs"
proof -
  let ?d = "map (\<lambda>c. \<lparr>pc1_partner_chains_key = pcd_sidechain_public_key c, pc1_keys = pcd_keys c\<rparr>) cs"
  have "traverse_option (decode_v1_candidate_datum C) (map (\<lambda>candidate. new_list C
       [new_bytes C (pcd_sidechain_public_key candidate), candidate_keys_to_plutus C (pcd_keys candidate)]) cs) = Some ?d"
    using assms(2)
    by (intro traverse_option_map)
       (auto simp: decode_v1_candidate_datum_def csl_simps [OF assms(1)] list_all_iff
         decode_candidate_keys_to_plutus [OF assms(1)])
  then have "permissioned_try_from C (candidates_to_plutus_data_v1 C cs) = Inr (PermissionedV1 ?d)"
    by (simp add: permissioned_try_from_def decode_with_legacy_def candidates_to_plutus_data_v1_def
        version_and_payload_vgd [OF assms(1)] permissioned_decode_versioned_def decode_v1_appendix_def
        csl_simps [OF assms(1)])
  moreover have "permissioned_data_of K (PermissionedV1 ?d) = cs"
    by (simp add: permissioned_data_of_v1_def comp_def map_idI)
  ultimately show ?thesis by blast
qed

section \<open>Properties\<close>

text \<open>The Plutus data type of the toolkit as an instance of the accessors.\<close>

lemma d_param_decode:
  assumes "csl_ok C"
  shows "d_param_try_from C (d_parameter_to_plutus_data C dp) = Inr dp"
  by (simp add: d_param_try_from_def decode_with_legacy_def d_parameter_to_plutus_data_def csl_simps [OF assms]
      version_and_payload_vgd [OF assms] d_param_decode_versioned_def d_param_decode_legacy_def as_u16_new_integer [OF assms])

definition datum_csl :: "datum csl" where
  "datum_csl = \<lparr>new_list = ListDatum, new_bytes = ByteStringDatum, new_integer = (\<lambda>n. IntegerDatum (uint n)),
     new_constr = ConstructorDatum,
     as_list = (\<lambda>d. case d of ListDatum xs \<Rightarrow> Some xs | _ \<Rightarrow> None),
     as_bytes = (\<lambda>d. case d of ByteStringDatum b \<Rightarrow> Some b | _ \<Rightarrow> None),
     as_integer_u64 = (\<lambda>d. case d of IntegerDatum i \<Rightarrow> if 0 \<le> i \<and> i < 2 ^ 64 then Some (of_int i) else None | _ \<Rightarrow> None),
     as_constr = (\<lambda>d. case d of ConstructorDatum a xs \<Rightarrow> Some (a, xs) | _ \<Rightarrow> None)\<rparr>"

lemma datum_csl_ok: "csl_ok datum_csl"
proof -
  have "uint (n :: u64) < 18446744073709551616" for n using uint_lt2p [of n] by simp
  then show ?thesis by (simp add: csl_ok_def datum_csl_def)
qed

text \<open>C31: a registration written to the main chain is read back. Decoding the datum made from a candidate
  registration gives the registration with the same stake ownership, keys, signatures and UTxO; its
  candidate keys come back in the same order unless they are exactly an AURA and a GRANDPA key, which
  come back AURA first.\<close>

theorem registration_datum_roundtrip:
  assumes "csl_ok C" and "registration_sizes_ok (register_common_of r)"
    and "list_all (\<lambda>k. length (ck_id k) = 4) (reg_keys r)"
  shows "\<exists>d. register_try_from C (candidate_registration_to_plutus_data K C r) = Inr d \<and>
    candidate_registration_of K d = r\<lparr>reg_keys := canonical_keys K (reg_keys r)\<rparr>"
proof -
  let ?d = "if has_only_aura_and_grandpa_keys K (reg_keys r)
    then RegisterV0 (register_common_of r)
      (find_or_empty (aura_id K) (reg_keys r)) (find_or_empty (grandpa_id K) (reg_keys r))
    else RegisterV1 (register_common_of r) (reg_keys r)"
  have "register_try_from C (register_datum_to_plutus C ?d) = Inr ?d"
    using assms(2,3) by (intro register_try_from_to_plutus [OF assms(1)]) simp
  moreover have "candidate_registration_of K ?d = r\<lparr>reg_keys := canonical_keys K (reg_keys r)\<rparr>"
    by (simp add: canonical_keys_def registration_with_def register_common_of_def)
  ultimately show ?thesis unfolding candidate_registration_to_plutus_data_def by blast
qed

text \<open>C32: what a list of permissioned candidates becomes when it is written to the main chain and read
  back. When some candidate has other keys than an AURA and a GRANDPA key, the list comes back
  unchanged. Otherwise the keys are written without their type, in the order of the list, and read back
  as AURA key and GRANDPA key by position: a candidate whose GRANDPA key is listed first comes back
  with its two keys exchanged.\<close>

theorem permissioned_candidates_relabelled:
  assumes "csl_ok C" and "list_all (\<lambda>c. list_all (\<lambda>k. length (ck_id k) = 4) (pcd_keys c)) cs"
  shows "\<exists>d. permissioned_try_from C (permissioned_candidates_to_plutus_data K C cs) = Inr d \<and>
    permissioned_data_of K d =
      (if list_all (\<lambda>c. has_only_aura_and_grandpa_keys K (pcd_keys c)) cs
       then map (\<lambda>c. c\<lparr>pcd_keys := [\<lparr>ck_id = aura_id K, ck_bytes = ck_bytes (pcd_keys c ! 0)\<rparr>,
                                    \<lparr>ck_id = grandpa_id K, ck_bytes = ck_bytes (pcd_keys c ! 1)\<rparr>]\<rparr>) cs
       else cs)"
proof (cases "list_all (\<lambda>c. has_only_aura_and_grandpa_keys K (pcd_keys c)) cs")
  case True
  have "relabel_keys K (pcd_keys c) = [\<lparr>ck_id = aura_id K, ck_bytes = ck_bytes (pcd_keys c ! 0)\<rparr>,
      \<lparr>ck_id = grandpa_id K, ck_bytes = ck_bytes (pcd_keys c ! 1)\<rparr>]" if "c \<in> set cs" for c
  proof -
    have "has_only_aura_and_grandpa_keys K (pcd_keys c)" using True that by (simp add: list_all_iff)
    then obtain a b where "pcd_keys c = [a, b]" by (rule two_keys)
    then show ?thesis by (simp add: relabel_keys_def)
  qed
  then have "map (\<lambda>c. c\<lparr>pcd_keys := relabel_keys K (pcd_keys c)\<rparr>) cs =
      map (\<lambda>c. c\<lparr>pcd_keys := [\<lparr>ck_id = aura_id K, ck_bytes = ck_bytes (pcd_keys c ! 0)\<rparr>,
        \<lparr>ck_id = grandpa_id K, ck_bytes = ck_bytes (pcd_keys c ! 1)\<rparr>]\<rparr>) cs"
    by (intro map_cong refl) simp
  with permissioned_v0_decode [OF assms(1) True] show ?thesis
    using True by (simp add: permissioned_candidates_to_plutus_data_def)
next
  case False
  then show ?thesis using permissioned_v1_decode [OF assms, of K]
    by (simp only: permissioned_candidates_to_plutus_data_def if_False)
qed

text \<open>The other datums round trip: the D-parameter, bridge transfers, the reserve, the version oracle
  datum and redeemer.\<close>

theorem contract_datums_roundtrip:
  assumes "csl_ok C"
  shows "d_param_try_from C (d_parameter_to_plutus_data C dp) = Inr dp \<and>
    token_transfer_try_from C (token_transfer_datum_to_plutus C t) = Inr t \<and>
    (length (ai_policy_id (rsv_token r)) = 28 \<longrightarrow> length (ai_asset_name (rsv_token r)) \<le> 32 \<longrightarrow>
      length (total_accrued_function_asset_name (rsv_mutable_settings r)) = 28 \<longrightarrow>
      reserve_try_from C (reserve_datum_to_plutus C r) = Inr r) \<and>
    (length (vod_currency_symbol v) = 28 \<longrightarrow>
      version_oracle_datum_try_from C (version_oracle_datum_to_plutus C v) = Inr v) \<and>
    ((case q of InitializeVersionOracle i h \<Rightarrow> length h = 28 | MintVersionOracle i h \<Rightarrow> length h = 28 | _ \<Rightarrow> True) \<longrightarrow>
      version_oracle_redeemer_try_from C (version_oracle_redeemer_to_plutus C q) = Inr q)"
proof (intro conjI impI)
  note simps = csl_simps [OF assms] version_and_payload_vgd [OF assms] try_array_def try_bounded_def
  show "d_param_try_from C (d_parameter_to_plutus_data C dp) = Inr dp" by (rule d_param_decode [OF assms])
  show "token_transfer_try_from C (token_transfer_datum_to_plutus C t) = Inr t"
  proof (cases t)
    case (TransferV1 d)
    then show ?thesis
      by (cases d) (simp_all add: token_transfer_try_from_def decode_v1_token_transfer_datum_def simps)
  qed
  show "reserve_try_from C (reserve_datum_to_plutus C r) = Inr r"
    if "length (ai_policy_id (rsv_token r)) = 28" "length (ai_asset_name (rsv_token r)) \<le> 32"
      "length (total_accrued_function_asset_name (rsv_mutable_settings r)) = 28"
    using that by (simp add: reserve_try_from_def reserve_datum_to_plutus_def decode_v0_reserve_datum_def
        decode_token_id_datum_def simps)
  show "version_oracle_datum_try_from C (version_oracle_datum_to_plutus C v) = Inr v"
    if "length (vod_currency_symbol v) = 28"
    using that by (simp add: version_oracle_datum_try_from_def version_oracle_datum_to_plutus_def
        version_oracle_try_from_def version_oracle_to_plutus_def script_hash_try_from_def
        script_hash_to_plutus_def simps as_u32_new_integer [OF assms])
  show "version_oracle_redeemer_try_from C (version_oracle_redeemer_to_plutus C q) = Inr q"
    if "case q of InitializeVersionOracle i h \<Rightarrow> length h = 28 | MintVersionOracle i h \<Rightarrow> length h = 28 | _ \<Rightarrow> True"
    using that by (cases q) (simp_all add: version_oracle_redeemer_try_from_def version_oracle_try_from_def
        version_oracle_to_plutus_def script_hash_try_from_def script_hash_to_plutus_def simps
        as_u32_new_integer [OF assms])
qed

text \<open>A Governed Map entry is read back, but a datum that is a list of fewer than two elements makes
  the decoder panic instead of returning its decoding error (for one element, when that is a valid key).\<close>

theorem governed_map_datum_panics:
  assumes "csl_ok C"
  shows "(utf8 (gmd_key d) \<longrightarrow>
      governed_map_datum_try_from utf8 C (governed_map_datum_to_plutus_data C d) = Ret (Inr d)) \<and>
    governed_map_datum_try_from utf8 C (new_list C []) = Panic \<and>
    (utf8 key \<longrightarrow> governed_map_datum_try_from utf8 C (new_list C [new_bytes C key]) = Panic)"
  by (simp add: governed_map_datum_try_from_def governed_map_datum_to_plutus_data_def csl_simps [OF assms] pl_get_def)

theorem registration_datum_roundtrip_witness:
  "\<exists>d. register_try_from datum_csl (candidate_registration_to_plutus_data demo_key_types datum_csl
      \<lparr>reg_stake_ownership = \<lparr>abs_pub_key = replicate 32 1, abs_signature = replicate 64 2\<rparr>,
       reg_partner_chain_pub_key = [3], reg_partner_chain_signature = [4], reg_own_pkh = replicate 28 5,
       reg_registration_utxo = \<lparr>tx_hash = replicate 32 6, utxo_index = 7\<rparr>, reg_keys = []\<rparr>) = Inr d \<and>
    reg_partner_chain_pub_key (candidate_registration_of demo_key_types d) = [3]"
  using registration_datum_roundtrip [OF datum_csl_ok, of
      "\<lparr>reg_stake_ownership = \<lparr>abs_pub_key = replicate 32 1, abs_signature = replicate 64 2\<rparr>,
       reg_partner_chain_pub_key = [3], reg_partner_chain_signature = [4], reg_own_pkh = replicate 28 5,
       reg_registration_utxo = \<lparr>tx_hash = replicate 32 6, utxo_index = 7\<rparr>, reg_keys = []\<rparr>" demo_key_types]
  by (auto simp: registration_sizes_ok_def register_common_of_def)

theorem permissioned_candidates_relabelled_witness:
  "\<exists>d. permissioned_try_from datum_csl (permissioned_candidates_to_plutus_data demo_key_types datum_csl
      [\<lparr>pcd_sidechain_public_key = [3], pcd_keys = [\<lparr>ck_id = grandpa_id demo_key_types, ck_bytes = [1]\<rparr>,
         \<lparr>ck_id = aura_id demo_key_types, ck_bytes = [2]\<rparr>]\<rparr>]) = Inr d \<and>
    permissioned_data_of demo_key_types d =
      [\<lparr>pcd_sidechain_public_key = [3], pcd_keys = [\<lparr>ck_id = aura_id demo_key_types, ck_bytes = [1]\<rparr>,
         \<lparr>ck_id = grandpa_id demo_key_types, ck_bytes = [2]\<rparr>]\<rparr>]"
  using permissioned_candidates_relabelled [OF datum_csl_ok, of
      "[\<lparr>pcd_sidechain_public_key = [3], pcd_keys = [\<lparr>ck_id = grandpa_id demo_key_types, ck_bytes = [1]\<rparr>,
         \<lparr>ck_id = aura_id demo_key_types, ck_bytes = [2]\<rparr>]\<rparr>]" demo_key_types]
  by (simp add: demo_key_types_def has_only_aura_and_grandpa_keys_def)

theorem contract_datums_roundtrip_witness:
  "d_param_try_from datum_csl (d_parameter_to_plutus_data datum_csl
      \<lparr>num_permissioned_candidates = 3, num_registered_candidates = 5\<rparr>) =
     Inr \<lparr>num_permissioned_candidates = 3, num_registered_candidates = 5\<rparr> \<and>
   version_oracle_datum_try_from datum_csl (version_oracle_datum_to_plutus datum_csl
      \<lparr>vod_version_oracle = 4, vod_currency_symbol = replicate 28 0\<rparr>) =
     Inr \<lparr>vod_version_oracle = 4, vod_currency_symbol = replicate 28 0\<rparr>"
  using contract_datums_roundtrip [OF datum_csl_ok,
      of "\<lparr>num_permissioned_candidates = 3, num_registered_candidates = 5\<rparr>" _ _
        "\<lparr>vod_version_oracle = 4, vod_currency_symbol = replicate 28 0\<rparr>"]
  by simp

theorem governed_map_datum_panics_witness:
  "governed_map_datum_try_from (\<lambda>_. True) datum_csl (ListDatum []) = Panic"
  using governed_map_datum_panics [OF datum_csl_ok, of "\<lambda>_. True"] by (simp add: datum_csl_def)

end
