(* ===== verification/Bridge_Source.thy ===== *)
theory Bridge_Source
  imports Bridge BTree_Map Plutus_Data
begin

text \<open>
  The Db-Sync data source of the token bridge, \<open>toolkit/data-sources/db-sync/src/bridge/mod.rs\<close>, its caching
  variant \<open>bridge/cache.rs\<close>, and the query of \<open>db_model.rs\<close> they share.

  The database is the record \<open>bridge_db\<close>. \<open>db_bridge_rows\<close> is what the joins of the query select for a bridge
  configuration: the outputs with the bridged token at the supply address, in the order of the chain; the
  conditions on block numbers and the checkpoint, and the limit, are modelled. \<open>bridge_db_ok\<close> states what
  the code relies on of the database: the answers agree with the ledger, which is ordered, and has
  no bridge output in block 0. The cache of the second data source is explicit state. The tip that
  \<open>get_latest_stable_block\<close> sees is indexed by the block of the query it is called for.
\<close>

section \<open>Database\<close>

record 'pd bridge_utxo =
  block_number :: u32
  tx_ix :: u32
  bu_tx_hash :: bytes
  utxo_ix :: u16
  tokens_out :: u128
  tokens_in :: u128
  bu_datum :: "'pd option"

definition bu_utxo_id :: "'pd bridge_utxo \<Rightarrow> utxo_id" where
  "bu_utxo_id u = \<lparr>tx_hash = bu_tx_hash u, utxo_index = utxo_ix u\<rparr>"

definition bu_ordering_key :: "'pd bridge_utxo \<Rightarrow> u32 \<times> u32 \<times> u16" where
  "bu_ordering_key u = (block_number u, tx_ix u, utxo_ix u)"

datatype resolved_checkpoint = ResolvedUtxo u32 u32 u16 | ResolvedBlock u32

fun get_block_number :: "resolved_checkpoint \<Rightarrow> u32" where
  "get_block_number (ResolvedBlock n) = n"
| "get_block_number (ResolvedUtxo b t i) = b"

datatype 'e source_error = SqlxError 'e | BlockNotFound | CheckpointNotFound | NotInCache

record ('pd, 'hash, 'e) bridge_db =
  db_bridge_rows :: "bridge_scripts \<Rightarrow> 'e + 'pd bridge_utxo list"
  db_tx_block_info :: "bytes \<Rightarrow> 'e + (u32 \<times> u32) option"
  db_block_by_hash :: "'hash \<Rightarrow> 'e + u32 option"
  db_latest_stable :: "'hash \<Rightarrow> 'e + u32 option"

fun after_checkpoint :: "resolved_checkpoint \<Rightarrow> 'pd bridge_utxo \<Rightarrow> bool" where
  "after_checkpoint (ResolvedBlock n) u \<longleftrightarrow> n < block_number u"
| "after_checkpoint (ResolvedUtxo b t i) u \<longleftrightarrow> (b, t, i) < bu_ordering_key u"

definition get_bridge_utxos_tx ::
  "('pd, 'hash, 'e) bridge_db \<Rightarrow> bridge_scripts \<Rightarrow> resolved_checkpoint \<Rightarrow> u32 \<Rightarrow> u32 option \<Rightarrow>
   'e source_error + 'pd bridge_utxo list" where
  "get_bridge_utxos_tx db scripts checkpoint to_block max_utxos =
     try_bind (map_err SqlxError (db_bridge_rows db scripts)) (\<lambda>rows.
     let selected = filter (\<lambda>u. block_number u \<le> to_block \<and> after_checkpoint checkpoint u) rows
     in Inr (case max_utxos of None \<Rightarrow> selected | Some n \<Rightarrow> take (unat n) selected))"

section \<open>Data source\<close>

definition utxo_to_transfer ::
  "'pd csl \<Rightarrow> (bytes \<Rightarrow> 'r option) \<Rightarrow> 'pd bridge_utxo \<Rightarrow> 'r bridge_transfer option" where
  "utxo_to_transfer C recipient_try_from u = do {
     token_delta \<leftarrow> checked_sub (tokens_out u) (tokens_in u);
     (if token_delta = 0 then None
      else let amount = ucast token_delta in
        Some (case bu_datum u of
            None \<Rightarrow> InvalidTransfer amount (bu_utxo_id u)
          | Some datum \<Rightarrow>
              (case token_transfer_try_from C datum of
                 Inr (TransferV1 (DatumUserTransfer receiver)) \<Rightarrow>
                   (case recipient_try_from receiver of
                      Some to_address \<Rightarrow> UserTransfer amount to_address
                    | None \<Rightarrow> InvalidTransfer amount (bu_utxo_id u))
               | Inr (TransferV1 DatumReserveTransfer) \<Rightarrow> ReserveTransfer amount
               | Inl _ \<Rightarrow> InvalidTransfer amount (bu_utxo_id u)))) }"

definition resolve_checkpoint_for_utxo ::
  "('pd, 'hash, 'e) bridge_db \<Rightarrow> utxo_id \<Rightarrow> 'e source_error + resolved_checkpoint" where
  "resolve_checkpoint_for_utxo db utxo =
     try_bind (map_err SqlxError (db_tx_block_info db (tx_hash utxo))) (\<lambda>r.
     try_bind (ok_or r CheckpointNotFound) (\<lambda>(b, t). Inr (ResolvedUtxo b t (utxo_index utxo))))"

definition get_transfers ::
  "('pd, 'hash, 'e) bridge_db \<Rightarrow> 'pd csl \<Rightarrow> (bytes \<Rightarrow> 'r option) \<Rightarrow> ('r, 'hash, 'e source_error, 's) bridge_query" where
  "get_transfers db C recipient_try_from scripts data_checkpoint max_transfers current_mc_block_hash c =
     (try_bind (map_err SqlxError (db_block_by_hash db current_mc_block_hash)) (\<lambda>b.
      try_bind (ok_or b BlockNotFound) (\<lambda>current_mc_block.
      try_bind (case data_checkpoint of
          CheckpointUtxo utxo \<Rightarrow> resolve_checkpoint_for_utxo db utxo
        | CheckpointBlock number \<Rightarrow> Inr (ResolvedBlock number)) (\<lambda>checkpoint.
      try_bind (get_bridge_utxos_tx db scripts checkpoint current_mc_block (Some max_transfers)) (\<lambda>utxos.
      let new_checkpoint =
        (if utxos = [] then CheckpointBlock current_mc_block
         else if (of_nat (length utxos) :: u32) < max_transfers then CheckpointBlock current_mc_block
         else CheckpointUtxo (bu_utxo_id (last utxos)))
      in Inr (List.map_filter (utxo_to_transfer C recipient_try_from) utxos, new_checkpoint))))), c)"

section \<open>Caching data source\<close>

record 'pd token_utxo_cache =
  tc_mc_scripts :: bridge_scripts
  tc_start_block :: u32
  tc_end_block :: u32
  tc_transfers :: "'pd bridge_utxo list"
  tc_utxo_cache :: "utxo_id \<rightharpoonup> 'pd bridge_utxo"

definition token_utxo_cache_new :: "bridge_scripts \<Rightarrow> 'pd token_utxo_cache" where
  "token_utxo_cache_new default_scripts = \<lparr>tc_mc_scripts = default_scripts, tc_start_block = 0, tc_end_block = 0,
     tc_transfers = [], tc_utxo_cache = Map.empty\<rparr>"

definition set_mc_scripts :: "bridge_scripts \<Rightarrow> 'pd token_utxo_cache \<Rightarrow> 'pd token_utxo_cache" where
  "set_mc_scripts scripts c =
     (if tc_mc_scripts c \<noteq> scripts
      then c\<lparr>tc_mc_scripts := scripts, tc_transfers := [], tc_start_block := 0, tc_end_block := 0\<rparr>
      else c)"

definition set_cached_transfers ::
  "u32 \<Rightarrow> u32 \<Rightarrow> 'pd bridge_utxo list \<Rightarrow> 'pd token_utxo_cache \<Rightarrow> 'pd token_utxo_cache" where
  "set_cached_transfers start_block end_block transfers c =
     c\<lparr>tc_start_block := start_block, tc_end_block := end_block,
       tc_utxo_cache := map_of (rev (map (\<lambda>u. (bu_utxo_id u, u)) transfers)),
       tc_transfers := transfers\<rparr>"

definition serve_from_cache ::
  "'pd token_utxo_cache \<Rightarrow> resolved_checkpoint \<Rightarrow> u32 \<Rightarrow> u32 \<Rightarrow> 'pd bridge_utxo list option" where
  "serve_from_cache c checkpoint to_block max_transfers =
     (if tc_end_block c < to_block then None
      else case (case checkpoint of
            ResolvedBlock number \<Rightarrow>
              if tc_start_block c \<le> saturating_add number 1 then Some (\<lambda>u. number \<ge> block_number u) else None
          | ResolvedUtxo b t i \<Rightarrow>
              if tc_start_block c \<le> b then Some (\<lambda>u. bu_ordering_key u \<le> (b, t, i)) else None) of
        None \<Rightarrow> None
      | Some skip_pred \<Rightarrow>
          Some (take (unat max_transfers)
            (takeWhile (\<lambda>u. to_block \<ge> block_number u) (dropWhile skip_pred (tc_transfers c)))))"

definition try_resolve_checkpoint_from_cache ::
  "'pd token_utxo_cache \<Rightarrow> utxo_id \<Rightarrow> resolved_checkpoint option" where
  "try_resolve_checkpoint_from_cache c utxo =
     map_option (\<lambda>u. ResolvedUtxo (block_number u) (tx_ix u) (utxo_ix u)) (tc_utxo_cache c utxo)"

definition resolve_data_checkpoint ::
  "('pd, 'hash, 'e) bridge_db \<Rightarrow> 'pd token_utxo_cache \<Rightarrow> bridge_data_checkpoint \<Rightarrow>
   'e source_error + resolved_checkpoint" where
  "resolve_data_checkpoint db c data_checkpoint =
     (case data_checkpoint of
        CheckpointBlock number \<Rightarrow> Inr (ResolvedBlock number)
      | CheckpointUtxo utxo \<Rightarrow>
          (case try_resolve_checkpoint_from_cache c utxo of
             Some checkpoint \<Rightarrow> Inr checkpoint
           | None \<Rightarrow> resolve_checkpoint_for_utxo db utxo))"

definition fill_cache ::
  "('pd, 'hash, 'e) bridge_db \<Rightarrow> u32 \<Rightarrow> bridge_scripts \<Rightarrow> resolved_checkpoint \<Rightarrow> 'hash \<Rightarrow> u32 \<Rightarrow>
   'pd token_utxo_cache \<Rightarrow> 'e source_error + 'pd token_utxo_cache" where
  "fill_cache db cache_lookahead scripts data_checkpoint mc_hash to_block c =
     (let from_block = get_block_number data_checkpoint;
          effective_data_checkpoint = ResolvedBlock (saturating_sub from_block 1)
      in try_bind (map_err SqlxError (db_latest_stable db mc_hash)) (\<lambda>l.
      let latest_block = (case l of None \<Rightarrow> to_block | Some b \<Rightarrow> b);
          to_block = min (saturating_add to_block cache_lookahead) latest_block
      in try_bind (get_bridge_utxos_tx db scripts effective_data_checkpoint to_block None) (\<lambda>utxos.
         Inr (set_cached_transfers from_block to_block utxos c))))"

definition cached_get_transfers ::
  "('pd, 'hash, 'e) bridge_db \<Rightarrow> u32 \<Rightarrow> 'pd csl \<Rightarrow> (bytes \<Rightarrow> 'r option) \<Rightarrow>
   ('r, 'hash, 'e source_error, 'pd token_utxo_cache) bridge_query" where
  "cached_get_transfers db cache_lookahead C recipient_try_from scripts data_checkpoint max_transfers
     current_mc_block_hash c =
     (let c = set_mc_scripts scripts c in
      case try_bind (map_err SqlxError (db_block_by_hash db current_mc_block_hash)) (\<lambda>b.
           try_bind (ok_or b BlockNotFound) (\<lambda>to_block.
           try_bind (resolve_data_checkpoint db c data_checkpoint) (\<lambda>checkpoint. Inr (to_block, checkpoint)))) of
        Inl e \<Rightarrow> (Inl e, c)
      | Inr (to_block, checkpoint) \<Rightarrow>
          (case (case serve_from_cache c checkpoint to_block max_transfers of
                   Some utxos \<Rightarrow> (Inr utxos, c)
                 | None \<Rightarrow>
                     (case fill_cache db cache_lookahead scripts checkpoint current_mc_block_hash to_block c of
                        Inl e \<Rightarrow> (Inl e, c)
                      | Inr c \<Rightarrow> (ok_or (serve_from_cache c checkpoint to_block max_transfers) NotInCache, c))) of
             (Inl e, c) \<Rightarrow> (Inl e, c)
           | (Inr utxos, c) \<Rightarrow>
               let new_checkpoint =
                 (if utxos \<noteq> [] \<and> (of_nat (length utxos) :: u32) \<ge> max_transfers
                  then CheckpointUtxo (bu_utxo_id (last utxos))
                  else CheckpointBlock to_block)
               in (Inr (List.map_filter (utxo_to_transfer C recipient_try_from) utxos, new_checkpoint), c)))"

section \<open>The ledger\<close>

definition bridge_db_ok ::
  "(bridge_scripts \<Rightarrow> 'pd bridge_utxo list) \<Rightarrow> (bytes \<Rightarrow> (u32 \<times> u32) option) \<Rightarrow> ('hash \<Rightarrow> u32) \<Rightarrow>
   ('pd, 'hash, 'e) bridge_db \<Rightarrow> bool" where
  "bridge_db_ok ledger tx_pos number db \<longleftrightarrow>
     (\<forall>s. sorted_wrt (\<lambda>u v. bu_ordering_key u < bu_ordering_key v) (ledger s) \<and>
        (\<forall>u \<in> set (ledger s). 0 < block_number u \<and> tx_pos (bu_tx_hash u) = Some (block_number u, tx_ix u))) \<and>
     (\<forall>s rows. db_bridge_rows db s = Inr rows \<longrightarrow> rows = ledger s) \<and>
     (\<forall>h r. db_tx_block_info db h = Inr r \<longrightarrow> r = tx_pos h) \<and>
     (\<forall>h n. db_block_by_hash db h = Inr (Some n) \<longrightarrow> n = number h)"

lemma bridge_db_okD:
  assumes "bridge_db_ok ledger tx_pos number db"
  shows "sorted_wrt (\<lambda>u v. bu_ordering_key u < bu_ordering_key v) (ledger s)"
    and "u \<in> set (ledger s) \<Longrightarrow> 0 < block_number u"
    and "u \<in> set (ledger s) \<Longrightarrow> tx_pos (bu_tx_hash u) = Some (block_number u, tx_ix u)"
    and "db_bridge_rows db s = Inr rows \<Longrightarrow> rows = ledger s"
    and "db_tx_block_info db h = Inr r \<Longrightarrow> r = tx_pos h"
    and "db_block_by_hash db mc = Inr (Some n) \<Longrightarrow> n = number mc"
  using assms unfolding bridge_db_ok_def by blast+

definition resolved :: "(bytes \<Rightarrow> (u32 \<times> u32) option) \<Rightarrow> bridge_data_checkpoint \<Rightarrow> resolved_checkpoint" where
  "resolved tx_pos cp =
     (case cp of
        CheckpointBlock n \<Rightarrow> ResolvedBlock n
      | CheckpointUtxo u \<Rightarrow>
          (case tx_pos (tx_hash u) of
             Some (b, t) \<Rightarrow> ResolvedUtxo b t (utxo_index u)
           | None \<Rightarrow> ResolvedBlock 0))"

definition entries_below ::
  "(bridge_scripts \<Rightarrow> 'pd bridge_utxo list) \<Rightarrow> (bytes \<Rightarrow> (u32 \<times> u32) option) \<Rightarrow> bridge_scripts \<Rightarrow>
   bridge_data_checkpoint \<Rightarrow> nat" where
  "entries_below ledger tx_pos s cp = length (filter (\<lambda>u. \<not> after_checkpoint (resolved tx_pos cp) u) (ledger s))"

definition entries_upto ::
  "(bridge_scripts \<Rightarrow> 'pd bridge_utxo list) \<Rightarrow> ('hash \<Rightarrow> u32) \<Rightarrow> bridge_scripts \<Rightarrow> 'hash \<Rightarrow> nat" where
  "entries_upto ledger number s mc = length (filter (\<lambda>u. block_number u \<le> number mc) (ledger s))"

lemma key_less_block: "bu_ordering_key u < bu_ordering_key v \<Longrightarrow> block_number u \<le> block_number v"
  by (auto simp: bu_ordering_key_def less_prod_def)

lemma before_checkpoint_closed:
  "bu_ordering_key u < bu_ordering_key v \<Longrightarrow> \<not> after_checkpoint cp v \<Longrightarrow> \<not> after_checkpoint cp u"
  by (cases cp) (auto simp: not_less dest: key_less_block intro: order_trans less_imp_le)

lemma count_keys_le_nth:
  assumes "sorted_wrt (\<lambda>u v. bu_ordering_key u < bu_ordering_key v) xs" and "m < length xs"
  shows "length (filter (\<lambda>u. bu_ordering_key u \<le> bu_ordering_key (xs ! m)) xs) = Suc m"
proof -
  have "bu_ordering_key (xs ! i) \<le> bu_ordering_key (xs ! m) \<longleftrightarrow> i \<le> m" if "i < length xs" for i
    using sorted_wrt_nth_less [OF assms(1), of i m] sorted_wrt_nth_less [OF assms(1), of m i] assms(2) that
    by (cases i m rule: linorder_cases) (auto simp: not_le)
  then have "{i. i < length xs \<and> bu_ordering_key (xs ! i) \<le> bu_ordering_key (xs ! m)} = {..m}"
    using assms(2) by auto
  then show ?thesis by (simp add: length_filter_conv_card)
qed

text \<open>One page of the ledger and the checkpoint after it.\<close>

definition next_checkpoint :: "u32 \<Rightarrow> u32 \<Rightarrow> 'pd bridge_utxo list \<Rightarrow> bridge_data_checkpoint" where
  "next_checkpoint to_block n utxos =
     (if utxos = [] \<or> (of_nat (length utxos) :: u32) < n then CheckpointBlock to_block
      else CheckpointUtxo (bu_utxo_id (last utxos)))"

definition page ::
  "(bridge_scripts \<Rightarrow> 'pd bridge_utxo list) \<Rightarrow> bridge_scripts \<Rightarrow> resolved_checkpoint \<Rightarrow> u32 \<Rightarrow> u32 \<Rightarrow> 'pd bridge_utxo list" where
  "page ledger s cp to_block n =
     take (unat n) (filter (\<lambda>u. block_number u \<le> to_block \<and> after_checkpoint cp u) (ledger s))"

lemma page_next:
  assumes ok: "bridge_db_ok ledger tx_pos number db" and n: "0 < n"
    and le: "entries_below ledger tx_pos s cp \<le> entries_upto ledger number s mc"
  defines "utxos \<equiv> page ledger s (resolved tx_pos cp) (number mc) n"
  defines "cp' \<equiv> next_checkpoint (number mc) n utxos"
  shows "entries_below ledger tx_pos s cp' =
      min (entries_below ledger tx_pos s cp + unat n) (entries_upto ledger number s mc)"
    and "utxos = take (entries_below ledger tx_pos s cp' - entries_below ledger tx_pos s cp)
      (drop (entries_below ledger tx_pos s cp) (ledger s))"
proof -
  let ?L = "ledger s"
  let ?key = "\<lambda>u v :: 'a bridge_utxo. bu_ordering_key u < bu_ordering_key v"
  define d where "d = entries_below ledger tx_pos s cp"
  define q where "q = entries_upto ledger number s mc"
  define N where "N = unat n"
  note sorted = bridge_db_okD(1) [OF ok, of s]
  have dq: "d \<le> q" using le by (simp add: d_def q_def)
  have qL: "q \<le> length ?L" by (simp add: q_def entries_upto_def)
  have N: "0 < N" "N < 2 ^ 32"
    using n unsigned_less [of n] by (simp_all add: N_def word_less_nat_alt)
  have "filter (\<lambda>u. block_number u \<le> number mc \<and> \<not> \<not> after_checkpoint (resolved tx_pos cp) u) ?L = drop d (take q ?L)"
    unfolding d_def q_def entries_below_def entries_upto_def
    by (rule filter_between [OF sorted]) (auto dest: key_less_block intro: order_trans elim: before_checkpoint_closed [THEN notE])
  then have u: "utxos = take N (drop d (take q ?L))" by (simp add: utxos_def page_def N_def)
  have len: "length utxos = min N (q - d)" using u qL by simp
  have short: "(of_nat (length utxos) :: u32) < n \<longleftrightarrow> length utxos < N"
    using len N by (simp add: word_less_nat_alt unat_of_nat_fits N_def [symmetric])
  have both: "entries_below ledger tx_pos s cp' = min (d + N) q \<and>
      utxos = take (entries_below ledger tx_pos s cp' - d) (drop d ?L)"
  proof (cases "length utxos < N")
    case True
    then have "cp' = CheckpointBlock (number mc)" using short by (simp add: cp'_def next_checkpoint_def)
    then have "entries_below ledger tx_pos s cp' = q"
      by (simp add: entries_below_def resolved_def q_def entries_upto_def not_less)
    moreover have "q - d < N" using True len by simp
    ultimately show ?thesis using u dq by (simp add: drop_take)
  next
    case False
    then have lenN: "length utxos = N" "N \<le> q - d" using len by auto
    then have ne: "utxos \<noteq> []" using N by auto
    define m where "m = d + N - 1"
    have m: "m < length ?L" "Suc m = d + N" using lenN N qL dq by (auto simp: m_def)
    have "last utxos = ?L ! m"
      using ne lenN N qL dq u by (simp add: last_conv_nth m_def)
    moreover have "tx_pos (bu_tx_hash (?L ! m)) = Some (block_number (?L ! m), tx_ix (?L ! m))"
      using m(1) by (intro bridge_db_okD(3) [OF ok, of _ s]) simp
    ultimately have "resolved tx_pos cp' = ResolvedUtxo (block_number (?L ! m)) (tx_ix (?L ! m)) (utxo_ix (?L ! m))"
      using False short ne by (simp add: cp'_def next_checkpoint_def resolved_def bu_utxo_id_def)
    then have "entries_below ledger tx_pos s cp' = d + N"
      using count_keys_le_nth [OF sorted m(1)] m(2)
      by (simp add: entries_below_def not_less bu_ordering_key_def [symmetric])
    then show ?thesis using u lenN(2) dq by (simp add: drop_take min_def)
  qed
  then show "entries_below ledger tx_pos s cp' =
      min (entries_below ledger tx_pos s cp + unat n) (entries_upto ledger number s mc)"
    and "utxos = take (entries_below ledger tx_pos s cp' - entries_below ledger tx_pos s cp)
      (drop (entries_below ledger tx_pos s cp) (ledger s))"
    by (simp_all add: d_def q_def N_def)
qed

section \<open>Correctness of the data sources\<close>

lemma resolve_checkpoint_for_utxo_ok:
  assumes "bridge_db_ok ledger tx_pos number db" and "resolve_checkpoint_for_utxo db u = Inr r"
  shows "r = resolved tx_pos (CheckpointUtxo u)"
  using assms bridge_db_okD(5) [OF assms(1)]
  by (auto simp: resolve_checkpoint_for_utxo_def resolved_def)

lemma get_bridge_utxos_tx_ok:
  assumes "bridge_db_ok ledger tx_pos number db" and "get_bridge_utxos_tx db s cp to_block n = Inr utxos"
  shows "utxos = (case n of
      None \<Rightarrow> filter (\<lambda>u. block_number u \<le> to_block \<and> after_checkpoint cp u) (ledger s)
    | Some n \<Rightarrow> page ledger s cp to_block n)"
  using assms(2) bridge_db_okD(4) [OF assms(1)]
  by (auto simp: get_bridge_utxos_tx_def page_def Let_def split: option.splits)

lemma get_transfers_page:
  assumes ok: "bridge_db_ok ledger tx_pos number db"
    and q: "get_transfers db C rcp s cp n mc c = (Inr (ts, cp'), c')"
  shows "ts = List.map_filter (utxo_to_transfer C rcp) (page ledger s (resolved tx_pos cp) (number mc) n)"
    and "cp' = next_checkpoint (number mc) n (page ledger s (resolved tx_pos cp) (number mc) n)"
    and "c' = c" and "db_block_by_hash db mc = Inr (Some (number mc))"
proof -
  obtain b r utxos where b: "db_block_by_hash db mc = Inr (Some b)"
    and r: "(case cp of CheckpointUtxo utxo \<Rightarrow> resolve_checkpoint_for_utxo db utxo
        | CheckpointBlock number \<Rightarrow> Inr (ResolvedBlock number)) = Inr r"
    and utxos: "get_bridge_utxos_tx db s r b (Some n) = Inr utxos"
    and ts: "ts = List.map_filter (utxo_to_transfer C rcp) utxos" "cp' = next_checkpoint b n utxos" "c' = c"
    using q by (auto simp: get_transfers_def Let_def next_checkpoint_def split: if_splits)
  have "b = number mc" by (rule bridge_db_okD(6) [OF ok b])
  moreover have "r = resolved tx_pos cp"
    using r resolve_checkpoint_for_utxo_ok [OF ok] by (cases cp) (auto simp: resolved_def)
  ultimately show "ts = List.map_filter (utxo_to_transfer C rcp) (page ledger s (resolved tx_pos cp) (number mc) n)"
    and "cp' = next_checkpoint (number mc) n (page ledger s (resolved tx_pos cp) (number mc) n)"
    and "c' = c" and "db_block_by_hash db mc = Inr (Some (number mc))"
    using get_bridge_utxos_tx_ok [OF ok utxos] ts b by simp_all
qed

interpretation plain: bridge_source "get_transfers db C rcp" ledger "utxo_to_transfer C rcp"
  "entries_below ledger tx_pos" "entries_upto ledger number" "\<lambda>_. bridge_db_ok ledger tx_pos number db"
  for db C rcp ledger tx_pos number
proof
  fix c c' and s cp n mc ts cp'
  assume ok: "bridge_db_ok ledger tx_pos number db"
    and q: "get_transfers db C rcp s cp n mc c = (Inr (ts, cp'), c')"
    and le: "entries_below ledger tx_pos s cp \<le> entries_upto ledger number s mc" and n: "0 < n"
  show "entries_below ledger tx_pos s cp' =
      min (entries_below ledger tx_pos s cp + unat n) (entries_upto ledger number s mc) \<and>
    ts = List.map_filter (utxo_to_transfer C rcp)
      (take (entries_below ledger tx_pos s cp' - entries_below ledger tx_pos s cp)
        (drop (entries_below ledger tx_pos s cp) (ledger s)))"
    using page_next [OF ok n le] get_transfers_page(1,2) [OF ok q] by simp
qed

text \<open>The cache holds the ledger entries of its range of blocks, and positions of entries.\<close>

definition cache_inv ::
  "(bridge_scripts \<Rightarrow> 'pd bridge_utxo list) \<Rightarrow> (bytes \<Rightarrow> (u32 \<times> u32) option) \<Rightarrow> 'pd token_utxo_cache \<Rightarrow> bool" where
  "cache_inv ledger tx_pos c \<longleftrightarrow>
     tc_transfers c = filter (\<lambda>u. tc_start_block c \<le> block_number u \<and> block_number u \<le> tc_end_block c)
       (ledger (tc_mc_scripts c)) \<and>
     (\<forall>i u. tc_utxo_cache c i = Some u \<longrightarrow>
        bu_utxo_id u = i \<and> tx_pos (bu_tx_hash u) = Some (block_number u, tx_ix u))"

lemma no_entry_in_block_0:
  assumes "bridge_db_ok ledger tx_pos number db"
  shows "filter (\<lambda>u. 0 \<le> block_number u \<and> block_number u \<le> 0) (ledger s) = []"
  using bridge_db_okD(2) [OF assms, of _ s] by (fastforce simp: filter_empty_conv)

lemma cache_inv_new:
  assumes "bridge_db_ok ledger tx_pos number db"
  shows "cache_inv ledger tx_pos (token_utxo_cache_new default_scripts)"
  using no_entry_in_block_0 [OF assms] by (simp add: cache_inv_def token_utxo_cache_new_def)

lemma cache_inv_set_mc_scripts:
  assumes "bridge_db_ok ledger tx_pos number db" and "cache_inv ledger tx_pos c"
  shows "cache_inv ledger tx_pos (set_mc_scripts s c)" and "tc_mc_scripts (set_mc_scripts s c) = s"
  using no_entry_in_block_0 [OF assms(1)] assms(2) by (auto simp: cache_inv_def set_mc_scripts_def)

lemma saturating_sub_less_iff:
  assumes "0 < (b :: u32)"
  shows "saturating_sub a 1 < b \<longleftrightarrow> a \<le> b"
proof -
  have "unat (saturating_sub a 1) = unat a - 1"
  proof (cases "1 \<le> a")
    case True
    then show ?thesis by (simp add: saturating_sub_def unat_sub_le)
  next
    case False
    then have "unat a = 0" by (simp add: word_le_nat_alt)
    then have "a = 0" by (simp add: unsigned_eq_0_iff)
    then show ?thesis by (simp add: saturating_sub_def)
  qed
  then show ?thesis using assms by (auto simp: word_less_nat_alt word_le_nat_alt)
qed

lemma le_saturating_add: "(a :: u32) \<le> saturating_add a b"
proof -
  have "unat a < 2 ^ LENGTH(32)" by (rule unsigned_less)
  then show ?thesis by (simp add: word_le_nat_alt unat_saturating_add)
qed

lemma fill_cache_ok:
  assumes ok: "bridge_db_ok ledger tx_pos number db" and c: "cache_inv ledger tx_pos c" "tc_mc_scripts c = s"
    and fill: "fill_cache db look s cp mc to_block c = Inr c'"
  shows "cache_inv ledger tx_pos c'" and "tc_mc_scripts c' = s" and "tc_start_block c' = get_block_number cp"
    and "tc_end_block c' = min (saturating_add to_block look)
      (case db_latest_stable db mc of Inr (Some b) \<Rightarrow> b | _ \<Rightarrow> to_block)"
proof -
  obtain l utxos where l: "db_latest_stable db mc = Inr l"
    and utxos: "get_bridge_utxos_tx db s (ResolvedBlock (saturating_sub (get_block_number cp) 1))
        (min (saturating_add to_block look) (case l of None \<Rightarrow> to_block | Some b \<Rightarrow> b)) None = Inr utxos"
    and c': "c' = set_cached_transfers (get_block_number cp)
        (min (saturating_add to_block look) (case l of None \<Rightarrow> to_block | Some b \<Rightarrow> b)) utxos c"
    using fill by (auto simp: fill_cache_def Let_def)
  let ?to = "min (saturating_add to_block look) (case l of None \<Rightarrow> to_block | Some b \<Rightarrow> b)"
  have "utxos = filter (\<lambda>u. block_number u \<le> ?to \<and> saturating_sub (get_block_number cp) 1 < block_number u) (ledger s)"
    using get_bridge_utxos_tx_ok [OF ok utxos] by simp
  also have "\<dots> = filter (\<lambda>u. get_block_number cp \<le> block_number u \<and> block_number u \<le> ?to) (ledger s)"
    using bridge_db_okD(2) [OF ok, of _ s] by (intro filter_cong refl) (auto simp: saturating_sub_less_iff)
  finally have u: "utxos = filter (\<lambda>u. get_block_number cp \<le> block_number u \<and> block_number u \<le> ?to) (ledger s)" .
  have pos: "bu_utxo_id v = i \<and> tx_pos (bu_tx_hash v) = Some (block_number v, tx_ix v)"
    if "map_of (rev (map (\<lambda>u. (bu_utxo_id u, u)) utxos)) i = Some v" for i v
  proof -
    have "(i, v) \<in> set (map (\<lambda>u. (bu_utxo_id u, u)) utxos)" using map_of_SomeD [OF that] by simp
    then have "i = bu_utxo_id v" "v \<in> set (ledger s)" by (auto simp: u)
    then show ?thesis using bridge_db_okD(3) [OF ok] by blast
  qed
  have fields: "tc_transfers c' = utxos" "tc_start_block c' = get_block_number cp" "tc_end_block c' = ?to"
    "tc_mc_scripts c' = s" "tc_utxo_cache c' = map_of (rev (map (\<lambda>u. (bu_utxo_id u, u)) utxos))"
    using c(2) by (simp_all add: c' set_cached_transfers_def)
  show "cache_inv ledger tx_pos c'"
    unfolding cache_inv_def fields by (intro conjI allI impI u) (blast dest: pos)+
  show "tc_mc_scripts c' = s" "tc_start_block c' = get_block_number cp"
    "tc_end_block c' = min (saturating_add to_block look)
      (case db_latest_stable db mc of Inr (Some b) \<Rightarrow> b | _ \<Rightarrow> to_block)"
    using c(2) l by (auto simp: c' set_cached_transfers_def split: option.splits)
qed

text \<open>What the cache serves is the page the database would have returned.\<close>

lemma serve_from_cache_page:
  assumes ok: "bridge_db_ok ledger tx_pos number db" and c: "cache_inv ledger tx_pos c" "tc_mc_scripts c = s"
    and serve: "serve_from_cache c cp to_block n = Some utxos"
  shows "utxos = page ledger s cp to_block n"
proof -
  let ?key = "\<lambda>u v :: 'a bridge_utxo. bu_ordering_key u < bu_ordering_key v"
  define skip where "skip = (\<lambda>u :: 'a bridge_utxo. \<not> after_checkpoint cp u)"
  have to: "to_block \<le> tc_end_block c" using serve by (auto simp: serve_from_cache_def split: if_splits)
  have u: "utxos = take (unat n) (takeWhile (\<lambda>u. to_block \<ge> block_number u) (dropWhile skip (tc_transfers c)))"
    using serve
    by (cases cp) (auto simp: serve_from_cache_def skip_def not_less fun_eq_iff split: if_splits)
  have start: "tc_start_block c \<le> block_number u" if "after_checkpoint cp u" for u
  proof (cases cp)
    case (ResolvedBlock m)
    then have st: "tc_start_block c \<le> saturating_add m 1" using serve by (auto simp: serve_from_cache_def split: if_splits)
    have mb: "m < block_number u" using that ResolvedBlock by simp
    moreover have "unat (block_number u) < 2 ^ LENGTH(32)" by (rule unsigned_less)
    ultimately have "unat m + 1 < 2 ^ 32" by (simp add: word_less_nat_alt)
    then have "unat (saturating_add m 1) = unat m + 1" by (simp add: unat_saturating_add)
    then have "saturating_add m 1 \<le> block_number u" using mb by (simp add: word_le_nat_alt word_less_nat_alt)
    with st show ?thesis by simp
  next
    case (ResolvedUtxo b t i)
    then have "tc_start_block c \<le> b" using serve by (auto simp: serve_from_cache_def split: if_splits)
    moreover have "b \<le> block_number u" using that ResolvedUtxo by (auto simp: bu_ordering_key_def less_prod_def)
    ultimately show ?thesis by simp
  qed
  have tr: "tc_transfers c = filter (\<lambda>u. tc_start_block c \<le> block_number u \<and> block_number u \<le> tc_end_block c) (ledger s)"
    using c by (simp add: cache_inv_def)
  have sorted: "sorted_wrt ?key (tc_transfers c)"
    unfolding tr by (rule sorted_wrt_filter [OF bridge_db_okD(1) [OF ok]])
  have drop: "dropWhile skip (tc_transfers c) = filter (\<lambda>u. \<not> skip u) (tc_transfers c)"
    by (rule filter_initial_segment(4) [OF sorted]) (simp add: skip_def before_checkpoint_closed)
  have "takeWhile (\<lambda>u. to_block \<ge> block_number u) (dropWhile skip (tc_transfers c)) =
      filter (\<lambda>u. to_block \<ge> block_number u) (filter (\<lambda>u. \<not> skip u) (tc_transfers c))"
    unfolding drop
    by (rule filter_initial_segment(3) [OF sorted_wrt_filter [OF sorted]]) (auto dest: key_less_block intro: order_trans)
  also have "\<dots> = filter (\<lambda>u. block_number u \<le> to_block \<and> after_checkpoint cp u) (ledger s)"
    unfolding tr filter_filter skip_def by (intro filter_cong refl) (use start to in \<open>auto intro: order_trans\<close>)
  finally show ?thesis using u by (simp add: page_def)
qed

lemma resolve_data_checkpoint_ok:
  assumes "bridge_db_ok ledger tx_pos number db" and "cache_inv ledger tx_pos c"
    and "resolve_data_checkpoint db c cp = Inr r"
  shows "r = resolved tx_pos cp"
proof (cases cp)
  case (CheckpointUtxo u)
  show ?thesis
  proof (cases "tc_utxo_cache c u")
    case None
    then show ?thesis using CheckpointUtxo assms(3) resolve_checkpoint_for_utxo_ok [OF assms(1)]
      by (simp add: resolve_data_checkpoint_def try_resolve_checkpoint_from_cache_def)
  next
    case (Some v)
    have "bu_utxo_id v = u \<and> tx_pos (bu_tx_hash v) = Some (block_number v, tx_ix v)"
      using assms(2) Some unfolding cache_inv_def by blast
    then have "resolved tx_pos cp = ResolvedUtxo (block_number v) (tx_ix v) (utxo_ix v)"
      by (auto simp: CheckpointUtxo resolved_def bu_utxo_id_def)
    then show ?thesis using CheckpointUtxo Some assms(3)
      by (simp add: resolve_data_checkpoint_def try_resolve_checkpoint_from_cache_def)
  qed
next
  case (CheckpointBlock n)
  then show ?thesis using assms(3) by (simp add: resolve_data_checkpoint_def resolved_def)
qed

text \<open>The utxos the caching data source works with, and the cache it leaves.\<close>

definition cached_utxos ::
  "('pd, 'hash, 'e) bridge_db \<Rightarrow> u32 \<Rightarrow> bridge_scripts \<Rightarrow> resolved_checkpoint \<Rightarrow> 'hash \<Rightarrow> u32 \<Rightarrow> u32 \<Rightarrow>
   'pd token_utxo_cache \<Rightarrow> ('e source_error + 'pd bridge_utxo list) \<times> 'pd token_utxo_cache" where
  "cached_utxos db look s cp mc to_block n c =
     (case serve_from_cache c cp to_block n of
        Some utxos \<Rightarrow> (Inr utxos, c)
      | None \<Rightarrow>
          (case fill_cache db look s cp mc to_block c of
             Inl e \<Rightarrow> (Inl e, c)
           | Inr c \<Rightarrow> (ok_or (serve_from_cache c cp to_block n) NotInCache, c)))"

lemma cached_utxos_ok:
  assumes ok: "bridge_db_ok ledger tx_pos number db" and c: "cache_inv ledger tx_pos c" "tc_mc_scripts c = s"
    and q: "cached_utxos db look s cp mc to_block n c = (r, c')"
  shows "cache_inv ledger tx_pos c' \<and> tc_mc_scripts c' = s \<and>
    (\<forall>utxos. r = Inr utxos \<longrightarrow> utxos = page ledger s cp to_block n)"
proof (cases "serve_from_cache c cp to_block n")
  case (Some utxos)
  then show ?thesis using q c serve_from_cache_page [OF ok c Some] by (auto simp: cached_utxos_def)
next
  case None
  show ?thesis
  proof (cases "fill_cache db look s cp mc to_block c")
    case (Inl e)
    then show ?thesis using q c None by (auto simp: cached_utxos_def)
  next
    case (Inr c1)
    have c1: "cache_inv ledger tx_pos c1" "tc_mc_scripts c1 = s" using fill_cache_ok [OF ok c Inr] by simp_all
    have "r = ok_or (serve_from_cache c1 cp to_block n) NotInCache" "c' = c1"
      using q None Inr by (auto simp: cached_utxos_def)
    then show ?thesis using c1 serve_from_cache_page [OF ok c1] by auto
  qed
qed

lemma next_checkpoint_alt:
  "next_checkpoint to_block n utxos =
     (if utxos \<noteq> [] \<and> (of_nat (length utxos) :: u32) \<ge> n then CheckpointUtxo (bu_utxo_id (last utxos))
      else CheckpointBlock to_block)"
  by (auto simp: next_checkpoint_def not_less)

lemma cached_get_transfers_eq:
  "cached_get_transfers db look C rcp s cp n mc c =
     (let c = set_mc_scripts s c in
      case try_bind (map_err SqlxError (db_block_by_hash db mc)) (\<lambda>b.
           try_bind (ok_or b BlockNotFound) (\<lambda>to_block.
           try_bind (resolve_data_checkpoint db c cp) (\<lambda>checkpoint. Inr (to_block, checkpoint)))) of
        Inl e \<Rightarrow> (Inl e, c)
      | Inr (to_block, checkpoint) \<Rightarrow>
          (case cached_utxos db look s checkpoint mc to_block n c of
             (Inl e, c) \<Rightarrow> (Inl e, c)
           | (Inr utxos, c) \<Rightarrow>
               (Inr (List.map_filter (utxo_to_transfer C rcp) utxos, next_checkpoint to_block n utxos), c)))"
  unfolding cached_get_transfers_def cached_utxos_def next_checkpoint_alt Let_def by (rule refl)

lemma cached_get_transfers_page:
  assumes ok: "bridge_db_ok ledger tx_pos number db" and c: "cache_inv ledger tx_pos c"
    and q: "cached_get_transfers db look C rcp s cp n mc c = (r, c')"
  shows "cache_inv ledger tx_pos c'"
    and "r = Inr (ts, cp') \<Longrightarrow>
      ts = List.map_filter (utxo_to_transfer C rcp) (page ledger s (resolved tx_pos cp) (number mc) n) \<and>
      cp' = next_checkpoint (number mc) n (page ledger s (resolved tx_pos cp) (number mc) n)"
proof -
  let ?c = "set_mc_scripts s c"
  note c0 = cache_inv_set_mc_scripts [OF ok c, of s]
  let ?pre = "try_bind (map_err SqlxError (db_block_by_hash db mc)) (\<lambda>b.
      try_bind (ok_or b BlockNotFound) (\<lambda>to_block.
      try_bind (resolve_data_checkpoint db ?c cp) (\<lambda>checkpoint. Inr (to_block, checkpoint))))"
  have both: "cache_inv ledger tx_pos c' \<and> (r = Inr (ts, cp') \<longrightarrow>
      ts = List.map_filter (utxo_to_transfer C rcp) (page ledger s (resolved tx_pos cp) (number mc) n) \<and>
      cp' = next_checkpoint (number mc) n (page ledger s (resolved tx_pos cp) (number mc) n))"
  proof (cases ?pre)
    case (Inl e)
    then show ?thesis using q c0 by (auto simp: cached_get_transfers_eq Let_def)
  next
    case (Inr p)
    then obtain b chk where p: "p = (b, chk)" "db_block_by_hash db mc = Inr (Some b)"
      "resolve_data_checkpoint db ?c cp = Inr chk" by auto
    have b: "b = number mc" by (rule bridge_db_okD(6) [OF ok p(2)])
    have chk: "chk = resolved tx_pos cp" by (rule resolve_data_checkpoint_ok [OF ok c0(1) p(3)])
    obtain u c1 where u: "cached_utxos db look s chk mc b n ?c = (u, c1)" by fastforce
    note uk = cached_utxos_ok [OF ok c0 u]
    have "(r, c') = (case u of Inl e \<Rightarrow> (Inl e, c1) | Inr utxos \<Rightarrow>
        (Inr (List.map_filter (utxo_to_transfer C rcp) utxos, next_checkpoint b n utxos), c1))"
      using q Inr u p(1) by (simp add: cached_get_transfers_eq Let_def)
    then show ?thesis using uk b chk by (cases u) auto
  qed
  show "cache_inv ledger tx_pos c'" using both by (rule conjunct1)
  show "r = Inr (ts, cp') \<Longrightarrow>
      ts = List.map_filter (utxo_to_transfer C rcp) (page ledger s (resolved tx_pos cp) (number mc) n) \<and>
      cp' = next_checkpoint (number mc) n (page ledger s (resolved tx_pos cp) (number mc) n)"
    using both by blast
qed

interpretation cached: bridge_source "cached_get_transfers db look C rcp" ledger "utxo_to_transfer C rcp"
  "entries_below ledger tx_pos" "entries_upto ledger number"
  "\<lambda>c. bridge_db_ok ledger tx_pos number db \<and> cache_inv ledger tx_pos c"
  for db look C rcp ledger tx_pos number
proof
  fix c c' s cp n mc r
  assume ok: "bridge_db_ok ledger tx_pos number db \<and> cache_inv ledger tx_pos c"
    and q: "cached_get_transfers db look C rcp s cp n mc c = (r, c')"
  show "bridge_db_ok ledger tx_pos number db \<and> cache_inv ledger tx_pos c'"
    using ok cached_get_transfers_page(1) [OF conjunct1 [OF ok] conjunct2 [OF ok] q] by blast
next
  fix c c' s cp n mc ts cp'
  assume ok: "bridge_db_ok ledger tx_pos number db \<and> cache_inv ledger tx_pos c"
    and q: "cached_get_transfers db look C rcp s cp n mc c = (Inr (ts, cp'), c')"
    and le: "entries_below ledger tx_pos s cp \<le> entries_upto ledger number s mc" and n: "0 < n"
  show "entries_below ledger tx_pos s cp' =
      min (entries_below ledger tx_pos s cp + unat n) (entries_upto ledger number s mc) \<and>
    ts = List.map_filter (utxo_to_transfer C rcp)
      (take (entries_below ledger tx_pos s cp' - entries_below ledger tx_pos s cp)
        (drop (entries_below ledger tx_pos s cp) (ledger s)))"
    using page_next [OF conjunct1 [OF ok] n le]
      cached_get_transfers_page(2) [OF conjunct1 [OF ok] conjunct2 [OF ok] q refl] by simp
qed

section \<open>Properties\<close>



definition demo_utxos :: "datum bridge_utxo list" where
  "demo_utxos =
     [\<lparr>block_number = 3, tx_ix = 0, bu_tx_hash = [1], utxo_ix = 0, tokens_out = 5, tokens_in = 0, bu_datum = None\<rparr>,
      \<lparr>block_number = 4, tx_ix = 0, bu_tx_hash = [2], utxo_ix = 1, tokens_out = 7, tokens_in = 5, bu_datum = None\<rparr>]"

definition demo_tx_pos :: "bytes \<Rightarrow> (u32 \<times> u32) option" where
  "demo_tx_pos h = (if h = [1] then Some (3, 0) else if h = [2] then Some (4, 0) else None)"

definition demo_db :: "('hash \<Rightarrow> u32) \<Rightarrow> (datum, 'hash, unit) bridge_db" where
  "demo_db number = \<lparr>db_bridge_rows = (\<lambda>_. Inr demo_utxos), db_tx_block_info = (\<lambda>h. Inr (demo_tx_pos h)),
     db_block_by_hash = (\<lambda>h. Inr (Some (number h))), db_latest_stable = (\<lambda>_. Inr None)\<rparr>"

definition demo_br_scripts :: bridge_scripts where
  "demo_br_scripts = \<lparr>token_policy_id = [1], token_asset_name = [2],
     illiquid_circulation_supply_validator_address = [3]\<rparr>"

definition demo_br_state :: bridge_state where
  "demo_br_state = \<lparr>br_main_chain_scripts = Some demo_br_scripts, br_data_checkpoint = Some (CheckpointBlock 2)\<rparr>"

definition demo_transfers :: "bytes bridge_transfer list" where
  "demo_transfers = [InvalidTransfer 5 \<lparr>tx_hash = [1], utxo_index = 0\<rparr>, InvalidTransfer 2 \<lparr>tx_hash = [2], utxo_index = 1\<rparr>]"

lemma demo_db_ok: "bridge_db_ok (\<lambda>_. demo_utxos) demo_tx_pos number (demo_db number)"
  by (simp add: bridge_db_ok_def demo_db_def demo_utxos_def demo_tx_pos_def bu_ordering_key_def)

lemma demo_source:
  "get_transfers (demo_db id) datum_csl Some demo_br_scripts (CheckpointBlock 2) 2 5 c =
     (Inr (demo_transfers, CheckpointUtxo \<lparr>tx_hash = [2], utxo_index = 1\<rparr>), c)"
  by (simp add: get_transfers_def demo_db_def get_bridge_utxos_tx_def demo_utxos_def demo_transfers_def
      utxo_to_transfer_def checked_sub_def bu_utxo_id_def List.map_filter_def)


lemma demo_cached_run:
  assumes "number mc = 5"
  shows "\<exists>c'. br_run demo_br_config (cached_get_transfers (demo_db number) 10 datum_csl Some)
     (demo_br_state, [], token_utxo_cache_new demo_br_scripts) [mc]
     (demo_br_state\<lparr>br_data_checkpoint := Some (CheckpointUtxo \<lparr>tx_hash = [2], utxo_index = 1\<rparr>)\<rparr>, demo_transfers, c')"
proof -
  let ?cp = "CheckpointUtxo \<lparr>tx_hash = [2], utxo_index = 1\<rparr>"
  let ?idp = "BrActiveV1 \<lparr>tb_transfers = demo_transfers, tb_data_checkpoint = ?cp\<rparr>"
  let ?call = "HandleTransfers demo_transfers ?cp"
  obtain c1 where q: "cached_get_transfers (demo_db number) 10 datum_csl Some demo_br_scripts (CheckpointBlock 2) 2 mc
      (token_utxo_cache_new demo_br_scripts) = (Inr (demo_transfers, ?cp), c1)"
    using cached_get_transfers_page [OF demo_db_ok cache_inv_new [OF demo_db_ok]] assms
    by (simp add: cached_get_transfers_eq cached_utxos_def serve_from_cache_def fill_cache_def token_utxo_cache_new_def
        set_mc_scripts_def set_cached_transfers_def resolve_data_checkpoint_def demo_db_def get_bridge_utxos_tx_def
        demo_utxos_def demo_transfers_def utxo_to_transfer_def checked_sub_def bu_utxo_id_def List.map_filter_def
        saturating_add_def saturating_sub_def next_checkpoint_def)
  have idp: "br_idp_new (br_api_of demo_br_config demo_br_state) mc (cached_get_transfers (demo_db number) 10 datum_csl Some)
      (token_utxo_cache_new demo_br_scripts) = (Inr ?idp, c1)"
    by (simp add: br_idp_new_def br_idp_new_v1_def br_api_of_def demo_br_state_def demo_br_config_def q)
  have created: "br_create_inherent demo_br_config demo_br_state (br_provide_inherent_data ?idp) = Ret (Some ?call)"
    by (simp add: br_create_inherent_iff demo_br_config_def demo_transfers_def)
  have ver: "verify_inherents (br_check_inherent demo_br_config) br_is_inherent br_is_inherent_required demo_br_state
      (br_provide_inherent_data ?idp) [?call]"
    by (rule br.honest_block_accepted [OF TrueI]) (simp only: honest_calls_def created exec_map.simps option.case)
  have run: "br_inherents demo_br_config True [?call] (demo_br_state, []) =
      Inr (demo_br_state\<lparr>br_data_checkpoint := Some ?cp\<rparr>, demo_transfers)"
    by (simp add: handle_transfers_def demo_br_config_def demo_transfers_def ensure_def)
  show ?thesis
    by (rule exI, rule br_run.block [OF idp _ _ ver created run br_run.start]) simp_all
qed


end
