(* ===== verification/Production_Log.thy ===== *)
theory Production_Log
  imports Committee_Pallet BTree_Map
begin

text \<open>
  The block production log, \<open>toolkit/block-production-log/pallet/src/lib.rs\<close>: every block appends its
  moment and its author, and consumers read and remove the entries up to a moment. The authors are those
  of the demo runtime, \<open>demo/runtime/src/lib.rs\<close>, which reads them from the current committee.

  \<open>participation_provider\<close> is the contract of the trait \<open>BlockParticipationProvider\<close>. It is met by the
  log itself and by the provider of the demo runtime, which releases the log every few slots.
\<close>

section \<open>Authors\<close>

datatype 'id block_author = Incentivized (author_id: 'id) (author_pool: bytes) | ProBono (author_id: 'id)

text \<open>The derived order: by constructor, then by the fields.\<close>

definition author_rank :: "'a block_author \<Rightarrow> nat \<times> 'a \<times> bytes" where
  "author_rank a = (case a of Incentivized i p \<Rightarrow> (0, i, p) | ProBono i \<Rightarrow> (1, i, []))"

instantiation block_author :: (linorder) linorder
begin

definition less_eq_block_author :: "'a block_author \<Rightarrow> 'a block_author \<Rightarrow> bool" where
  "less_eq_block_author a b \<longleftrightarrow> author_rank a \<le> author_rank b"

definition less_block_author :: "'a block_author \<Rightarrow> 'a block_author \<Rightarrow> bool" where
  "less_block_author a b \<longleftrightarrow> author_rank a < author_rank b"

instance
proof
  fix a b :: "'a block_author"
  show "a \<le> b \<Longrightarrow> b \<le> a \<Longrightarrow> a = b"
    by (cases a; cases b) (auto simp: less_eq_block_author_def author_rank_def)
qed (auto simp: less_eq_block_author_def less_block_author_def)

end

fun author_of_member :: "('id, 'keys) committee_member \<Rightarrow> 'id block_author" where
  "author_of_member (MemberPermissioned i keys) = ProBono i"
| "author_of_member (MemberRegistered i keys stake_pool_pub_key) = Incentivized i stake_pool_pub_key"

text \<open>\<open>key_hash\<close> stands for the Blake2b hash of \<open>StakePoolPublicKey::hash\<close>.\<close>

fun as_cardano_spo :: "(bytes \<Rightarrow> bytes) \<Rightarrow> 'id block_author \<Rightarrow> bytes option" where
  "as_cardano_spo key_hash (Incentivized i key) = Some (key_hash key)"
| "as_cardano_spo key_hash (ProBono i) = None"

definition get_author ::
  "('digest \<Rightarrow> nat option) \<Rightarrow> 'digest \<Rightarrow> ('acc, 'id, 'keys) smc_state \<Rightarrow> 'id block_author option" where
  "get_author find_author digests st = map_option author_of_member (find_current_authority find_author digests st)"

section \<open>The log\<close>

type_synonym ('m, 'a) production_log = "('m \<times> 'a) list"

definition log_on_initialize :: "'a option \<Rightarrow> 'm option \<Rightarrow> ('m, 'a) production_log \<Rightarrow> ('m, 'a) production_log" where
  "log_on_initialize author moment log =
     (case author of
        None \<Rightarrow> log
      | Some author \<Rightarrow> (case moment of None \<Rightarrow> log | Some moment \<Rightarrow> log @ [(moment, author)]))"

text \<open>\<open>partition_point\<close> of the standard library: on a slice whose elements with the property come first,
  the number of these elements.\<close>

definition partition_point :: "('x \<Rightarrow> bool) \<Rightarrow> 'x list \<Rightarrow> nat" where
  "partition_point p xs = length (takeWhile p xs)"

definition take_prefix :: "'m::linorder \<Rightarrow> ('m, 'a) production_log \<Rightarrow> ('m \<times> 'a) list \<times> ('m, 'a) production_log" where
  "take_prefix moment log =
     (let pos = partition_point (\<lambda>(s, _). s \<le> moment) log in (take pos log, drop pos log))"

definition peek_prefix :: "'m::linorder \<Rightarrow> ('m, 'a) production_log \<Rightarrow> ('m \<times> 'a) list" where
  "peek_prefix moment log = takeWhile (\<lambda>(s, _). s \<le> moment) log"

definition drop_prefix :: "'m::linorder \<Rightarrow> ('m, 'a) production_log \<Rightarrow> ('m, 'a) production_log" where
  "drop_prefix moment log =
     (let position = partition_point (\<lambda>(s, _). s \<le> moment) log in drop position log)"

lemma partition_point_split:
  "take (partition_point p xs) xs = takeWhile p xs" "drop (partition_point p xs) xs = dropWhile p xs"
  by (simp_all add: partition_point_def flip: takeWhile_eq_take dropWhile_eq_drop)

text \<open>Taking a prefix is peeking it and dropping it.\<close>

lemma take_prefix_eq: "take_prefix moment log = (peek_prefix moment log, drop_prefix moment log)"
  by (simp add: take_prefix_def peek_prefix_def drop_prefix_def partition_point_split)

lemma peek_append_drop: "peek_prefix moment log @ drop_prefix moment log = log"
  by (simp add: peek_prefix_def drop_prefix_def partition_point_split)

text \<open>On a log with ascending moments the prefix is all the entries up to the moment.\<close>

lemma drop_prefix_covers: "\<forall>(s, a) \<in> set log. s \<le> moment \<Longrightarrow> drop_prefix moment log = []"
  by (auto simp: drop_prefix_def partition_point_split)

lemma peek_prefix_covers: "\<forall>(s, a) \<in> set log. s \<le> moment \<Longrightarrow> peek_prefix moment log = log"
  by (auto simp: peek_prefix_def takeWhile_eq_all_conv)

section \<open>Providers of blocks to process\<close>

locale participation_provider =
  fixes blocks_to_process :: "'m::linorder \<Rightarrow> 's \<Rightarrow> ('m \<times> 'a::linorder) list exec"
    and discard_processed_blocks :: "'m \<Rightarrow> 's \<Rightarrow> 's"
    and on_initialize :: "'a option \<Rightarrow> 'm option \<Rightarrow> 's \<Rightarrow> 's"
    and log_of :: "'s \<Rightarrow> ('m, 'a) production_log"
  assumes processes_prefix:
      "blocks_to_process moment s = Ret bs \<Longrightarrow> bs \<noteq> [] \<Longrightarrow> bs = peek_prefix moment (log_of s)"
    and discards_prefix: "log_of (discard_processed_blocks moment s) = drop_prefix moment (log_of s)"
    and logs_block: "log_of (on_initialize author moment' s) = log_on_initialize author moment' (log_of s)"

text \<open>The log pallet's own implementation of the trait.\<close>

definition log_blocks_to_process :: "'m::linorder \<Rightarrow> ('m, 'a) production_log \<Rightarrow> ('m \<times> 'a) list exec" where
  "log_blocks_to_process moment log = Ret (peek_prefix moment log)"

definition log_discard_processed_blocks :: "'m::linorder \<Rightarrow> ('m, 'a) production_log \<Rightarrow> ('m, 'a) production_log" where
  "log_discard_processed_blocks moment log = drop_prefix moment log"

interpretation lp: participation_provider log_blocks_to_process log_discard_processed_blocks log_on_initialize id
  by unfold_locales (auto simp: log_blocks_to_process_def log_discard_processed_blocks_def)

text \<open>The provider of the demo runtime, \<open>demo/runtime/src/test_helper_pallet.rs\<close>, releases the log at the
  slots that are multiples of a period. The remainder by a zero period panics.\<close>

record 'a helper_state =
  production_log :: "(u64, 'a) production_log"
  release_period :: u64

definition helper_blocks_to_process :: "u64 \<Rightarrow> 'a helper_state \<Rightarrow> (u64 \<times> 'a) list exec" where
  "helper_blocks_to_process slot st =
     (let period = release_period st in
      if period = 0 then Panic
      else if slot mod period = 0 then Ret (peek_prefix slot (production_log st)) else Ret [])"

definition helper_discard_processed_blocks :: "u64 \<Rightarrow> 'a helper_state \<Rightarrow> 'a helper_state" where
  "helper_discard_processed_blocks slot st = st\<lparr>production_log := drop_prefix slot (production_log st)\<rparr>"

definition helper_on_initialize :: "'a option \<Rightarrow> u64 option \<Rightarrow> 'a helper_state \<Rightarrow> 'a helper_state" where
  "helper_on_initialize author moment st = st\<lparr>production_log := log_on_initialize author moment (production_log st)\<rparr>"

interpretation hp: participation_provider helper_blocks_to_process helper_discard_processed_blocks
  helper_on_initialize production_log
  by unfold_locales
    (auto simp: helper_blocks_to_process_def helper_discard_processed_blocks_def helper_on_initialize_def
      Let_def split: if_splits)

end
