(* ===== verification/Block_Participation.thy ===== *)
theory Block_Participation
  imports Production_Log Inherents Mainchain_Epoch
begin

text \<open>
  Block participation data: \<open>toolkit/block-participation/pallet/src/lib.rs\<close> and the inherent data provider
  of \<open>toolkit/block-participation/primitives/src/lib.rs\<close>. In a block that releases data, the provider
  counts the logged blocks per main chain epoch and producer, joins them with the stake delegation of
  the epoch, and the pallet's inherent discards the counted blocks.

  A hash map of the standard library is its list of entries in some order; the order in which a node
  iterates over it is a parameter, \<open>hash_order_ok\<close> states that it visits every entry once. The data source
  is a parameter that may keep a cache between queries; \<open>distribution_source\<close> is its contract.
\<close>

section \<open>Stake delegation\<close>

datatype delegator_key = StakeKeyHash bytes | ScriptKeyHash (hash_raw: bytes) (script_hash: bytes)

text \<open>The derived order: by constructor, then by the fields.\<close>

definition delegator_rank :: "delegator_key \<Rightarrow> nat \<times> bytes \<times> bytes" where
  "delegator_rank k = (case k of StakeKeyHash h \<Rightarrow> (0, h, []) | ScriptKeyHash h s \<Rightarrow> (1, h, s))"

instantiation delegator_key :: linorder
begin

definition less_eq_delegator_key :: "delegator_key \<Rightarrow> delegator_key \<Rightarrow> bool" where
  "less_eq_delegator_key a b \<longleftrightarrow> delegator_rank a \<le> delegator_rank b"

definition less_delegator_key :: "delegator_key \<Rightarrow> delegator_key \<Rightarrow> bool" where
  "less_delegator_key a b \<longleftrightarrow> delegator_rank a < delegator_rank b"

instance
proof
  fix a b :: delegator_key
  show "a \<le> b \<Longrightarrow> b \<le> a \<Longrightarrow> a = b"
    by (cases a; cases b) (auto simp: less_eq_delegator_key_def delegator_rank_def)
qed (auto simp: less_eq_delegator_key_def less_delegator_key_def)

end

record pool_delegation =
  total_stake :: stake_delegation
  delegators :: "(delegator_key, u64) btree_map"

type_synonym stake_distribution = "(bytes, pool_delegation) btree_map"

section \<open>Pallet\<close>

datatype bp_inherent_error = BpInherentRequired | BpUnexpectedInherent | BpInvalidInherentData

datatype bp_error = BpBadOrigin | MomentNotIncreasing

datatype 'm bp_call = NoteProcessing (up_to_moment: 'm)

record ('o, 'm, 'a, 's) bp_config =
  bp_none_origin :: "'o \<Rightarrow> bool"
  cfg_blocks_to_process :: "'m \<Rightarrow> 's \<Rightarrow> ('m \<times> 'a) list exec"
  cfg_discard_processed_blocks :: "'m \<Rightarrow> 's \<Rightarrow> 's"
  target_inherent_id :: bytes

definition bp_decode_inherent_data :: "'m inherent_data \<Rightarrow> bp_inherent_error + 'm option" where
  "bp_decode_inherent_data data = map_err (\<lambda>_. BpInvalidInherentData) data"

definition bp_create_inherent :: "'st \<Rightarrow> 'm inherent_data \<Rightarrow> 'm bp_call option exec" where
  "bp_create_inherent st data =
     (case bp_decode_inherent_data data of
        Inl _ \<Rightarrow> Panic
      | Inr r \<Rightarrow> Ret (map_option NoteProcessing r))"

definition bp_check_inherent :: "'st \<Rightarrow> 'm bp_call \<Rightarrow> 'm inherent_data \<Rightarrow> (bp_inherent_error + unit) exec" where
  "bp_check_inherent st call data =
     Ret (try_bind (bp_decode_inherent_data data) (\<lambda>r.
       case r of
         None \<Rightarrow> Inl BpUnexpectedInherent
       | Some expected_moment \<Rightarrow> ensure (expected_moment = up_to_moment call) BpInvalidInherentData))"

definition bp_is_inherent :: "'m bp_call \<Rightarrow> bool" where
  "bp_is_inherent call = (case call of NoteProcessing _ \<Rightarrow> True)"

definition bp_is_inherent_required ::
  "'st \<Rightarrow> 'm inherent_data \<Rightarrow> (bp_inherent_error + bp_inherent_error option) exec" where
  "bp_is_inherent_required st data =
     Ret (try_bind (bp_decode_inherent_data data) (\<lambda>r.
       if r \<noteq> None then Inr (Some BpInherentRequired) else Inr None))"

text \<open>The state is that of the provider and \<open>ProcessedUpTo\<close>.\<close>

definition note_processing ::
  "('o, 'm::linorder, 'a, 's) bp_config \<Rightarrow> 'o \<Rightarrow> 'm \<Rightarrow> 's \<times> 'm \<Rightarrow> bp_error + 's \<times> 'm" where
  "note_processing cfg origin moment = (\<lambda>(s, processed_up_to).
     try_bind (ensure (bp_none_origin cfg origin) BpBadOrigin) (\<lambda>_.
     try_bind (ensure (processed_up_to < moment) MomentNotIncreasing) (\<lambda>_.
       Inr (cfg_discard_processed_blocks cfg moment s, moment))))"

interpretation bpi: strict_inherent bp_create_inherent bp_check_inherent bp_is_inherent bp_is_inherent_required
  "\<lambda>_ d. \<exists>r. d = Inr r"
  by unfold_locales
    (auto simp: bp_create_inherent_def bp_check_inherent_def bp_is_inherent_def bp_is_inherent_required_def
      bp_decode_inherent_data_def split: sum.splits option.splits bp_call.splits)

section \<open>Participation data\<close>

record 'd delegator_participation =
  dp_id :: 'd
  dp_share :: u64

record ('a, 'd) producer_participation =
  block_producer :: 'a
  block_count :: u32
  delegator_total_shares :: u64
  pp_delegators :: "'d delegator_participation list"

definition dp_rank :: "'d delegator_participation \<Rightarrow> 'd \<times> u64" where
  "dp_rank x = (dp_id x, dp_share x)"

definition pp_rank :: "('a, 'd) producer_participation \<Rightarrow> 'a \<times> u32 \<times> u64 \<times> ('d \<times> u64) list" where
  "pp_rank x = (block_producer x, block_count x, delegator_total_shares x, map dp_rank (pp_delegators x))"

definition block_production_data_new ::
  "('a::linorder, 'd::linorder) producer_participation list \<Rightarrow> ('a, 'd) producer_participation list" where
  "block_production_data_new producer_participation =
     sort_key pp_rank (map (\<lambda>b. b\<lparr>pp_delegators := sort_key dp_rank (pp_delegators b)\<rparr>) producer_participation)"

section \<open>Inherent data provider\<close>

record ('a, 'm, 'e) bp_api =
  bp_has_api :: "'e + bool"
  api_blocks_to_process :: "'m \<Rightarrow> 'e + ('m \<times> 'a) list"
  api_target_inherent_id :: "'e + bytes"
  api_moment_to_timestamp_millis :: "'m \<Rightarrow> 'e + u64"

datatype ('a, 'd, 'm) bp_idp =
    BpActive (idp_moment: 'm) (idp_target_inherent_id: bytes) (block_production_data: "('a, 'd) producer_participation list")
  | BpInert

datatype ('a, 'e) bp_idp_error =
    BpApiError 'e
  | BpDataSourceError 'e
  | BpDataMissing mc_epoch_number 'a
  | McEpochBelowOffset mc_epoch_number u32

type_synonym ('e, 'c) bp_query = "mc_epoch_number \<Rightarrow> bytes list \<Rightarrow> 'c \<Rightarrow> ('e + stake_distribution) \<times> 'c"

text \<open>What a node brings along: the conversions of its types, the iteration order of its hash maps and
  its data source.\<close>

record ('a, 'd, 'e, 'c) bp_node =
  cardano_spo :: "'a \<Rightarrow> bytes option"
  from_delegator_key :: "delegator_key \<Rightarrow> 'd"
  order_epochs :: "(mc_epoch_number \<times> ('a \<times> u32) list) list \<Rightarrow> (mc_epoch_number \<times> ('a \<times> u32) list) list"
  order_producers :: "('a \<times> u32) list \<Rightarrow> ('a \<times> u32) list"
  node_query :: "('e, 'c) bp_query"

definition hash_order_ok :: "('a, 'd, 'e, 'c) bp_node \<Rightarrow> bool" where
  "hash_order_ok node \<longleftrightarrow>
     (\<forall>m. mset (order_epochs node m) = mset m) \<and> (\<forall>m. mset (order_producers node m) = mset m)"

text \<open>\<open>entry(k).or_default()\<close> followed by an update in place.\<close>

fun hm_entry :: "'k \<Rightarrow> 'v \<Rightarrow> ('v \<Rightarrow> 'v) \<Rightarrow> ('k \<times> 'v) list \<Rightarrow> ('k \<times> 'v) list" where
  "hm_entry k d f [] = [(k, f d)]"
| "hm_entry k d f ((k', v) # m) = (if k' = k then (k', f v) # m else (k', v) # hm_entry k d f m)"

definition data_mc_epoch_for_timestamp ::
  "u64 \<Rightarrow> mainchain_epoch_config \<Rightarrow> (('a, 'e) bp_idp_error + mc_epoch_number) exec" where
  "data_mc_epoch_for_timestamp timestamp mc_epoch_config =
     exec_bind (timestamp_to_mainchain_epoch mc_epoch_config timestamp) (\<lambda>r.
       case r of
         Inl _ \<Rightarrow> Panic
       | Inr mc_epoch \<Rightarrow> Ret (map_err (McEpochBelowOffset mc_epoch) (offset_data_epoch mc_epoch)))"

fun count_blocks_by_epoch_and_producer ::
  "('m \<times> 'a) list \<Rightarrow> mainchain_epoch_config \<Rightarrow> ('a, 'm, 'e) bp_api \<Rightarrow> (mc_epoch_number \<times> ('a \<times> u32) list) list \<Rightarrow>
   (('a, 'e) bp_idp_error + (mc_epoch_number \<times> ('a \<times> u32) list) list) exec" where
  "count_blocks_by_epoch_and_producer [] mc_epoch_config api epoch_producers = Ret (Inr epoch_producers)"
| "count_blocks_by_epoch_and_producer ((moment, producer) # blocks) mc_epoch_config api epoch_producers =
     (case api_moment_to_timestamp_millis api moment of
        Inl e \<Rightarrow> Ret (Inl (BpApiError e))
      | Inr timestamp \<Rightarrow>
          exec_bind (data_mc_epoch_for_timestamp timestamp mc_epoch_config) (\<lambda>r.
            case r of
              Inl e \<Rightarrow> Ret (Inl e)
            | Inr mc_epoch \<Rightarrow>
                count_blocks_by_epoch_and_producer blocks mc_epoch_config api
                  (hm_entry mc_epoch [] (hm_entry producer 0 (\<lambda>n. n + 1)) epoch_producers)))"

definition production_breakdown_for ::
  "('a, 'd, 'e, 'c) bp_node \<Rightarrow> mc_epoch_number \<Rightarrow> 'a \<Rightarrow> u32 \<Rightarrow> stake_distribution \<Rightarrow>
   ('a, 'e) bp_idp_error + ('a, 'd) producer_participation" where
  "production_breakdown_for node mc_epoch producer n distribution =
     try_bind
       (case cardano_spo node producer of
          None \<Rightarrow> Inr (0, [])
        | Some cardano_producer \<Rightarrow>
            try_bind (ok_or (map_of distribution cardano_producer) (BpDataMissing mc_epoch producer)) (\<lambda>pool.
              Inr (total_stake pool,
                map (\<lambda>(key, amount). \<lparr>dp_id = from_delegator_key node key, dp_share = amount\<rparr>) (delegators pool))))
       (\<lambda>(beneficiary_total_share, beneficiaries).
          Inr \<lparr>block_producer = producer, block_count = n,
            delegator_total_shares = beneficiary_total_share, pp_delegators = beneficiaries\<rparr>)"

definition fetch_delegations ::
  "('a, 'd, 'e, 'c) bp_node \<Rightarrow> mc_epoch_number \<Rightarrow> 'a list \<Rightarrow> 'c \<Rightarrow> (('a, 'e) bp_idp_error + stake_distribution) \<times> 'c" where
  "fetch_delegations node mc_epoch producers c =
     (let pools = List.map_filter (cardano_spo node) producers in
      case node_query node mc_epoch pools c of (r, c') \<Rightarrow> (map_err BpDataSourceError r, c'))"

fun epoch_breakdowns ::
  "('a, 'd, 'e, 'c) bp_node \<Rightarrow> mc_epoch_number \<Rightarrow> stake_distribution \<Rightarrow> ('a \<times> u32) list \<Rightarrow>
   ('a, 'e) bp_idp_error + ('a, 'd) producer_participation list" where
  "epoch_breakdowns node mc_epoch distribution [] = Inr []"
| "epoch_breakdowns node mc_epoch distribution ((producer, n) # producers) =
     try_bind (production_breakdown_for node mc_epoch producer n distribution) (\<lambda>breakdown.
     try_bind (epoch_breakdowns node mc_epoch distribution producers) (\<lambda>breakdowns.
       Inr (breakdown # breakdowns)))"

fun production_summaries ::
  "('a, 'd, 'e, 'c) bp_node \<Rightarrow> (mc_epoch_number \<times> ('a \<times> u32) list) list \<Rightarrow> 'c \<Rightarrow>
   (('a, 'e) bp_idp_error + ('a, 'd) producer_participation list) \<times> 'c" where
  "production_summaries node [] c = (Inr [], c)"
| "production_summaries node ((mc_epoch, producer_blocks) # rest) c =
     (let producers = order_producers node producer_blocks in
      case fetch_delegations node mc_epoch (map fst producers) c of
        (Inl e, c') \<Rightarrow> (Inl e, c')
      | (Inr distribution, c') \<Rightarrow>
          (case epoch_breakdowns node mc_epoch distribution producers of
             Inl e \<Rightarrow> (Inl e, c')
           | Inr breakdowns \<Rightarrow>
               (case production_summaries node rest c' of
                  (Inl e, c'') \<Rightarrow> (Inl e, c'')
                | (Inr summaries, c'') \<Rightarrow> (Inr (breakdowns @ summaries), c''))))"

definition bp_idp_new ::
  "('a::linorder, 'd::linorder, 'e, 'c) bp_node \<Rightarrow> ('a, 'm, 'e) bp_api \<Rightarrow> 'm \<Rightarrow> mainchain_epoch_config \<Rightarrow> 'c \<Rightarrow>
   ((('a, 'e) bp_idp_error + ('a, 'd, 'm) bp_idp) \<times> 'c) exec" where
  "bp_idp_new node api moment mc_epoch_config c =
     (case bp_has_api api of
        Inl e \<Rightarrow> Ret (Inl (BpApiError e), c)
      | Inr has_api \<Rightarrow>
     if \<not> has_api then Ret (Inr BpInert, c) else
     case api_blocks_to_process api moment of
        Inl e \<Rightarrow> Ret (Inl (BpApiError e), c)
      | Inr blocks_to_process \<Rightarrow>
     if blocks_to_process = [] then Ret (Inr BpInert, c) else
     case api_target_inherent_id api of
        Inl e \<Rightarrow> Ret (Inl (BpApiError e), c)
      | Inr target \<Rightarrow>
     exec_map (\<lambda>r.
       case r of
         Inl e \<Rightarrow> (Inl e, c)
       | Inr counts \<Rightarrow>
           (case production_summaries node (order_epochs node counts) c of
              (Inl e, c') \<Rightarrow> (Inl e, c')
            | (Inr summaries, c') \<Rightarrow> (Inr (BpActive moment target (block_production_data_new summaries)), c')))
       (count_blocks_by_epoch_and_producer blocks_to_process mc_epoch_config api []))"

text \<open>The data under the target identifier, and that under the identifier of this feature.\<close>

fun bp_provide_inherent_data ::
  "('a, 'd, 'm) bp_idp \<Rightarrow> (bytes \<times> ('a, 'd) producer_participation list) option \<times> 'm inherent_data" where
  "bp_provide_inherent_data BpInert = (None, Inr None)"
| "bp_provide_inherent_data (BpActive moment target data) = (Some (target, data), Inr (Some moment))"

text \<open>The runtime API as the demo runtime implements it. A panic of the runtime is an error of the call.\<close>

definition moment_to_timestamp_millis :: "u64 \<Rightarrow> u64 \<Rightarrow> u64" where
  "moment_to_timestamp_millis slot_duration_ms slot = slot * slot_duration_ms"

definition bp_api_of :: "'e \<Rightarrow> ('m \<Rightarrow> u64) \<Rightarrow> ('o, 'm, 'a, 's) bp_config \<Rightarrow> 's \<Rightarrow> ('a, 'm, 'e) bp_api" where
  "bp_api_of trap to_millis cfg s = \<lparr>bp_has_api = Inr True,
     api_blocks_to_process = (\<lambda>slot. case cfg_blocks_to_process cfg slot s of Panic \<Rightarrow> Inl trap | Ret bs \<Rightarrow> Inr bs),
     api_target_inherent_id = Inr (target_inherent_id cfg),
     api_moment_to_timestamp_millis = (\<lambda>moment. Inr (to_millis moment))\<rparr>"

section \<open>Counting blocks\<close>

text \<open>The number of blocks of a producer in a log, and the number of blocks credited to it in participation data.\<close>

definition blocks_of :: "'a \<Rightarrow> ('m \<times> 'a) list \<Rightarrow> nat" where
  "blocks_of p bs = length (filter (\<lambda>b. snd b = p) bs)"

definition counted :: "'a \<Rightarrow> ('a \<times> u32) list \<Rightarrow> nat" where
  "counted p m = sum_list (map (\<lambda>(q, n). if q = p then unat n else 0) m)"

definition counted_in_epochs :: "'a \<Rightarrow> (mc_epoch_number \<times> ('a \<times> u32) list) list \<Rightarrow> nat" where
  "counted_in_epochs p m = sum_list (map (\<lambda>(e, producers). counted p producers) m)"

definition credited :: "'a \<Rightarrow> ('a, 'd) producer_participation list \<Rightarrow> nat" where
  "credited p d = sum_list (map (\<lambda>x. if block_producer x = p then unat (block_count x) else 0) d)"

lemma blocks_of_simps [simp]:
  "blocks_of p [] = 0" "blocks_of p (b # bs) = (if snd b = p then 1 else 0) + blocks_of p bs"
  "blocks_of p (bs @ cs) = blocks_of p bs + blocks_of p cs"
  by (simp_all add: blocks_of_def)

lemma blocks_of_le: "blocks_of p bs \<le> length bs"
  by (simp add: blocks_of_def)

lemma credited_simps [simp]: "credited p [] = 0" "credited p (d @ d') = credited p d + credited p d'"
  by (simp_all add: credited_def)

lemma case_result_Inr_iff:
  "(case r of Inl e \<Rightarrow> Ret (Inl e) | Inr x \<Rightarrow> f x) = Ret (Inr y) \<longleftrightarrow> (\<exists>x. r = Inr x \<and> f x = Ret (Inr y))"
  "(case r of Inl e \<Rightarrow> (Inl e, c) | Inr x \<Rightarrow> g x) = (Inr z, c') \<longleftrightarrow> (\<exists>x. r = Inr x \<and> g x = (Inr z, c'))"
  "(case q of (Inl e, c) \<Rightarrow> (Inl e, c) | (Inr x, c) \<Rightarrow> h x c) = (Inr z, c') \<longleftrightarrow>
     (\<exists>x c. q = (Inr x, c) \<and> h x c = (Inr z, c'))"
  by (auto split: sum.splits prod.splits)

lemma counted_hm_entry:
  assumes "counted p m + 1 < 2 ^ 32"
  shows "counted p (hm_entry q 0 (\<lambda>n. n + 1) m) = counted p m + (if q = p then 1 else 0)"
  using assms
proof (induction m)
  case Nil
  then show ?case by (simp add: counted_def)
next
  case (Cons x m)
  obtain q' n where x: "x = (q', n)" by fastforce
  have "unat (n + 1) = unat n + 1" if "q' = p"
    using Cons.prems that by (simp add: x counted_def unat_add_no_overflow)
  then show ?case using Cons by (auto simp: x counted_def)
qed

lemma counted_in_epochs_hm_entry:
  assumes "counted_in_epochs p m + 1 < 2 ^ 32"
  shows "counted_in_epochs p (hm_entry e [] (hm_entry q 0 (\<lambda>n. n + 1)) m) =
    counted_in_epochs p m + (if q = p then 1 else 0)"
  using assms
proof (induction m)
  case Nil
  then show ?case by (simp add: counted_in_epochs_def counted_def)
next
  case (Cons x m)
  obtain e' ps where x: "x = (e', ps)" by fastforce
  have "counted p ps + 1 < 2 ^ 32" using Cons.prems by (simp add: x counted_in_epochs_def)
  from counted_hm_entry [OF this, of q] show ?case using Cons by (auto simp: x counted_in_epochs_def)
qed

text \<open>Every block is counted, once, whatever epoch it falls into.\<close>

lemma count_blocks_counts:
  fixes api :: "('a, 'm, 'e) bp_api"
  assumes "count_blocks_by_epoch_and_producer bs cfg api m = Ret (Inr m')"
    and "counted_in_epochs p m + length bs < 2 ^ 32"
  shows "counted_in_epochs p m' = counted_in_epochs p m + blocks_of p bs"
  using assms
proof (induction bs cfg api m rule: count_blocks_by_epoch_and_producer.induct)
  case (2 moment producer bs cfg api m)
  from "2.prems"(1) obtain t e where t: "api_moment_to_timestamp_millis api moment = Inr t"
    and e: "data_mc_epoch_for_timestamp t cfg = (Ret (Inr e) :: (('a, 'e) bp_idp_error + mc_epoch_number) exec)"
    and rest: "count_blocks_by_epoch_and_producer bs cfg api (hm_entry e [] (hm_entry producer 0 (\<lambda>n. n + 1)) m) = Ret (Inr m')"
    by (auto simp: run_simps case_result_Inr_iff split: sum.splits)
  have step: "counted_in_epochs p (hm_entry e [] (hm_entry producer 0 (\<lambda>n. n + 1)) m) =
      counted_in_epochs p m + (if producer = p then 1 else 0)"
    using "2.prems"(2) by (intro counted_in_epochs_hm_entry) simp
  then show ?case using "2.IH" [OF t rest] "2.prems"(2) by simp
qed simp

lemma epoch_breakdowns_credits:
  "epoch_breakdowns node e dist ps = Inr bs \<Longrightarrow> credited p bs = counted p ps"
  by (induction node e dist ps arbitrary: bs rule: epoch_breakdowns.induct)
    (auto simp: credited_def counted_def production_breakdown_for_def split: option.splits)

lemma counted_order: "mset m = mset m' \<Longrightarrow> counted p m = counted p m'"
  unfolding counted_def by (rule sum_list_map_mset_cong)

lemma production_summaries_credits:
  assumes "hash_order_ok node"
  shows "production_summaries node m c = (Inr bs, c') \<Longrightarrow> credited p bs = counted_in_epochs p m"
proof (induction m arbitrary: bs c)
  case (Cons x m)
  obtain e ps where x: "x = (e, ps)" by fastforce
  from Cons.prems obtain bs1 bs2 d c1 where "epoch_breakdowns node e d (order_producers node ps) = Inr bs1"
    and rest: "production_summaries node m c1 = (Inr bs2, c')" and bs: "bs = bs1 @ bs2"
    by (auto simp: x Let_def split: prod.splits sum.splits)
  then have "credited p bs1 = counted p (order_producers node ps)" by (intro epoch_breakdowns_credits)
  also have "\<dots> = counted p ps" using assms by (intro counted_order) (simp add: hash_order_ok_def)
  finally show ?case using Cons.IH [OF rest] by (simp add: bs x counted_in_epochs_def)
qed (simp add: counted_in_epochs_def)

lemma credited_block_production_data_new: "credited p (block_production_data_new bs) = credited p bs"
proof -
  let ?f = "\<lambda>x :: ('a, 'b) producer_participation. if block_producer x = p then unat (block_count x) else 0"
  let ?g = "\<lambda>b :: ('a, 'b) producer_participation. b\<lparr>pp_delegators := sort_key dp_rank (pp_delegators b)\<rparr>"
  have "credited p (block_production_data_new bs) = sum_list (map ?f (map ?g bs))"
    unfolding credited_def block_production_data_new_def by (rule sum_list_map_mset_cong) simp
  also have "\<dots> = credited p bs"
    unfolding credited_def map_map comp_def by (intro arg_cong [where f = sum_list] map_cong) simp_all
  finally show ?thesis .
qed

lemma bp_idp_new_iff:
  assumes "bp_has_api api = Inr True"
  shows "bp_idp_new node api moment cfg c = Ret (Inr idp, c') \<longleftrightarrow>
    (\<exists>bs. api_blocks_to_process api moment = Inr bs \<and>
      (bs = [] \<and> idp = BpInert \<and> c' = c \<or>
       bs \<noteq> [] \<and> (\<exists>target counts summaries. api_target_inherent_id api = Inr target \<and>
         count_blocks_by_epoch_and_producer bs cfg api [] = Ret (Inr counts) \<and>
         production_summaries node (order_epochs node counts) c = (Inr summaries, c') \<and>
         idp = BpActive moment target (block_production_data_new summaries))))"
  using assms by (auto simp: bp_idp_new_def run_simps case_result_Inr_iff split: sum.splits if_splits)

text \<open>Active data credits every producer with the blocks it has in the log.\<close>

lemma active_credits:
  assumes new: "bp_idp_new node api moment cfg c = Ret (Inr (BpActive m' target d), c')"
    and ok: "hash_order_ok node" and api: "bp_has_api api = Inr True" "api_blocks_to_process api moment = Inr bs"
    and len: "length bs < 2 ^ 32"
  shows "credited p d = blocks_of p bs"
proof -
  from new obtain counts summaries where
    counts: "count_blocks_by_epoch_and_producer bs cfg api [] = Ret (Inr counts)"
    and sums: "production_summaries node (order_epochs node counts) c = (Inr summaries, c')"
    and d: "d = block_production_data_new summaries"
    using api by (auto simp: bp_idp_new_iff)
  have "credited p d = counted_in_epochs p (order_epochs node counts)"
    by (simp add: d credited_block_production_data_new production_summaries_credits [OF ok sums])
  also have "\<dots> = counted_in_epochs p counts"
    using ok unfolding counted_in_epochs_def by (intro sum_list_map_mset_cong) (simp add: hash_order_ok_def)
  also have "\<dots> = blocks_of p bs"
    using count_blocks_counts [OF counts, of p] len by (simp add: counted_in_epochs_def)
  finally show ?thesis .
qed

section \<open>Nodes agree on the data\<close>

text \<open>The contract of a data source: it answers with the delegation of the pools in the epoch, \<open>dist\<close>.\<close>

locale distribution_source =
  fixes query :: "('e, 'c) bp_query"
    and dist :: "mc_epoch_number \<Rightarrow> bytes \<Rightarrow> pool_delegation option"
    and cache_ok :: "'c \<Rightarrow> bool"
  assumes cache_kept: "cache_ok c \<Longrightarrow> query e pools c = (r, c') \<Longrightarrow> cache_ok c'"
    and answers: "cache_ok c \<Longrightarrow> query e pools c = (Inr d, c') \<Longrightarrow> p \<in> set pools \<Longrightarrow> map_of d p = dist e p"

definition breakdown ::
  "('a \<Rightarrow> bytes option) \<Rightarrow> (delegator_key \<Rightarrow> 'd) \<Rightarrow> (mc_epoch_number \<Rightarrow> bytes \<Rightarrow> pool_delegation option) \<Rightarrow>
   mc_epoch_number \<Rightarrow> 'a \<times> u32 \<Rightarrow> ('a, 'd) producer_participation" where
  "breakdown spo from_key dist e = (\<lambda>(p, n).
     (case Option.bind (spo p) (dist e) of
        None \<Rightarrow> \<lparr>block_producer = p, block_count = n, delegator_total_shares = 0, pp_delegators = []\<rparr>
      | Some pool \<Rightarrow> \<lparr>block_producer = p, block_count = n, delegator_total_shares = total_stake pool,
          pp_delegators = map (\<lambda>(key, amount). \<lparr>dp_id = from_key key, dp_share = amount\<rparr>) (delegators pool)\<rparr>))"

lemma in_map_filter: "k \<in> set (List.map_filter f xs) \<longleftrightarrow> (\<exists>x \<in> set xs. f x = Some k)"
  by (induction xs) (auto simp: map_filter_simps split: option.splits)

lemma epoch_breakdowns_eq:
  assumes "epoch_breakdowns node e d ps = Inr bs"
    and "\<And>p k. p \<in> fst ` set ps \<Longrightarrow> cardano_spo node p = Some k \<Longrightarrow> map_of d k = dist e k"
  shows "bs = map (breakdown (cardano_spo node) (from_delegator_key node) dist e) ps"
  using assms
  by (induction node e d ps arbitrary: bs rule: epoch_breakdowns.induct)
    (force simp: production_breakdown_for_def breakdown_def split: option.splits)+

lemma pp_rank_inj: "pp_rank x = pp_rank y \<Longrightarrow> x = (y :: ('a, 'd) producer_participation)"
proof -
  have "inj (dp_rank :: 'd delegator_participation \<Rightarrow> _)" by (auto simp: inj_def dp_rank_def)
  then show "pp_rank x = pp_rank y \<Longrightarrow> x = y" by (auto simp: pp_rank_def inj_map_eq_map)
qed

text \<open>The data does not depend on the order in which the summaries were made.\<close>

lemma block_production_data_new_cong:
  fixes xs ys :: "('a::linorder, 'd::linorder) producer_participation list"
  assumes "mset xs = mset ys"
  shows "block_production_data_new xs = block_production_data_new ys"
proof -
  let ?g = "map (\<lambda>b :: ('a, 'd) producer_participation. b\<lparr>pp_delegators := sort_key dp_rank (pp_delegators b)\<rparr>)"
  have eq: "mset (?g xs) = mset (?g ys)" using assms by simp
  have inj: "inj_on pp_rank (set (?g xs) \<union> set (?g ys))" by (auto intro: inj_onI pp_rank_inj)
  have sorted: "map pp_rank (sort_key pp_rank zs) = sort (map pp_rank zs)" for zs :: "('a, 'd) producer_participation list"
    by (rule properties_for_sort [symmetric]) simp_all
  have "map pp_rank (sort_key pp_rank (?g xs)) = map pp_rank (sort_key pp_rank (?g ys))"
    unfolding sorted using eq by (intro sort_eq_if_mset_eq) (metis mset_map)
  then show ?thesis
    using inj by (simp add: block_production_data_new_def inj_on_map_eq_map)
qed

context distribution_source
begin

lemma production_summaries_eq:
  assumes "production_summaries node m c = (Inr bs, c')" and "cache_ok c" and "node_query node = query"
  shows "bs = concat (map (\<lambda>(e, ps).
      map (breakdown (cardano_spo node) (from_delegator_key node) dist e) (order_producers node ps)) m)"
  using assms(1,2)
proof (induction m arbitrary: bs c)
  case (Cons x m)
  obtain e ps where x: "x = (e, ps)" by fastforce
  let ?ps = "order_producers node ps"
  let ?pools = "List.map_filter (cardano_spo node) (map fst ?ps)"
  from Cons.prems(1) obtain bs1 bs2 d c1 where q: "query e ?pools c = (Inr d, c1)"
    and e: "epoch_breakdowns node e d ?ps = Inr bs1"
    and rest: "production_summaries node m c1 = (Inr bs2, c')" and bs: "bs = bs1 @ bs2"
    by (auto simp: x Let_def case_result_Inr_iff fetch_delegations_def assms(3) split: prod.splits)
  have "map_of d k = dist e k" if "p \<in> fst ` set ?ps" "cardano_spo node p = Some k" for p k
    using that by (intro answers [OF Cons.prems(2) q]) (auto simp: in_map_filter)
  then have "bs1 = map (breakdown (cardano_spo node) (from_delegator_key node) dist e) ?ps"
    by (intro epoch_breakdowns_eq [OF e])
  then show ?case using Cons.IH [OF rest cache_kept [OF Cons.prems(2) q]] by (simp add: bs x)
qed simp

text \<open>Two nodes with the same view of the main chain compute the same data, whatever the iteration order
  of their hash maps and the contents of their caches.\<close>

lemma nodes_agree:
  fixes node node' :: "('a::linorder, 'd::linorder, 'e, 'c) bp_node"
  assumes "bp_idp_new node api moment cfg c = Ret (Inr idp, d)" and "bp_idp_new node' api moment cfg c' = Ret (Inr idp', d')"
    and api: "bp_has_api api = Inr True"
    and node: "cache_ok c" "hash_order_ok node" "node_query node = query"
    and node': "cache_ok c'" "hash_order_ok node'" "node_query node' = query"
    and same: "cardano_spo node' = cardano_spo node" "from_delegator_key node' = from_delegator_key node"
  shows "idp = idp'"
proof (cases "idp = BpInert")
  case True
  then show ?thesis using assms(1,2) by (auto simp: bp_idp_new_iff [OF api])
next
  case False
  let ?b = "breakdown (cardano_spo node) (from_delegator_key node) dist"
  let ?f = "\<lambda>node. \<lambda>(e, ps). map (?b e) (order_producers node ps)"
  from False assms(1,2) obtain bs target counts sums sums' where
    *: "production_summaries node (order_epochs node counts) c = (Inr sums, d)"
      "production_summaries node' (order_epochs node' counts) c' = (Inr sums', d')"
    and idp: "idp = BpActive moment target (block_production_data_new sums)"
      "idp' = BpActive moment target (block_production_data_new sums')"
    by (auto simp: bp_idp_new_iff [OF api])
  have each: "mset (concat (map (?f n) (order_epochs n counts))) =
      sum_mset (image_mset (\<lambda>(e, ps). image_mset (?b e) (mset ps)) (mset counts))"
    if "hash_order_ok n" for n :: "('a, 'd, 'e, 'c) bp_node"
  proof -
    have "mset (concat (map (?f n) xs)) = sum_mset (image_mset (\<lambda>(e, ps). image_mset (?b e) (mset ps)) (mset xs))" for xs
      using that by (induction xs) (auto simp: hash_order_ok_def)
    then show ?thesis using that by (simp add: hash_order_ok_def)
  qed
  have "sums = concat (map (?f node) (order_epochs node counts))"
    using production_summaries_eq [OF *(1) node(1,3)] .
  moreover have "sums' = concat (map (?f node') (order_epochs node' counts))"
    using production_summaries_eq [OF *(2) node'(1,3)] unfolding same .
  ultimately have "mset sums = mset sums'" by (simp only: each [OF node(2)] each [OF node'(2)])
  from block_production_data_new_cong [OF this] show ?thesis by (simp only: idp)
qed

end

section \<open>Runs of the chain\<close>

fun bp_dispatch ::
  "('o, 'm::linorder, 'a, 's) bp_config \<Rightarrow> 'o \<Rightarrow> 'm bp_call \<Rightarrow> 's \<times> 'm \<Rightarrow> bp_error + 's \<times> 'm" where
  "bp_dispatch cfg origin (NoteProcessing moment) st = note_processing cfg origin moment st"

fun bp_inherents ::
  "('o, 'm::linorder, 'a, 's) bp_config \<Rightarrow> 'o \<Rightarrow> 'm bp_call list \<Rightarrow> 's \<times> 'm \<Rightarrow> bp_error + 's \<times> 'm" where
  "bp_inherents cfg origin [] st = Inr st"
| "bp_inherents cfg origin (c # calls) st = try_bind (bp_dispatch cfg origin c st) (bp_inherents cfg origin calls)"

text \<open>A sequence of blocks, each with its slot and its author, if it is found. The node asks the runtime
  of the parent block for the blocks to process, the production log records the new block when the
  block is initialised, then the inherents that passed verification are dispatched. The last argument
  but one lists the participation data of every block.\<close>

inductive bp_run ::
  "('o, 'm::linorder, 'a::linorder, 's) bp_config \<Rightarrow> ('a option \<Rightarrow> 'm option \<Rightarrow> 's \<Rightarrow> 's) \<Rightarrow>
   ('a, 'd::linorder, 'e, 'c) bp_node \<Rightarrow> mainchain_epoch_config \<Rightarrow> ('m \<Rightarrow> u64) \<Rightarrow>
   's \<times> 'm \<times> 'c \<Rightarrow> ('m \<times> 'a option) list \<Rightarrow> ('a, 'd, 'm) bp_idp list \<Rightarrow> 's \<times> 'm \<times> 'c \<Rightarrow> bool"
  for cfg on_init node mc_epoch_config to_millis where
  start: "bp_run cfg on_init node mc_epoch_config to_millis st [] [] st"
| block: "bp_idp_new node (bp_api_of trap to_millis cfg s) slot mc_epoch_config c = Ret (Inr idp, c1) \<Longrightarrow>
    verify_inherents bp_check_inherent bp_is_inherent bp_is_inherent_required s
      (snd (bp_provide_inherent_data idp)) calls \<Longrightarrow>
    bp_inherents cfg origin calls (on_init author (Some slot) s, up_to) = Inr (s1, up_to1) \<Longrightarrow>
    bp_run cfg on_init node mc_epoch_config to_millis (s1, up_to1, c1) blocks idps st' \<Longrightarrow>
    bp_run cfg on_init node mc_epoch_config to_millis (s, up_to, c) ((slot, author) # blocks) (idp # idps) st'"

definition logged :: "('m \<times> 'a option) list \<Rightarrow> ('m \<times> 'a) list" where
  "logged blocks = List.map_filter (\<lambda>(slot, author). map_option (Pair slot) author) blocks"

definition released :: "'a \<Rightarrow> ('a, 'd, 'm) bp_idp \<Rightarrow> nat" where
  "released p idp = (case idp of BpInert \<Rightarrow> 0 | BpActive m t d \<Rightarrow> credited p d)"

text \<open>The blocks that release data.\<close>

definition releasing :: "('m \<times> 'a option) list \<Rightarrow> ('a, 'd, 'm) bp_idp list \<Rightarrow> ('m \<times> 'a option) list" where
  "releasing blocks idps = map fst (filter (\<lambda>(b, idp). idp \<noteq> BpInert) (zip blocks idps))"

lemma logged_simps [simp]:
  "logged [] = []" "logged ((slot, author) # blocks) = (case author of None \<Rightarrow> [] | Some a \<Rightarrow> [(slot, a)]) @ logged blocks"
  by (auto simp: logged_def map_filter_simps split: option.splits)

lemma releasing_simps [simp]:
  "releasing [] idps = []"
  "releasing (b # blocks) (idp # idps) = (if idp = BpInert then [] else [b]) @ releasing blocks idps"
  by (simp_all add: releasing_def)

lemma log_on_initialize_logged: "log_on_initialize author (Some slot) log = log @ logged [(slot, author)]"
  by (cases author) (auto simp: log_on_initialize_def)

lemma bp_is_inherent_call: "bp_is_inherent c"
  by (cases c) (simp add: bp_is_inherent_def)

lemma bp_check_iff:
  "bp_check_inherent s c (Inr r) = Ret (Inr ()) \<longleftrightarrow> (\<exists>m. r = Some m \<and> c = NoteProcessing m)"
  by (cases c; cases r) (auto simp: bp_check_inherent_def bp_decode_inherent_data_def)

lemma bp_verified_iff:
  "verify_inherents bp_check_inherent bp_is_inherent bp_is_inherent_required s (Inr r) calls \<longleftrightarrow>
     set calls = NoteProcessing ` set_option r"
proof -
  have "verify_inherents bp_check_inherent bp_is_inherent bp_is_inherent_required s (Inr r) calls \<longleftrightarrow>
      (\<forall>c \<in> set calls. \<exists>m. r = Some m \<and> c = NoteProcessing m) \<and> (r \<noteq> None \<longrightarrow> calls \<noteq> [])"
    by (cases r; cases calls)
      (auto simp: verify_inherents_def bp_check_iff bp_is_inherent_call bp_is_inherent_required_def
        bp_decode_inherent_data_def list_all_iff)
  then show ?thesis by (cases r; cases calls) auto
qed

text \<open>The inherent cannot be dispatched twice in a block: the second call does not increase the moment.\<close>

lemma bp_inherents_once:
  assumes "set calls = {NoteProcessing m}" and "bp_inherents cfg origin calls st = Inr st'"
  shows "calls = [NoteProcessing m]"
proof -
  from assms(1) obtain rest where calls: "calls = NoteProcessing m # rest" by (cases calls) auto
  show ?thesis
  proof (cases rest)
    case (Cons c rest')
    then have "c = NoteProcessing m" using assms(1) calls by auto
    then show ?thesis using assms(2) by (auto simp: calls Cons note_processing_def split: prod.splits)
  qed (simp add: calls)
qed

context participation_provider
begin

text \<open>One block: without data the block is added to the log; with data every logged block is counted and
  the log, the new block included, is emptied.\<close>

lemma block_effect:
  assumes idp: "bp_idp_new node (bp_api_of trap to_millis cfg s) slot mc_epoch_config c = Ret (Inr idp, c1)"
    and ver: "verify_inherents bp_check_inherent bp_is_inherent bp_is_inherent_required s
      (snd (bp_provide_inherent_data idp)) calls"
    and run: "bp_inherents cfg origin calls (on_initialize author (Some slot) s, up_to) = Inr (s1, up_to1)"
    and cfg: "cfg_blocks_to_process cfg = blocks_to_process" "cfg_discard_processed_blocks cfg = discard_processed_blocks"
    and node: "hash_order_ok node"
    and log: "\<forall>b \<in> set (log_of s). fst b < slot" "length (log_of s) < 2 ^ 32"
  shows "if idp = BpInert then log_of s1 = log_of s @ logged [(slot, author)]
    else log_of s1 = [] \<and> (\<forall>p. released p idp = blocks_of p (log_of s))"
proof -
  let ?api = "bp_api_of trap to_millis cfg s"
  have api: "bp_has_api ?api = Inr True" by (simp add: bp_api_of_def)
  from idp obtain bs where bs: "api_blocks_to_process ?api slot = Inr bs" and inert: "bs = [] \<longleftrightarrow> idp = BpInert"
    by (auto simp: bp_idp_new_iff [OF api])
  have proc: "blocks_to_process slot s = Ret bs"
    using bs by (auto simp: bp_api_of_def cfg split: exec.splits)
  show ?thesis
  proof (cases idp)
    case BpInert
    then have "calls = []" using ver by (simp add: bp_verified_iff)
    then show ?thesis using run BpInert by (auto simp: logs_block log_on_initialize_logged)
  next
    case (BpActive m t d)
    have m: "m = slot" using idp BpActive by (auto simp: bp_idp_new_iff [OF api])
    have "calls = [NoteProcessing slot]"
      using ver run by (intro bp_inherents_once) (simp_all add: BpActive m bp_verified_iff)
    then have s1: "s1 = discard_processed_blocks slot (on_initialize author (Some slot) s)"
      using run by (auto simp: note_processing_def cfg)
    have "\<forall>(s, a) \<in> set (log_of s @ logged [(slot, author)]). s \<le> slot"
      using log(1) by (cases author) (auto intro: less_imp_le)
    then have "log_of s1 = []"
      unfolding s1 discards_prefix logs_block log_on_initialize_logged by (rule drop_prefix_covers)
    moreover have "peek_prefix slot (log_of s) = log_of s"
      using log(1) by (intro peek_prefix_covers) (auto intro: less_imp_le)
    then have "bs = log_of s" using processes_prefix [OF proc] inert BpActive by simp
    then have "released p idp = blocks_of p (log_of s)" for p
      using active_credits [OF idp [unfolded BpActive] node api bs] log(2) by (simp add: released_def BpActive)
    ultimately show ?thesis using BpActive by simp
  qed
qed

text \<open>Over a run, a producer is credited with its blocks once each, but for those that release data.\<close>

lemma run_accounts:
  assumes "bp_run cfg on_initialize node mc_epoch_config to_millis (s, up_to, c) blocks idps (s', up_to', c')"
    and cfg: "cfg_blocks_to_process cfg = blocks_to_process" "cfg_discard_processed_blocks cfg = discard_processed_blocks"
    and node: "hash_order_ok node"
    and "sorted_wrt (<) (map fst blocks)" and "\<forall>b \<in> set (log_of s). \<forall>b' \<in> set blocks. fst b < fst b'"
    and "length (log_of s) + length blocks < 2 ^ 32"
  shows "blocks_of p (log_of s) + blocks_of p (logged blocks) =
    sum_list (map (released p) idps) + blocks_of p (logged (releasing blocks idps)) + blocks_of p (log_of s')"
  using assms(1,5-7)
proof (induction "(s, up_to, c)" blocks idps "(s', up_to', c')" arbitrary: s up_to c rule: bp_run.induct)
  case (block trap s slot c idp c1 calls origin author up_to s1 up_to1 blocks idps)
  have log: "\<forall>b \<in> set (log_of s). fst b < slot" "length (log_of s) < 2 ^ 32" using block.prems(2,3) by auto
  have eff: "if idp = BpInert then log_of s1 = log_of s @ logged [(slot, author)]
      else log_of s1 = [] \<and> (\<forall>p. released p idp = blocks_of p (log_of s))"
    by (rule block_effect [OF block.hyps(1-3) cfg node log])
  have len: "length (logged [(slot, author)]) \<le> 1" by (cases author) auto
  have sorted: "sorted_wrt (<) (map fst blocks)" using block.prems(1) by simp
  have newer: "\<forall>b \<in> set (log_of s1). \<forall>b' \<in> set blocks. fst b < fst b'"
    using eff block.prems(1,2) by (cases author) (auto split: if_splits)
  have short: "length (log_of s1) + length blocks < 2 ^ 32"
    using eff block.prems(3) len by (auto split: if_splits)
  note IH = block.hyps(5) [OF sorted newer short]
  show ?case
  proof (cases "idp = BpInert")
    case True
    then show ?thesis using eff IH by (cases author) (auto simp: released_def)
  next
    case False
    then show ?thesis using eff IH by (cases author) auto
  qed
qed simp

end

section \<open>The log as its own provider\<close>

text \<open>When the log is released in every block, the blocks that release it are every second one.\<close>

lemma log_idp_inert_iff:
  assumes "bp_idp_new node (bp_api_of trap to_millis cfg log) slot mc_epoch_config c = Ret (Inr idp, c1)"
    and "cfg_blocks_to_process cfg = log_blocks_to_process" and "\<forall>b \<in> set log. fst b < slot"
  shows "idp = BpInert \<longleftrightarrow> log = []"
proof -
  have api: "bp_has_api (bp_api_of trap to_millis cfg log) = Inr True" by (simp add: bp_api_of_def)
  have "peek_prefix slot log = log" using assms(3) by (intro peek_prefix_covers) (auto intro: less_imp_le)
  then have "api_blocks_to_process (bp_api_of trap to_millis cfg log) slot = Inr log"
    by (simp add: bp_api_of_def assms(2) log_blocks_to_process_def)
  then show ?thesis using assms(1) unfolding bp_idp_new_iff [OF api] by auto
qed

lemma log_releases_alternate:
  assumes "bp_run cfg log_on_initialize node mc_epoch_config to_millis (log, up_to, c) blocks idps st'"
    and cfg: "cfg_blocks_to_process cfg = log_blocks_to_process"
      "cfg_discard_processed_blocks cfg = log_discard_processed_blocks"
    and node: "hash_order_ok node"
    and "sorted_wrt (<) (map fst blocks)" and "\<forall>b \<in> set log. \<forall>b' \<in> set blocks. fst b < fst b'"
    and "length log + length blocks < 2 ^ 32" and "\<forall>b \<in> set blocks. snd b \<noteq> None"
  shows "releasing blocks idps = nths blocks {i. if log = [] then odd i else even i}"
  using assms(1,5-8)
proof (induction "(log, up_to, c)" blocks idps st' arbitrary: log up_to c rule: bp_run.induct)
  case (block trap log slot c idp c1 calls origin author up_to log1 up_to1 blocks idps st')
  have log: "\<forall>b \<in> set log. fst b < slot" "length log < 2 ^ 32" using block.prems(2,3) by auto
  have eff: "if idp = BpInert then log1 = log @ logged [(slot, author)] else log1 = []"
    using lp.block_effect [OF block.hyps(1-3) cfg node] log by (simp split: if_splits)
  have inert: "idp = BpInert \<longleftrightarrow> log = []" by (rule log_idp_inert_iff [OF block.hyps(1) cfg(1) log(1)])
  obtain a where a: "author = Some a" using block.prems(4) by auto
  have log1: "log1 = [] \<longleftrightarrow> log \<noteq> []" using eff inert a by auto
  have newer: "\<forall>b \<in> set log1. \<forall>b' \<in> set blocks. fst b < fst b'" "length log1 + length blocks < 2 ^ 32"
    using eff block.prems(1-3) a by (auto split: if_splits)
  have "releasing blocks idps = nths blocks {i. if log1 = [] then odd i else even i}"
    using block.hyps(5) block.prems(1,4) newer by simp
  then show ?case by (simp add: inert log1 nths_Cons)
qed simp

lemma blocks_of_nths_split:
  "blocks_of p (logged (nths blocks {i. even i})) + blocks_of p (logged (nths blocks {i. odd i})) =
    blocks_of p (logged blocks)"
proof (induction blocks)
  case (Cons b blocks)
  obtain slot author where b: "b = (slot, author)" by fastforce
  show ?case using Cons by (cases author) (auto simp: b nths_Cons)
qed simp

section \<open>Properties\<close>

text \<open>C26: block participation data credits blocks once. Over every run of verified blocks in ascending slots,
  with the provider of the demo runtime, any iteration order of the hash maps, any data source and any
  way the blocks fall into main chain epochs, the blocks of each producer (those in the log at the start
  and those logged on the way) are accounted for: each is credited to the producer in exactly one
  release of participation data, or is still in the log, or is one of the blocks that release data
  themselves, which are credited in no release.\<close>

theorem participation_credits_blocks_once:
  assumes "bp_run cfg helper_on_initialize node mc_epoch_config to_millis (s, up_to, c) blocks idps (s', up_to', c')"
    and "cfg_blocks_to_process cfg = helper_blocks_to_process"
      "cfg_discard_processed_blocks cfg = helper_discard_processed_blocks"
    and "hash_order_ok node" and "sorted_wrt (<) (map fst blocks)"
    and "\<forall>b \<in> set (production_log s). \<forall>b' \<in> set blocks. fst b < fst b'"
    and "length (production_log s) + length blocks < 2 ^ 32"
  shows "blocks_of p (production_log s) + blocks_of p (logged blocks) =
    sum_list (map (released p) idps) + blocks_of p (logged (releasing blocks idps)) + blocks_of p (production_log s')"
  by (rule hp.run_accounts [OF assms])

text \<open>C28: with the production log as the provider, as the documentation of the pallet suggests, every
  second block is never credited. The data is released in every block whose parent left an entry in the
  log; it holds the blocks up to the parent, but the inherent discards the entries up to the new block's
  own slot, which its initialisation has already logged. So of a run from an empty log only the first,
  third, fifth and so on block are credited or waiting in the log.\<close>

theorem log_provider_loses_every_second_block:
  assumes "bp_run cfg log_on_initialize node mc_epoch_config to_millis ([], up_to, c) blocks idps (log', up_to', c')"
    and "cfg_blocks_to_process cfg = log_blocks_to_process"
      "cfg_discard_processed_blocks cfg = log_discard_processed_blocks"
    and "hash_order_ok node" and "sorted_wrt (<) (map fst blocks)"
    and "length blocks < 2 ^ 32" and "\<forall>b \<in> set blocks. snd b \<noteq> None"
  shows "sum_list (map (released p) idps) + blocks_of p log' = blocks_of p (logged (nths blocks {i. even i}))"
proof -
  have "releasing blocks idps = nths blocks {i. odd i}"
    using log_releases_alternate [OF assms(1-5)] assms(6,7) by simp
  then show ?thesis
    using lp.run_accounts [OF assms(1-5), of p] assms(6) blocks_of_nths_split [of p blocks] by simp
qed

section \<open>A chain of four blocks\<close>

definition demo_bp_node :: "(nat, delegator_key, unit, unit) bp_node" where
  "demo_bp_node = \<lparr>cardano_spo = (\<lambda>_. None), from_delegator_key = id, order_epochs = rev, order_producers = rev,
     node_query = (\<lambda>_ _ c. (Inr [], c))\<rparr>"

definition demo_bp_config ::
  "(u64 \<Rightarrow> 's \<Rightarrow> (u64 \<times> nat) list exec) \<Rightarrow> (u64 \<Rightarrow> 's \<Rightarrow> 's) \<Rightarrow> (bool, u64, nat, 's) bp_config" where
  "demo_bp_config blocks_to_process discard = \<lparr>bp_none_origin = id, cfg_blocks_to_process = blocks_to_process,
     cfg_discard_processed_blocks = discard, target_inherent_id = [1]\<rparr>"

definition demo_bp_epochs :: mainchain_epoch_config where
  "demo_bp_epochs = \<lparr>epoch_duration_millis = 12000, slot_duration_millis = 1000, first_epoch_timestamp_millis = 0,
     first_epoch_number = 5, first_slot_number = 0\<rparr>"

abbreviation demo_credit :: "nat \<Rightarrow> u32 \<Rightarrow> (nat, delegator_key) producer_participation" where
  "demo_credit p n \<equiv> \<lparr>block_producer = p, block_count = n, delegator_total_shares = 0, pp_delegators = []\<rparr>"

abbreviation demo_helper :: "(u64 \<times> nat) list \<Rightarrow> nat helper_state" where
  "demo_helper log \<equiv> \<lparr>production_log = log, release_period = 2\<rparr>"

abbreviation demo_helper_run where
  "demo_helper_run \<equiv> bp_run (demo_bp_config helper_blocks_to_process helper_discard_processed_blocks)
     helper_on_initialize demo_bp_node demo_bp_epochs (moment_to_timestamp_millis 6000)"

abbreviation demo_log_run where
  "demo_log_run \<equiv> bp_run (demo_bp_config log_blocks_to_process log_discard_processed_blocks)
     log_on_initialize demo_bp_node demo_bp_epochs (moment_to_timestamp_millis 6000)"

lemmas demo_inert_block = bp_run.block [where calls = "[]" and trap = "()" and origin = True and ?c1.0 = "()" and idp = BpInert]
lemmas demo_active_block = bp_run.block [where trap = "()" and origin = True and ?c1.0 = "()"]

lemma demo_epochs_passed: "epochs_passed demo_bp_epochs 6000 = Ret (Inr 0)"
  by (simp add: epochs_passed_Inr_iff demo_bp_epochs_def elapsed_def)

lemma demo_first_epoch: "data_mc_epoch_for_timestamp 6000 demo_bp_epochs = Ret (Inr 3)"
  by (simp add: data_mc_epoch_for_timestamp_def timestamp_to_mainchain_epoch_def demo_epochs_passed)
    (simp add: demo_bp_epochs_def saturating_add_def offset_data_epoch_def checked_sub_def DATA_MC_EPOCH_OFFSET_def)

lemma demo_release:
  assumes "cfg_blocks_to_process cfg 2 s = Ret [(1, 7)]" and "target_inherent_id cfg = [1]"
  shows "bp_idp_new demo_bp_node (bp_api_of () (moment_to_timestamp_millis 6000) cfg s) 2 demo_bp_epochs () =
    Ret (Inr (BpActive 2 [1] [demo_credit 7 1]), ())"
proof -
  let ?api = "bp_api_of () (moment_to_timestamp_millis 6000) cfg s"
  have "count_blocks_by_epoch_and_producer [(1, 7)] demo_bp_epochs ?api [] = Ret (Inr [(3, [(7, 1)])])"
    by (simp add: bp_api_of_def moment_to_timestamp_millis_def demo_first_epoch)
  moreover have "production_summaries demo_bp_node (order_epochs demo_bp_node [(3, [(7, 1)])]) () =
      (Inr [demo_credit 7 1], ())" by code_simp
  moreover have "bp_has_api ?api = Inr True" "api_blocks_to_process ?api 2 = Inr [(1, 7)]"
      "api_target_inherent_id ?api = Inr [1]"
    using assms by (simp_all add: bp_api_of_def)
  moreover have "block_production_data_new [demo_credit 7 1] = [demo_credit 7 1]"
    by (simp add: block_production_data_new_def)
  ultimately show ?thesis by (simp add: bp_idp_new_def)
qed

lemma demo_helper_blocks:
  "demo_helper_run (demo_helper [], 0, ()) [(1, Some 7), (2, Some 8), (3, Some 7), (5, Some 8)]
    [BpInert, BpActive 2 [1] [demo_credit 7 1], BpInert, BpInert] (demo_helper [(3, 7), (5, 8)], 2, ())"
proof -
  have "demo_helper_run (demo_helper [(3, 7)], 2, ()) [(5, Some 8)] [BpInert] (demo_helper [(3, 7), (5, 8)], 2, ())"
    by (rule demo_inert_block [where ?up_to1.0 = 2 and ?s1.0 = "demo_helper [(3, 7), (5, 8)]", OF _ _ _ bp_run.start]; code_simp)
  then have "demo_helper_run (demo_helper [], 2, ()) [(3, Some 7), (5, Some 8)] [BpInert, BpInert]
      (demo_helper [(3, 7), (5, 8)], 2, ())"
    by (rule demo_inert_block [where ?up_to1.0 = 2 and ?s1.0 = "demo_helper [(3, 7)]", rotated 3]; code_simp)
  then have "demo_helper_run (demo_helper [(1, 7)], 0, ()) [(2, Some 8), (3, Some 7), (5, Some 8)]
      [BpActive 2 [1] [demo_credit 7 1], BpInert, BpInert] (demo_helper [(3, 7), (5, 8)], 2, ())"
    by (rule demo_active_block [where calls = "[NoteProcessing 2]" and ?up_to1.0 = 2 and ?s1.0 = "demo_helper []",
          OF demo_release, rotated 4]; code_simp)
  then show ?thesis
    by (rule demo_inert_block [where ?up_to1.0 = 0 and ?s1.0 = "demo_helper [(1, 7)]", rotated 3]; code_simp)
qed

theorem participation_credits_blocks_once_witness:
  "blocks_of 8 (logged [(1, Some 7), (2, Some 8), (3, Some 7), (5, Some (8 :: nat))] :: (u64 \<times> nat) list) =
    sum_list (map (released 8) [BpInert, BpActive (2 :: u64) [1] [demo_credit 7 1], BpInert, BpInert]) +
    blocks_of 8 (logged [(2, Some 8)] :: (u64 \<times> nat) list) + blocks_of 8 ([(3, 7), (5, 8)] :: (u64 \<times> nat) list)"
  using participation_credits_blocks_once [OF demo_helper_blocks, of 8]
  by (simp add: demo_bp_config_def hash_order_ok_def demo_bp_node_def)

lemma demo_log_blocks:
  "demo_log_run ([], 0, ()) [(1, Some 7), (2, Some 8)] [BpInert, BpActive 2 [1] [demo_credit 7 1]] ([], 2, ())"
proof -
  have "demo_log_run ([(1, 7)], 0, ()) [(2, Some 8)] [BpActive 2 [1] [demo_credit 7 1]] ([], 2, ())"
    by (rule demo_active_block [where calls = "[NoteProcessing 2]" and ?up_to1.0 = 2 and ?s1.0 = "[]",
          OF demo_release _ _ bp_run.start]; code_simp)
  then show ?thesis
    by (rule demo_inert_block [where ?up_to1.0 = 0 and ?s1.0 = "[(1, 7)]", rotated 3]; code_simp)
qed

theorem log_provider_loses_every_second_block_witness:
  "sum_list (map (released 8) [BpInert, BpActive (2 :: u64) [1] [demo_credit 7 1]]) = 0 \<and>
    sum_list (map (released 7) [BpInert, BpActive (2 :: u64) [1] [demo_credit 7 1]]) = 1"
  using log_provider_loses_every_second_block [OF demo_log_blocks, of 8]
    log_provider_loses_every_second_block [OF demo_log_blocks, of 7]
  by (simp add: demo_bp_config_def hash_order_ok_def demo_bp_node_def nths_Cons)

end
