(* ===== verification/Stake_Distribution.thy ===== *)
theory Stake_Distribution
  imports Block_Participation
begin

text \<open>
  The Db-Sync data source of stake delegation, \<open>stake_distribution/mod.rs\<close> of
  \<open>toolkit/data-sources/db-sync/src\<close> with its query in \<open>db_model.rs\<close>. It meets the contract of
  \<open>Block_Participation\<close>.

  The rows of the joined tables are a parameter, the conditions of the query are modelled. The cache is
  the \<open>LruCache\<close> of the crate \<open>lru\<close>, the record \<open>lru\<close>; \<open>lru_ok\<close> states its documented behaviour, with
  \<open>holds\<close> the entries a cache has: a lookup finds an entry of the cache, storing an entry replaces the
  one of the same key, and any operation may evict entries.
\<close>

record ('k, 'v, 'c) lru =
  lru_new :: "nat \<Rightarrow> 'c"
  lru_get :: "'k \<Rightarrow> 'c \<Rightarrow> 'v option \<times> 'c"
  lru_put :: "'k \<Rightarrow> 'v \<Rightarrow> 'c \<Rightarrow> 'c"

definition lru_ok :: "('k, 'v, 'c) lru \<Rightarrow> ('c \<Rightarrow> ('k \<times> 'v) set) \<Rightarrow> bool" where
  "lru_ok L holds \<longleftrightarrow>
     (\<forall>n. holds (lru_new L n) = {}) \<and>
     (\<forall>k c v c'. lru_get L k c = (Some v, c') \<longrightarrow> (k, v) \<in> holds c) \<and>
     (\<forall>k c r c'. lru_get L k c = (r, c') \<longrightarrow> holds c' \<subseteq> holds c) \<and>
     (\<forall>k v c. holds (lru_put L k v c) \<subseteq> insert (k, v) {(k', v') \<in> holds c. k' \<noteq> k})"

section \<open>Rows\<close>

record stake_row =
  epoch_stake_amount :: stake_delegation
  pool_hash_raw :: bytes
  stake_address_hash_raw :: bytes
  stake_address_script_hash :: "bytes option"

definition get_stake_pool_delegations_for_pools ::
  "'e + (mc_epoch_number \<times> stake_row) list \<Rightarrow> mc_epoch_number \<Rightarrow> bytes list \<Rightarrow> 'e + stake_row list" where
  "get_stake_pool_delegations_for_pools db epoch pools =
     try_bind db (\<lambda>rows. Inr (map snd (filter (\<lambda>(epoch_no, row).
       epoch_no = epoch \<and> epoch_stake_amount row > 0 \<and> pool_hash_raw row \<in> set pools) rows)))"

definition get_delegator_key :: "stake_row \<Rightarrow> unit + delegator_key" where
  "get_delegator_key row =
     (case stake_address_hash_raw row of
        [] \<Rightarrow> Inl ()
      | header # rest \<Rightarrow>
          if header = 0xe0 \<or> header = 0xe1 then Inr (StakeKeyHash rest)
          else if header = 0xf0 \<or> header = 0xf1 then
            try_bind (ok_or (stake_address_script_hash row) ()) (\<lambda>script. Inr (ScriptKeyHash rest script))
          else Inl ())"

definition add_row :: "stake_row \<Rightarrow> stake_distribution \<Rightarrow> stake_distribution" where
  "add_row row res =
     (case get_delegator_key row of
        Inl _ \<Rightarrow> res
      | Inr delegator_key \<Rightarrow>
          let pool = (case map_of res (pool_hash_raw row) of
                        None \<Rightarrow> \<lparr>total_stake = 0, delegators = []\<rparr> | Some pool \<Rightarrow> pool) in
          btm_insert (pool_hash_raw row)
            \<lparr>total_stake = total_stake pool + epoch_stake_amount row,
             delegators = (case map_of (delegators pool) delegator_key of
                None \<Rightarrow> btm_insert delegator_key (epoch_stake_amount row) (delegators pool)
              | Some _ \<Rightarrow> delegators pool)\<rparr> res)"

definition rows_to_distribution :: "stake_row list \<Rightarrow> stake_distribution" where
  "rows_to_distribution rows = fold add_row rows []"

section \<open>Cache and queries\<close>

type_synonym 'c distribution_lru = "(mc_epoch_number \<times> bytes, pool_delegation, 'c) lru"

definition distribution_cache_new :: "'c distribution_lru \<Rightarrow> nat \<Rightarrow> 'c exec" where
  "distribution_cache_new L cache_size = (if cache_size = 0 then Panic else Ret (lru_new L cache_size))"

definition get_distribution_for_pool ::
  "'c distribution_lru \<Rightarrow> mc_epoch_number \<Rightarrow> bytes \<Rightarrow> 'c \<Rightarrow> pool_delegation option \<times> 'c" where
  "get_distribution_for_pool L epoch pool_hash c = lru_get L (epoch, pool_hash) c"

definition put_distribution_for_pools ::
  "'c distribution_lru \<Rightarrow> mc_epoch_number \<Rightarrow> stake_distribution \<Rightarrow> 'c \<Rightarrow> 'c" where
  "put_distribution_for_pools L epoch dist c =
     fold (\<lambda>(pool_hash, pool_delegation). lru_put L (epoch, pool_hash) pool_delegation) dist c"

text \<open>The loop over the pools: what the cache has, and the pools to query.\<close>

fun lookup_pools ::
  "'c distribution_lru \<Rightarrow> mc_epoch_number \<Rightarrow> bytes list \<Rightarrow> stake_distribution \<Rightarrow> 'c \<Rightarrow>
   stake_distribution \<times> bytes list \<times> 'c" where
  "lookup_pools L epoch [] dist c = (dist, [], c)"
| "lookup_pools L epoch (pool_hash # pool_hashes) dist c =
     (case get_distribution_for_pool L epoch pool_hash c of
        (Some pool_delegation, c') \<Rightarrow> lookup_pools L epoch pool_hashes (btm_insert pool_hash pool_delegation dist) c'
      | (None, c') \<Rightarrow>
          (case lookup_pools L epoch pool_hashes dist c' of
             (dist', to_query, c'') \<Rightarrow> (dist', pool_hash # to_query, c'')))"

definition get_stake_pool_delegation_distribution_for_pools ::
  "'c distribution_lru \<Rightarrow> 'e + (mc_epoch_number \<times> stake_row) list \<Rightarrow> ('e, 'c) bp_query" where
  "get_stake_pool_delegation_distribution_for_pools L db epoch pool_hashes c =
     (case lookup_pools L epoch pool_hashes [] c of
        (stake_distribution, pool_hashes_to_query, c1) \<Rightarrow>
          (case get_stake_pool_delegations_for_pools db epoch pool_hashes_to_query of
             Inl e \<Rightarrow> (Inl e, c1)
           | Inr rows \<Rightarrow>
               let queried = rows_to_distribution rows in
               (Inr (fold (\<lambda>(k, v). btm_insert k v) queried stake_distribution),
                put_distribution_for_pools L epoch queried c1)))"

section \<open>What the rows say about a pool\<close>

lemma add_row_btm_ok: "btm_ok res \<Longrightarrow> btm_ok (add_row row res)"
  by (auto simp: add_row_def Let_def split: sum.splits)

lemma add_row_other: "btm_ok res \<Longrightarrow> pool_hash_raw row \<noteq> p \<Longrightarrow> map_of (add_row row res) p = map_of res p"
  by (auto simp: add_row_def Let_def split: sum.splits)

lemma add_row_cong:
  "btm_ok res \<Longrightarrow> btm_ok res' \<Longrightarrow> map_of res p = map_of res' p \<Longrightarrow> pool_hash_raw row = p \<Longrightarrow>
    map_of (add_row row res) p = map_of (add_row row res') p"
  by (auto simp: add_row_def Let_def split: sum.splits)

lemma fold_add_row_btm_ok: "btm_ok res \<Longrightarrow> btm_ok (fold add_row rows res)"
  by (induction rows arbitrary: res) (auto simp: add_row_btm_ok)

lemma fold_add_row_filter:
  "btm_ok res \<Longrightarrow> btm_ok res' \<Longrightarrow> map_of res p = map_of res' p \<Longrightarrow>
    map_of (fold add_row rows res) p = map_of (fold add_row (filter (\<lambda>r. pool_hash_raw r = p) rows) res') p"
proof (induction rows arbitrary: res res')
  case (Cons row rows)
  show ?case
  proof (cases "pool_hash_raw row = p")
    case True
    then show ?thesis using Cons add_row_cong [OF Cons.prems(1,2,3)] by (simp add: add_row_btm_ok)
  next
    case False
    have "map_of (add_row row res) p = map_of res' p" using add_row_other [OF Cons.prems(1) False] Cons.prems(3) by simp
    from Cons.IH [OF add_row_btm_ok [OF Cons.prems(1)] Cons.prems(2) this] show ?thesis using False by simp
  qed
qed simp

lemma distribution_btm_ok: "btm_ok (rows_to_distribution rows)"
  by (simp add: rows_to_distribution_def fold_add_row_btm_ok)

lemma distribution_of_pool:
  "map_of (rows_to_distribution rows) p = map_of (rows_to_distribution (filter (\<lambda>r. pool_hash_raw r = p) rows)) p"
  unfolding rows_to_distribution_def by (rule fold_add_row_filter) simp_all

text \<open>The delegation of a pool in an epoch, straight from the rows.\<close>

definition delegation_of :: "'e + (mc_epoch_number \<times> stake_row) list \<Rightarrow> mc_epoch_number \<Rightarrow> bytes \<Rightarrow> pool_delegation option" where
  "delegation_of db epoch p =
     (case get_stake_pool_delegations_for_pools db epoch [p] of
        Inl _ \<Rightarrow> None | Inr rows \<Rightarrow> map_of (rows_to_distribution rows) p)"

lemma queried_distribution:
  assumes "get_stake_pool_delegations_for_pools db epoch pools = Inr rows"
  shows "map_of (rows_to_distribution rows) p = (if p \<in> set pools then delegation_of db epoch p else None)"
proof -
  from assms obtain all where db: "db = Inr all"
    and rows: "rows = map snd (filter (\<lambda>(n, r). n = epoch \<and> epoch_stake_amount r > 0 \<and> pool_hash_raw r \<in> set pools) all)"
    by (auto simp: get_stake_pool_delegations_for_pools_def)
  have own: "filter (\<lambda>r. pool_hash_raw r = p) rows =
      (if p \<in> set pools then map snd (filter (\<lambda>(n, r). n = epoch \<and> epoch_stake_amount r > 0 \<and> pool_hash_raw r \<in> set [p]) all)
       else [])"
    unfolding rows filter_map filter_filter
    by (cases "p \<in> set pools") (auto simp: filter_empty_conv intro!: arg_cong [where f = "map snd"] filter_cong)
  have "delegation_of db epoch p = map_of (rows_to_distribution
      (map snd (filter (\<lambda>(n, r). n = epoch \<and> epoch_stake_amount r > 0 \<and> pool_hash_raw r \<in> set [p]) all))) p"
    unfolding delegation_of_def get_stake_pool_delegations_for_pools_def db by (simp only: try_bind.simps sum.case)
  moreover have "map_of (rows_to_distribution rows) p = map_of (rows_to_distribution (filter (\<lambda>r. pool_hash_raw r = p) rows)) p"
    by (rule distribution_of_pool)
  ultimately show ?thesis unfolding own by (cases "p \<in> set pools") (simp_all only: if_True if_False rows_to_distribution_def fold.simps id_apply map_of.simps)
qed

section \<open>The contract\<close>

text \<open>A cache that holds nothing but answers of the database.\<close>

definition distribution_cache_ok ::
  "'c distribution_lru \<Rightarrow> ('c \<Rightarrow> ((mc_epoch_number \<times> bytes) \<times> pool_delegation) set) \<Rightarrow>
   'e + (mc_epoch_number \<times> stake_row) list \<Rightarrow> 'c \<Rightarrow> bool" where
  "distribution_cache_ok L holds db c \<longleftrightarrow>
     lru_ok L holds \<and> (\<forall>((e, p), d) \<in> holds c. delegation_of db e p = Some d)"

lemma cache_get:
  assumes "distribution_cache_ok L holds db c" and "get_distribution_for_pool L e p c = (r, c')"
  shows "distribution_cache_ok L holds db c'" and "r = Some d \<Longrightarrow> delegation_of db e p = Some d"
proof -
  have L: "holds c' \<subseteq> holds c" "r = Some d \<Longrightarrow> ((e, p), d) \<in> holds c" for d
    using assms unfolding distribution_cache_ok_def lru_ok_def get_distribution_for_pool_def by blast+
  show "distribution_cache_ok L holds db c'" using assms(1) L(1) by (auto simp: distribution_cache_ok_def)
  show "r = Some d \<Longrightarrow> delegation_of db e p = Some d"
    using assms(1) L(2) by (auto simp: distribution_cache_ok_def)
qed

lemma cache_put:
  assumes "distribution_cache_ok L holds db c" and "\<forall>(p, d) \<in> set dist. delegation_of db e p = Some d"
  shows "distribution_cache_ok L holds db (put_distribution_for_pools L e dist c)"
  using assms
proof (induction dist arbitrary: c)
  case (Cons x dist)
  obtain p d where x: "x = (p, d)" by fastforce
  have "holds (lru_put L (e, p) d c) \<subseteq> insert ((e, p), d) (holds c)"
    using Cons.prems(1) unfolding distribution_cache_ok_def lru_ok_def by blast
  then have "distribution_cache_ok L holds db (lru_put L (e, p) d c)"
    using Cons.prems x by (auto simp: distribution_cache_ok_def)
  then show ?case using Cons.IH Cons.prems(2) by (simp add: x put_distribution_for_pools_def)
qed (simp add: put_distribution_for_pools_def)

text \<open>A distribution in the making: some of the pools, each with the answer of the database.\<close>

definition part_of :: "(bytes \<Rightarrow> pool_delegation option) \<Rightarrow> stake_distribution \<Rightarrow> bool" where
  "part_of answer dist \<longleftrightarrow> btm_ok dist \<and> map_of dist \<subseteq>\<^sub>m answer"

lemma part_of_insert: "part_of answer dist \<Longrightarrow> answer p = Some d \<Longrightarrow> part_of answer (btm_insert p d dist)"
  by (auto simp: part_of_def map_le_def)

lemma lookup_pools_ok:
  assumes "lookup_pools L e pools dist c = (dist', to_query, c')" and "distribution_cache_ok L holds db c"
    and "part_of (delegation_of db e) dist"
  shows "distribution_cache_ok L holds db c' \<and> part_of (delegation_of db e) dist' \<and>
    dom (map_of dist) \<union> set pools \<subseteq> set to_query \<union> dom (map_of dist')"
  using assms
proof (induction pools arbitrary: dist c to_query)
  case (Cons p pools)
  obtain r c1 where g: "get_distribution_for_pool L e p c = (r, c1)" by fastforce
  have c1: "distribution_cache_ok L holds db c1" by (rule cache_get(1) [OF Cons.prems(2) g])
  show ?case
  proof (cases r)
    case None
    then obtain q where q: "lookup_pools L e pools dist c1 = (dist', q, c')" "to_query = p # q"
      using Cons.prems(1) g by (auto split: prod.splits)
    from Cons.IH [OF q(1) c1 Cons.prems(3)] show ?thesis by (auto simp: q(2))
  next
    case (Some d)
    have part: "part_of (delegation_of db e) (btm_insert p d dist)"
      by (rule part_of_insert [OF Cons.prems(3) cache_get(2) [OF Cons.prems(2) g Some]])
    have "lookup_pools L e pools (btm_insert p d dist) c1 = (dist', to_query, c')"
      using Cons.prems(1) g Some by simp
    from Cons.IH [OF this c1 part] Cons.prems(3) show ?thesis by (auto simp: part_of_def)
  qed
qed auto

lemma queried_part_of:
  assumes "get_stake_pool_delegations_for_pools db e pools = Inr rows"
  shows "part_of (delegation_of db e) (rows_to_distribution rows)"
  using queried_distribution [OF assms] by (auto simp: part_of_def map_le_def distribution_btm_ok split: if_splits)

lemma query_effect:
  assumes q: "get_stake_pool_delegation_distribution_for_pools L db e pools c = (r, c')" and ok: "distribution_cache_ok L holds db c"
  shows "distribution_cache_ok L holds db c' \<and> (\<forall>d. r = Inr d \<longrightarrow> (\<forall>p \<in> set pools. map_of d p = delegation_of db e p))"
proof -
  obtain dist to_query c1 where l: "lookup_pools L e pools [] c = (dist, to_query, c1)" by (metis prod_cases3)
  have part: "distribution_cache_ok L holds db c1" "part_of (delegation_of db e) dist"
      "set pools \<subseteq> set to_query \<union> dom (map_of dist)"
    using lookup_pools_ok [OF l ok] by (auto simp: part_of_def)
  show ?thesis
  proof (cases "get_stake_pool_delegations_for_pools db e to_query")
    case (Inl x)
    then show ?thesis using q l part by (auto simp: get_stake_pool_delegation_distribution_for_pools_def)
  next
    case (Inr rows)
    let ?new = "rows_to_distribution rows"
    have r: "r = Inr (fold (\<lambda>(k, v). btm_insert k v) ?new dist)" and c': "c' = put_distribution_for_pools L e ?new c1"
      using q l Inr by (auto simp: get_stake_pool_delegation_distribution_for_pools_def Let_def)
    have new: "\<forall>(p, d) \<in> set ?new. delegation_of db e p = Some d"
      using queried_part_of [OF Inr] distribution_btm_ok [of rows]
      by (force simp: part_of_def map_le_def dom_def dest!: btm_ok_distinct map_of_is_SomeI)
    have "map_of (fold (\<lambda>(k, v). btm_insert k v) ?new dist) = map_of dist ++ map_of (rev ?new)"
      using part(2) by (simp add: map_of_fold_insert part_of_def fold_upd_snoc)
    also have "map_of (rev ?new) = map_of ?new"
      using btm_ok_distinct [OF distribution_btm_ok, of rows] by (simp add: map_of_inject_set rev_map [symmetric])
    finally have all: "map_of (fold (\<lambda>(k, v). btm_insert k v) ?new dist) = map_of dist ++ map_of ?new" .
    have "(map_of dist ++ map_of ?new) p = delegation_of db e p" if "p \<in> set pools" for p
      using that part(2,3) queried_distribution [OF Inr, of p]
      by (cases "p \<in> set to_query"; cases "map_of dist p") (auto simp: map_add_def part_of_def map_le_def dom_def split: option.splits)
    then show ?thesis using cache_put [OF part(1) new] by (simp add: r c' all)
  qed
qed

interpretation db_sync: distribution_source "get_stake_pool_delegation_distribution_for_pools L db" "delegation_of db"
  "distribution_cache_ok L holds db" for L db holds
proof unfold_locales
  fix c c' e pools r assume "distribution_cache_ok L holds db c"
    and "get_stake_pool_delegation_distribution_for_pools L db e pools c = (r, c')"
  from query_effect [OF this(2,1)] show "distribution_cache_ok L holds db c'" by blast
next
  fix c c' e pools d p assume "distribution_cache_ok L holds db c"
    and "get_stake_pool_delegation_distribution_for_pools L db e pools c = (Inr d, c')" and p: "p \<in> set pools"
  from query_effect [OF this(2,1)] p show "map_of d p = delegation_of db e p" by blast
qed

section \<open>Total stake\<close>

text \<open>The rows of a pool that count: those with a delegator key.\<close>

definition keyed_rows :: "stake_row list \<Rightarrow> (delegator_key \<times> u64) list" where
  "keyed_rows rows = List.map_filter (\<lambda>row. map_option (\<lambda>k. (k, epoch_stake_amount row)) (ok (get_delegator_key row))) rows"

lemma sum_btm_insert:
  fixes v :: "'v::comm_monoid_add"
  assumes "btm_ok m" and "map_of m k = None"
  shows "sum_list (map snd (btm_insert k v m)) = v + sum_list (map snd m)"
  using assms by (induction k v m rule: btm_insert.induct) (auto simp: ac_simps split: if_splits)

lemma keyed_rows_Cons:
  "keyed_rows (row # rows) = (case get_delegator_key row of
     Inl _ \<Rightarrow> keyed_rows rows | Inr k \<Rightarrow> (k, epoch_stake_amount row) # keyed_rows rows)"
  by (cases "get_delegator_key row") (simp_all add: keyed_rows_def map_filter_simps)

lemma keyed_rows_filter:
  "fst ` set (keyed_rows (filter P rows)) \<subseteq> fst ` set (keyed_rows rows)"
  "distinct (map fst (keyed_rows rows)) \<Longrightarrow> distinct (map fst (keyed_rows (filter P rows)))"
proof (induction rows)
  case (Cons row rows)
  { case 1 then show ?case using Cons(1) by (cases "get_delegator_key row") (auto simp: keyed_rows_Cons)
  next
    case 2 then show ?case using Cons by (cases "get_delegator_key row") (auto simp: keyed_rows_Cons) }
qed (simp_all add: keyed_rows_def map_filter_simps)

text \<open>A pool whose total is the sum of the stakes of its delegators, with room for the rows to come.\<close>

definition pool_ok :: "(delegator_key \<times> u64) list \<Rightarrow> pool_delegation option \<Rightarrow> bool" where
  "pool_ok rest pool \<longleftrightarrow> (case pool of
     None \<Rightarrow> True
   | Some q \<Rightarrow> btm_ok (delegators q) \<and> total_stake q = sum_list (map snd (delegators q)) \<and>
       fst ` set (delegators q) \<inter> fst ` set rest = {})"

lemma total_stake_fold:
  assumes "\<forall>row \<in> set rows. pool_hash_raw row = p" and "distinct (map fst (keyed_rows rows))"
    and "btm_ok res" and "pool_ok (keyed_rows rows) (map_of res p)"
  shows "pool_ok [] (map_of (fold add_row rows res) p)"
  using assms
proof (induction rows arbitrary: res)
  case (Cons row rows)
  have p: "pool_hash_raw row = p" using Cons.prems(1) by simp
  have "pool_ok (keyed_rows rows) (map_of (add_row row res) p)"
  proof (cases "get_delegator_key row")
    case (Inl e)
    then show ?thesis using Cons.prems(4) by (simp add: add_row_def keyed_rows_Cons)
  next
    case (Inr k)
    show ?thesis
    proof (cases "map_of res p")
      case None
      then show ?thesis using Inr Cons.prems(2,3) p by (simp add: add_row_def keyed_rows_Cons pool_ok_def)
    next
      case (Some q)
      have q: "btm_ok (delegators q)" "total_stake q = sum_list (map snd (delegators q))"
          "map_of (delegators q) k = None" "fst ` set (delegators q) \<inter> fst ` set (keyed_rows rows) = {}"
        using Cons.prems(4) Some Inr by (auto simp: pool_ok_def keyed_rows_Cons map_of_eq_None_iff)
      then show ?thesis
        using Inr Some Cons.prems(2,3) p
        by (simp add: add_row_def keyed_rows_Cons pool_ok_def sum_btm_insert add.commute)
    qed
  qed
  then show ?case using Cons.IH Cons.prems by (cases "get_delegator_key row") (auto simp: add_row_btm_ok keyed_rows_Cons)
qed (auto simp: pool_ok_def keyed_rows_def map_filter_simps split: option.splits)

section \<open>Properties\<close>

text \<open>C27: the participation data of a block is the same on every node. Two nodes with the same view of the
  main chain database, both with any cache filled by earlier queries and any iteration order of their
  hash maps, that compute the data of the same block, compute the same data, so that a verifier's
  inherent data equals the author's.\<close>

theorem participation_nodes_agree:
  fixes node node' :: "('a::linorder, 'd::linorder, 'e, 'c) bp_node"
  assumes "bp_idp_new node api moment cfg c = Ret (Inr idp, d)" and "bp_idp_new node' api moment cfg c' = Ret (Inr idp', d')"
    and "bp_has_api api = Inr True"
    and "distribution_cache_ok L holds db c" "hash_order_ok node"
      "node_query node = get_stake_pool_delegation_distribution_for_pools L db"
    and "distribution_cache_ok L holds db c'" "hash_order_ok node'"
      "node_query node' = get_stake_pool_delegation_distribution_for_pools L db"
    and "cardano_spo node' = cardano_spo node" "from_delegator_key node' = from_delegator_key node"
  shows "idp = idp'"
  by (rule db_sync.nodes_agree [OF assms])

text \<open>The total of a pool's delegation is the sum of the stakes of its delegators, modulo 2^64, in
  every answer of the data source, whatever its cache held before, when the database has no two rows
  with the same delegator key for a pool and epoch.\<close>

theorem distribution_total_stake:
  assumes "get_stake_pool_delegation_distribution_for_pools L db e pools c = (Inr d, c')" and "db = Inr rows"
    and "distribution_cache_ok L holds db c" and "p \<in> set pools" and "map_of d p = Some pool"
    and "distinct (map fst (keyed_rows (map snd (filter (\<lambda>(n, r). n = e \<and> pool_hash_raw r = p) rows))))"
  shows "total_stake pool = sum_list (map snd (delegators pool))"
proof -
  let ?rows = "map snd (filter (\<lambda>(n, r). n = e \<and> pool_hash_raw r = p) rows)"
  let ?own = "filter (\<lambda>r. epoch_stake_amount r > 0) ?rows"
  have "map snd (filter (\<lambda>(n, r). n = e \<and> epoch_stake_amount r > 0 \<and> pool_hash_raw r \<in> set [p]) rows) = ?own"
    unfolding filter_map filter_filter by (intro arg_cong [where f = "map snd"] filter_cong) auto
  moreover have "delegation_of db e p = Some pool"
    using db_sync.answers [OF assms(3,1,4)] assms(5) by simp
  ultimately have "map_of (fold add_row ?own []) p = Some pool"
    unfolding delegation_of_def assms(2) get_stake_pool_delegations_for_pools_def by (simp only: try_bind.simps sum.case rows_to_distribution_def)
  moreover have "pool_ok [] (map_of (fold add_row ?own []) p)"
    by (rule total_stake_fold) (use assms(6) in \<open>auto simp: pool_ok_def intro: keyed_rows_filter(2)\<close>)
  ultimately show ?thesis by (simp add: pool_ok_def)
qed

section \<open>Two nodes\<close>

text \<open>A cache without bound meets the documented behaviour.\<close>

definition assoc_lru :: "('k, 'v, ('k \<times> 'v) list) lru" where
  "assoc_lru = \<lparr>lru_new = (\<lambda>_. []), lru_get = (\<lambda>k c. (map_of c k, c)),
     lru_put = (\<lambda>k v c. (k, v) # filter (\<lambda>(k', _). k' \<noteq> k) c)\<rparr>"

lemma assoc_lru_ok: "lru_ok assoc_lru set"
  by (auto simp: lru_ok_def assoc_lru_def dest: map_of_SomeD)

definition demo_stake_rows :: "unit + (mc_epoch_number \<times> stake_row) list" where
  "demo_stake_rows = Inr
     [(3, \<lparr>epoch_stake_amount = 20, pool_hash_raw = [7], stake_address_hash_raw = [0xe1, 5], stake_address_script_hash = None\<rparr>),
      (3, \<lparr>epoch_stake_amount = 30, pool_hash_raw = [7], stake_address_hash_raw = [0xf1, 6], stake_address_script_hash = Some [9]\<rparr>),
      (3, \<lparr>epoch_stake_amount = 40, pool_hash_raw = [8], stake_address_hash_raw = [0xe1, 5], stake_address_script_hash = None\<rparr>)]"

definition demo_stake_node ::
  "(('a \<times> u32) list \<Rightarrow> ('a \<times> u32) list) \<Rightarrow> ('a \<Rightarrow> bytes option) \<Rightarrow>
   ('a, delegator_key, unit, ((mc_epoch_number \<times> bytes) \<times> pool_delegation) list) bp_node" where
  "demo_stake_node order spo = \<lparr>cardano_spo = spo, from_delegator_key = id, order_epochs = id, order_producers = order,
     node_query = get_stake_pool_delegation_distribution_for_pools assoc_lru demo_stake_rows\<rparr>"

definition demo_stake_api :: "(u8, u64, unit) bp_api" where
  "demo_stake_api = \<lparr>bp_has_api = Inr True, api_blocks_to_process = (\<lambda>_. Inr [(1, 7), (1, 8)]),
     api_target_inherent_id = Inr [1], api_moment_to_timestamp_millis = (\<lambda>_. Inr 6000)\<rparr>"

definition demo_pool_7 :: pool_delegation where
  "demo_pool_7 = \<lparr>total_stake = 50, delegators = [(StakeKeyHash [5], 20), (ScriptKeyHash [6] [9], 30)]\<rparr>"

definition demo_participation :: "(u8, delegator_key) producer_participation list" where
  "demo_participation =
     [\<lparr>block_producer = 7, block_count = 1, delegator_total_shares = 50,
       pp_delegators = [\<lparr>dp_id = StakeKeyHash [5], dp_share = 20\<rparr>, \<lparr>dp_id = ScriptKeyHash [6] [9], dp_share = 30\<rparr>]\<rparr>,
      \<lparr>block_producer = 8, block_count = 1, delegator_total_shares = 40,
       pp_delegators = [\<lparr>dp_id = StakeKeyHash [5], dp_share = 40\<rparr>]\<rparr>]"

lemma demo_stake_counts:
  "count_blocks_by_epoch_and_producer [(1, 7), (1, 8)] demo_bp_epochs demo_stake_api [] = Ret (Inr [(3, [(7, 1), (8, 1)])])"
  by (simp add: demo_stake_api_def demo_first_epoch)

lemma demo_stake_active:
  assumes "production_summaries node (order_epochs node [(3, [(7, 1), (8, 1)])]) c = (Inr sums, c')"
  shows "bp_idp_new node demo_stake_api 2 demo_bp_epochs c = Ret (Inr (BpActive 2 [1] (block_production_data_new sums)), c')"
  using assms demo_stake_counts
  by (simp add: bp_idp_new_def) (simp add: demo_stake_api_def)

definition demo_pool_8 :: pool_delegation where
  "demo_pool_8 = \<lparr>total_stake = 40, delegators = [(StakeKeyHash [5], 40)]\<rparr>"

lemma demo_stake_summaries:
  "production_summaries (demo_stake_node id (\<lambda>p. Some [p]))
      (order_epochs (demo_stake_node id (\<lambda>p. Some [p])) [(3, [(7, 1), (8, 1)])]) [] =
    (Inr demo_participation, [((3, [8]), demo_pool_8), ((3, [7]), demo_pool_7)])"
  "production_summaries (demo_stake_node rev (\<lambda>p. Some [p]))
      (order_epochs (demo_stake_node rev (\<lambda>p. Some [p])) [(3, [(7, 1), (8, 1)])]) [((3, [7]), demo_pool_7)] =
    (Inr (rev demo_participation), [((3, [8]), demo_pool_8), ((3, [7]), demo_pool_7)])"
  by code_simp+

lemma demo_stake_caches:
  "distribution_cache_ok assoc_lru set demo_stake_rows []"
  "distribution_cache_ok assoc_lru set demo_stake_rows [((3, [7]), demo_pool_7)]"
proof -
  have "delegation_of demo_stake_rows 3 [7] = Some demo_pool_7" by code_simp
  then show "distribution_cache_ok assoc_lru set demo_stake_rows []"
    "distribution_cache_ok assoc_lru set demo_stake_rows [((3, [7]), demo_pool_7)]"
    by (simp_all add: distribution_cache_ok_def assoc_lru_ok)
qed

theorem participation_nodes_agree_witness:
  "BpActive (2 :: u64) [1] (block_production_data_new demo_participation) =
    BpActive 2 [1] (block_production_data_new (rev demo_participation))"
proof (rule participation_nodes_agree)
  show "bp_idp_new (demo_stake_node id (\<lambda>p. Some [p])) demo_stake_api 2 demo_bp_epochs [] =
      Ret (Inr (BpActive 2 [1] (block_production_data_new demo_participation)), [((3, [8]), demo_pool_8), ((3, [7]), demo_pool_7)])"
    by (rule demo_stake_active [OF demo_stake_summaries(1)])
  show "bp_idp_new (demo_stake_node rev (\<lambda>p. Some [p])) demo_stake_api 2 demo_bp_epochs [((3, [7]), demo_pool_7)] =
      Ret (Inr (BpActive 2 [1] (block_production_data_new (rev demo_participation))), [((3, [8]), demo_pool_8), ((3, [7]), demo_pool_7)])"
    by (rule demo_stake_active [OF demo_stake_summaries(2)])
  show "distribution_cache_ok assoc_lru set demo_stake_rows []"
    "distribution_cache_ok assoc_lru set demo_stake_rows [((3, [7]), demo_pool_7)]"
    by (rule demo_stake_caches)+
qed (simp_all add: demo_stake_api_def demo_stake_node_def hash_order_ok_def)

theorem distribution_total_stake_witness:
  "total_stake demo_pool_7 = sum_list (map snd (delegators demo_pool_7))"
proof (rule distribution_total_stake)
  show "get_stake_pool_delegation_distribution_for_pools assoc_lru demo_stake_rows 3 [[8], [7]] [((3, [7]), demo_pool_7)] =
      (Inr [([7], demo_pool_7), ([8], demo_pool_8)], [((3, [8]), demo_pool_8), ((3, [7]), demo_pool_7)])" by code_simp
  show "demo_stake_rows = Inr (case demo_stake_rows of Inr rows \<Rightarrow> rows | Inl _ \<Rightarrow> [])" by (simp add: demo_stake_rows_def)
  show "distribution_cache_ok assoc_lru set demo_stake_rows [((3, [7]), demo_pool_7)]" by (rule demo_stake_caches)
  show "distinct (map fst (keyed_rows (map snd (filter (\<lambda>(n, r). n = 3 \<and> pool_hash_raw r = [7])
      (case demo_stake_rows of Inr rows \<Rightarrow> rows | Inl _ \<Rightarrow> [])))))" by code_simp
qed simp_all

end
