(* ===== verification/Block_Source.thy ===== *)
theory Block_Source
  imports Mainchain_Epoch Domain BTree_Map
begin

text \<open>
  The Db-Sync data source of main chain blocks, \<open>toolkit/data-sources/db-sync/src/block/mod.rs\<close>, with its
  queries in \<open>db_model.rs\<close>: the latest stable block at a time, stable blocks by hash with a cache of
  recently used ones, and blocks by hash.

  The database is the list of its block rows, or the error of the connection; a call of the data source
  sees one state of it. Times are integers, milliseconds since the UNIX epoch; \<open>date_time_in_range\<close>
  stands for the range of the date type of the crate \<open>chrono\<close>. \<open>chain_ok\<close> states what the code relies on
  of the main chain: block numbers and times ascend together and no two blocks share a hash.
\<close>

section \<open>Blocks and queries\<close>

record db_block =
  block_no :: u32
  block_hash :: bytes
  block_epoch_no :: u32
  block_slot_no :: u64
  block_time :: int

record mainchain_block =
  mb_number :: u32
  mb_hash :: bytes
  mb_epoch :: mc_epoch_number
  mb_slot :: u64
  mb_timestamp :: u64

definition mainchain_block_of :: "db_block \<Rightarrow> mainchain_block exec" where
  "mainchain_block_of b =
     (if block_time b < 0 then Panic
      else Ret \<lparr>mb_number = block_no b, mb_hash = block_hash b, mb_epoch = block_epoch_no b,
        mb_slot = block_slot_no b, mb_timestamp = word_of_int (block_time b div 1000)\<rparr>)"

datatype 'e block_source_error = BlockSqlxError 'e | BadRequest | ExpectedDataNotFound | InternalDataSourceError

type_synonym 'e block_db = "'e + db_block list"

text \<open>\<open>ORDER BY block_no DESC LIMIT 1\<close>.\<close>

fun highest :: "db_block list \<Rightarrow> db_block option" where
  "highest [] = None"
| "highest (b # bs) =
     (case highest bs of
        None \<Rightarrow> Some b
      | Some h \<Rightarrow> if block_no b < block_no h then Some h else Some b)"

definition db_get_latest_block_info :: "'e block_db \<Rightarrow> 'e block_source_error + db_block option" where
  "db_get_latest_block_info db = try_bind (map_err BlockSqlxError db) (\<lambda>rows. Inr (highest rows))"

definition db_get_blocks_by_numbers ::
  "'e block_db \<Rightarrow> u32 \<Rightarrow> u32 \<Rightarrow> 'e block_source_error + db_block list" where
  "db_get_blocks_by_numbers db from_no to_no =
     try_bind (map_err BlockSqlxError db) (\<lambda>rows.
       Inr (sort_key block_no (filter (\<lambda>b. block_no b \<ge> from_no \<and> block_no b \<le> to_no) rows)))"

definition db_get_highest_block ::
  "'e block_db \<Rightarrow> u32 \<Rightarrow> int \<Rightarrow> u64 \<Rightarrow> int \<Rightarrow> u64 \<Rightarrow> 'e block_source_error + db_block option" where
  "db_get_highest_block db max_block_number min_time min_slot max_time max_slot =
     try_bind (map_err BlockSqlxError db) (\<lambda>rows.
       Inr (highest (filter (\<lambda>b. block_no b \<le> max_block_number \<and> min_slot \<le> block_slot_no b \<and>
         block_slot_no b \<le> max_slot \<and> min_time \<le> block_time b \<and> block_time b \<le> max_time) rows)))"

definition db_get_block_by_hash :: "'e block_db \<Rightarrow> bytes \<Rightarrow> 'e block_source_error + db_block option" where
  "db_get_block_by_hash db hash =
     try_bind (map_err BlockSqlxError db) (\<lambda>rows. Inr (find (\<lambda>b. block_hash b = hash) rows))"

section \<open>Data source\<close>

record block_source_config =
  security_parameter :: u32
  min_slot_boundary :: int
  max_slot_boundary :: int
  bs_epoch_config :: mainchain_epoch_config
  block_stability_margin :: u32
  blocks_cache_size :: u16
  date_time_in_range :: "int \<Rightarrow> bool"

type_synonym blocks_cache = "db_block list"

definition find_by_hash :: "blocks_cache \<Rightarrow> bytes \<Rightarrow> db_block option" where
  "find_by_hash cache hash = find (\<lambda>b. block_hash b = hash) cache"

definition timestamp_to_db_type :: "block_source_config \<Rightarrow> u64 \<Rightarrow> 'e block_source_error + int" where
  "timestamp_to_db_type cfg timestamp =
     (if timestamp < 0x8000000000000000 \<and> date_time_in_range cfg (uint timestamp) then Inr (uint timestamp)
      else Inl BadRequest)"

definition date_time_to_slot :: "block_source_config \<Rightarrow> int \<Rightarrow> ('e block_source_error + u64) exec" where
  "date_time_to_slot cfg dt =
     (if dt < 0 then Ret (Inl BadRequest)
      else exec_map (\<lambda>r. Inr (case r of Inr slot \<Rightarrow> slot | Inl _ \<Rightarrow> first_slot_number (bs_epoch_config cfg)))
        (timestamp_to_mainchain_slot_number (bs_epoch_config cfg) (word_of_int dt)))"

definition min_block_allowed_time :: "block_source_config \<Rightarrow> int \<Rightarrow> int" where
  "min_block_allowed_time cfg reference_timestamp = reference_timestamp - max_slot_boundary cfg"

definition max_allowed_block_time :: "block_source_config \<Rightarrow> int \<Rightarrow> int" where
  "max_allowed_block_time cfg reference_timestamp = reference_timestamp - min_slot_boundary cfg"

definition is_block_time_valid :: "block_source_config \<Rightarrow> db_block \<Rightarrow> int \<Rightarrow> bool" where
  "is_block_time_valid cfg block timestamp \<longleftrightarrow>
     min_block_allowed_time cfg timestamp \<le> block_time block \<and>
     block_time block \<le> max_allowed_block_time cfg timestamp"

definition get_latest_block_info :: "'e block_db \<Rightarrow> ('e block_source_error + mainchain_block) exec" where
  "get_latest_block_info db =
     (case db_get_latest_block_info db of
        Inl e \<Rightarrow> Ret (Inl e)
      | Inr None \<Rightarrow> Ret (Inl ExpectedDataNotFound)
      | Inr (Some b) \<Rightarrow> exec_map Inr (mainchain_block_of b))"

definition get_latest_block ::
  "block_source_config \<Rightarrow> 'e block_db \<Rightarrow> u32 \<Rightarrow> int \<Rightarrow> ('s, 'e block_source_error, db_block option) io" where
  "get_latest_block cfg db max_block reference_timestamp =
     (let min_time = min_block_allowed_time cfg reference_timestamp in
      io_bind (io_lift (date_time_to_slot cfg min_time)) (\<lambda>min_slot.
      let max_time = max_allowed_block_time cfg reference_timestamp in
      io_bind (io_lift (date_time_to_slot cfg max_time)) (\<lambda>max_slot.
      io_lift (Ret (db_get_highest_block db max_block min_time min_slot max_time max_slot)))))"

text \<open>\<open>block_opt.map(From::from)\<close>.\<close>

definition io_some_block :: "db_block option \<Rightarrow> ('s, 'e, mainchain_block option) io" where
  "io_some_block r = io_lift (case r of None \<Rightarrow> Ret (Inr None) | Some b \<Rightarrow> exec_map (\<lambda>x. Inr (Some x)) (mainchain_block_of b))"

definition get_latest_stable_block_for ::
  "block_source_config \<Rightarrow> 'e block_db \<Rightarrow> u64 \<Rightarrow> ('s, 'e block_source_error, mainchain_block option) io" where
  "get_latest_stable_block_for cfg db reference_timestamp =
     io_bind (io_lift (Ret (timestamp_to_db_type cfg reference_timestamp))) (\<lambda>reference_timestamp.
     io_bind (io_lift (get_latest_block_info db)) (\<lambda>latest.
     let offset = security_parameter cfg + block_stability_margin cfg;
         stable = saturating_sub (mb_number latest) offset in
     io_bind (get_latest_block cfg db stable reference_timestamp) io_some_block))"

definition get_stable_block_by_hash_from_cache ::
  "block_source_config \<Rightarrow> bytes \<Rightarrow> int \<Rightarrow> blocks_cache \<Rightarrow> db_block option" where
  "get_stable_block_by_hash_from_cache cfg hash reference_timestamp cache =
     (case find_by_hash cache hash of
        None \<Rightarrow> None
      | Some block \<Rightarrow> if is_block_time_valid cfg block reference_timestamp then Some block else None)"

definition get_stable_block_by_hash_from_db ::
  "block_source_config \<Rightarrow> 'e block_db \<Rightarrow> bytes \<Rightarrow> int \<Rightarrow> 'e block_source_error + db_block option" where
  "get_stable_block_by_hash_from_db cfg db hash reference_timestamp =
     try_bind (db_get_block_by_hash db hash) (\<lambda>block.
     try_bind (db_get_latest_block_info db) (\<lambda>latest_block.
       Inr (case (block, latest_block) of
              (Some block, Some latest_block) \<Rightarrow>
                if saturating_add (block_no block) (security_parameter cfg) \<le> block_no latest_block \<and>
                   is_block_time_valid cfg block reference_timestamp
                then Some block else None
            | _ \<Rightarrow> None)))"

definition bs_fill_cache ::
  "block_source_config \<Rightarrow> 'e block_db \<Rightarrow> db_block \<Rightarrow> (blocks_cache, 'e block_source_error, unit) io" where
  "bs_fill_cache cfg db from_block cache =
     (case try_bind (db_get_latest_block_info db) (\<lambda>r. ok_or r InternalDataSourceError) of
        Inl e \<Rightarrow> (Ret (Inl e), cache)
      | Inr latest_block \<Rightarrow>
          let from_block_no = block_no from_block;
              size = ucast (blocks_cache_size cfg);
              stable_block_num = saturating_sub (block_no latest_block) (security_parameter cfg);
              to_block_no = min (saturating_add from_block_no size) stable_block_num
          in case (if to_block_no > from_block_no then db_get_blocks_by_numbers db from_block_no to_block_no
                   else Inr [from_block]) of
               Inl e \<Rightarrow> (Ret (Inl e), cache)
             | Inr blocks \<Rightarrow> (Ret (Inr ()), blocks))"

definition get_stable_block_by_hash ::
  "block_source_config \<Rightarrow> 'e block_db \<Rightarrow> bytes \<Rightarrow> int \<Rightarrow>
   (blocks_cache, 'e block_source_error, mainchain_block option) io" where
  "get_stable_block_by_hash cfg db hash reference_timestamp cache =
     (case get_stable_block_by_hash_from_cache cfg hash reference_timestamp cache of
        Some block \<Rightarrow> io_some_block (Some block) cache
      | None \<Rightarrow>
          io_bind (io_lift (Ret (get_stable_block_by_hash_from_db cfg db hash reference_timestamp))) (\<lambda>r.
            case r of
              Some block_by_hash \<Rightarrow> io_bind (bs_fill_cache cfg db block_by_hash) (\<lambda>_. io_some_block (Some block_by_hash))
            | None \<Rightarrow> io_some_block None) cache)"

definition get_stable_block_for ::
  "block_source_config \<Rightarrow> 'e block_db \<Rightarrow> bytes \<Rightarrow> u64 \<Rightarrow>
   (blocks_cache, 'e block_source_error, mainchain_block option) io" where
  "get_stable_block_for cfg db hash reference_timestamp =
     io_bind (io_lift (Ret (timestamp_to_db_type cfg reference_timestamp))) (\<lambda>reference_timestamp.
       get_stable_block_by_hash cfg db hash reference_timestamp)"

definition bs_get_block_by_hash ::
  "'e block_db \<Rightarrow> bytes \<Rightarrow> (blocks_cache, 'e block_source_error, mainchain_block option) io" where
  "bs_get_block_by_hash db hash cache =
     (case find_by_hash cache hash of
        Some block \<Rightarrow> io_some_block (Some block) cache
      | None \<Rightarrow> io_bind (io_lift (Ret (db_get_block_by_hash db hash))) io_some_block cache)"

section \<open>The main chain\<close>

text \<open>Block numbers are below \<open>2^31\<close>, as \<open>McBlockNumber\<close> documents.\<close>

definition chain_ok :: "db_block list \<Rightarrow> bool" where
  "chain_ok rows \<longleftrightarrow> rows \<noteq> [] \<and> distinct (map block_hash rows) \<and>
     sorted_wrt (\<lambda>a b. block_no a < block_no b \<and> block_time a \<le> block_time b) rows \<and>
     (\<forall>b \<in> set rows. 0 \<le> block_time b \<and> unat (block_no b) < 2 ^ 31)"

definition stable_in :: "u32 \<Rightarrow> db_block list \<Rightarrow> db_block \<Rightarrow> bool" where
  "stable_in k rows b \<longleftrightarrow> b \<in> set rows \<and> unat (block_no b) + unat k \<le> unat (block_no (last rows))"

text \<open>A later or better informed view of the main chain: it has the stable blocks and a tip that is not lower.\<close>

definition extends_view :: "u32 \<Rightarrow> db_block list \<Rightarrow> db_block list \<Rightarrow> bool" where
  "extends_view k rows rows' \<longleftrightarrow> (\<forall>b. stable_in k rows b \<longrightarrow> stable_in k rows' b)"

definition to_mainchain_block :: "db_block \<Rightarrow> mainchain_block" where
  "to_mainchain_block b = \<lparr>mb_number = block_no b, mb_hash = block_hash b, mb_epoch = block_epoch_no b,
     mb_slot = block_slot_no b, mb_timestamp = word_of_int (block_time b div 1000)\<rparr>"

lemma to_mainchain_block_simps [simp]:
  "mb_number (to_mainchain_block b) = block_no b" "mb_hash (to_mainchain_block b) = block_hash b"
  by (simp_all add: to_mainchain_block_def)

lemma mainchain_block_of_Ret: "0 \<le> block_time b \<Longrightarrow> mainchain_block_of b = Ret (to_mainchain_block b)"
  by (simp add: mainchain_block_of_def to_mainchain_block_def)

lemma highest_in: "highest bs = Some b \<Longrightarrow> b \<in> set bs"
  by (induction bs arbitrary: b) (auto split: option.splits if_splits)

lemma highest_sorted:
  "sorted_wrt (\<lambda>a b. block_no a < block_no b \<and> block_time a \<le> block_time b) bs \<Longrightarrow> bs \<noteq> [] \<Longrightarrow>
    highest bs = Some (last bs)"
proof (induction bs)
  case (Cons b bs)
  show ?case
  proof (cases bs)
    case (Cons c cs)
    then have "last bs \<in> set bs" by simp
    then have "block_no b < block_no (last bs)" using Cons.prems by auto
    then show ?thesis using Cons.IH Cons.prems Cons by simp
  qed simp
qed simp

lemma chain_highest: "chain_ok rows \<Longrightarrow> highest rows = Some (last rows)"
  by (rule highest_sorted) (simp_all add: chain_ok_def)

lemma chain_find_hash: "chain_ok rows \<Longrightarrow> b \<in> set rows \<Longrightarrow> find (\<lambda>x. block_hash x = block_hash b) rows = Some b"
proof -
  have "distinct (map block_hash bs) \<Longrightarrow> b \<in> set bs \<Longrightarrow> find (\<lambda>x. block_hash x = block_hash b) bs = Some b" for bs
    by (induction bs) force+
  then show "chain_ok rows \<Longrightarrow> b \<in> set rows \<Longrightarrow> find (\<lambda>x. block_hash x = block_hash b) rows = Some b"
    by (simp add: chain_ok_def)
qed

lemma chain_time_mono:
  assumes "chain_ok rows" "a \<in> set rows" "b \<in> set rows" "block_no a \<le> block_no b"
  shows "block_time a \<le> block_time b"
proof -
  have "sorted_wrt (\<lambda>a b. block_no a < block_no b \<and> block_time a \<le> block_time b) bs \<Longrightarrow>
      a \<in> set bs \<Longrightarrow> b \<in> set bs \<Longrightarrow> block_time a \<le> block_time b" for bs
    by (induction bs) (use assms(4) in force)+
  moreover have "sorted_wrt (\<lambda>a b. block_no a < block_no b \<and> block_time a \<le> block_time b) rows"
    using assms(1) by (simp add: chain_ok_def)
  ultimately show ?thesis using assms(2,3) by blast
qed

lemma find_Some_hash: "find (\<lambda>b. block_hash b = h) bs = Some b \<Longrightarrow> b \<in> set bs \<and> block_hash b = h"
  by (auto simp: find_Some_iff)

lemma chain_saturating_add:
  assumes "chain_ok rows" "b \<in> set rows"
  shows "saturating_add (block_no b) k \<le> block_no (last rows) \<longleftrightarrow> stable_in k rows b"
proof -
  have "unat (block_no (last rows)) < 2 ^ 31" using assms(1) by (simp add: chain_ok_def)
  then show ?thesis
    using assms(2) by (auto simp: word_le_nat_alt unat_saturating_add stable_in_def min_def split: if_splits)
qed

section \<open>References\<close>

text \<open>A block that may be referenced at a time: it is stable and its time is in the allowed range.\<close>

definition reference_ok :: "block_source_config \<Rightarrow> db_block list \<Rightarrow> mainchain_block \<Rightarrow> u64 \<Rightarrow> bool" where
  "reference_ok cfg rows B ts \<longleftrightarrow>
     (\<exists>b. stable_in (security_parameter cfg) rows b \<and> is_block_time_valid cfg b (uint ts) \<and> B = to_mainchain_block b)"

definition known_block :: "db_block list \<Rightarrow> bytes \<Rightarrow> mainchain_block option" where
  "known_block rows h = map_option to_mainchain_block (find (\<lambda>b. block_hash b = h) rows)"

definition blocks_cache_ok :: "block_source_config \<Rightarrow> db_block list \<Rightarrow> blocks_cache \<Rightarrow> bool" where
  "blocks_cache_ok cfg rows cache \<longleftrightarrow> (\<forall>b \<in> set cache. stable_in (security_parameter cfg) rows b)"

text \<open>A cache stays right when the view of the main chain grows.\<close>

lemma blocks_cache_ok_extends:
  "blocks_cache_ok cfg rows cache \<Longrightarrow> extends_view (security_parameter cfg) rows rows' \<Longrightarrow> blocks_cache_ok cfg rows' cache"
  by (auto simp: blocks_cache_ok_def extends_view_def)

lemma reference_ok_extends:
  "reference_ok cfg rows B ts \<Longrightarrow> extends_view (security_parameter cfg) rows rows' \<Longrightarrow> reference_ok cfg rows' B ts"
  by (auto simp: reference_ok_def extends_view_def)

lemma reference_known: "chain_ok rows \<Longrightarrow> reference_ok cfg rows B ts \<Longrightarrow> known_block rows (mb_hash B) = Some B"
  by (auto simp: reference_ok_def known_block_def stable_in_def chain_find_hash)

lemma reference_between:
  assumes "chain_ok rows" "reference_ok cfg rows B ts" "reference_ok cfg rows P pts" "mb_number B \<le> mb_number P" "pts \<le> ts"
  shows "reference_ok cfg rows P ts"
proof -
  from assms(2,3) obtain b p where b: "stable_in (security_parameter cfg) rows b" "is_block_time_valid cfg b (uint ts)"
      "B = to_mainchain_block b"
    and p: "stable_in (security_parameter cfg) rows p" "is_block_time_valid cfg p (uint pts)" "P = to_mainchain_block p"
    by (auto simp: reference_ok_def)
  have "block_time b \<le> block_time p"
    using assms(4) b p by (intro chain_time_mono [OF assms(1)]) (auto simp: stable_in_def)
  moreover have "uint pts \<le> uint ts" using assms(5) by (simp add: word_le_def)
  ultimately have "is_block_time_valid cfg p (uint ts)"
    using b(2) p(2) by (auto simp: is_block_time_valid_def min_block_allowed_time_def max_allowed_block_time_def)
  then show ?thesis using p by (auto simp: reference_ok_def)
qed

section \<open>What the data source answers\<close>

text \<open>A time the date type can represent.\<close>

definition time_ok :: "block_source_config \<Rightarrow> u64 \<Rightarrow> bool" where
  "time_ok cfg ts \<longleftrightarrow> ts < 0x8000000000000000 \<and> date_time_in_range cfg (uint ts)"

definition stable_lookup :: "block_source_config \<Rightarrow> db_block list \<Rightarrow> bytes \<Rightarrow> u64 \<Rightarrow> mainchain_block option" where
  "stable_lookup cfg rows h ts =
     (case known_block rows h of
        None \<Rightarrow> None
      | Some B \<Rightarrow> if reference_ok cfg rows B ts then Some B else None)"

lemma reference_ok_iff:
  assumes "chain_ok rows" "b \<in> set rows"
  shows "reference_ok cfg rows (to_mainchain_block b) ts \<longleftrightarrow>
    stable_in (security_parameter cfg) rows b \<and> is_block_time_valid cfg b (uint ts)"
proof
  assume "reference_ok cfg rows (to_mainchain_block b) ts"
  then obtain c where c: "stable_in (security_parameter cfg) rows c" "is_block_time_valid cfg c (uint ts)"
      "to_mainchain_block b = to_mainchain_block c" by (auto simp: reference_ok_def)
  have "block_hash b = block_hash c" using c(3) by (metis to_mainchain_block_simps(2))
  then have "b = c"
    using chain_find_hash [OF assms(1)] c(1) assms(2) by (metis stable_in_def option.inject)
  then show "stable_in (security_parameter cfg) rows b \<and> is_block_time_valid cfg b (uint ts)" using c by simp
qed (auto simp: reference_ok_def)

lemma io_some_block_chain:
  "chain_ok rows \<Longrightarrow> b \<in> set rows \<Longrightarrow> io_some_block (Some b) s = (Ret (Inr (Some (to_mainchain_block b))), s)"
  by (simp add: io_some_block_def io_lift_def mainchain_block_of_Ret chain_ok_def)

lemma from_db_eq:
  assumes "chain_ok rows"
  shows "get_stable_block_by_hash_from_db cfg (Inr rows) h (uint ts) =
    Inr (case find (\<lambda>b. block_hash b = h) rows of
           None \<Rightarrow> None
         | Some b \<Rightarrow> if reference_ok cfg rows (to_mainchain_block b) ts then Some b else None)"
proof (cases "find (\<lambda>b. block_hash b = h) rows")
  case None
  then show ?thesis
    by (simp add: get_stable_block_by_hash_from_db_def db_get_block_by_hash_def db_get_latest_block_info_def)
next
  case (Some b)
  then have "b \<in> set rows" by (auto dest: find_Some_hash)
  then show ?thesis
    using Some assms
    by (simp add: get_stable_block_by_hash_from_db_def db_get_block_by_hash_def db_get_latest_block_info_def
        chain_highest chain_saturating_add reference_ok_iff)
qed

lemma bs_fill_cache_ok:
  assumes "chain_ok rows" "stable_in (security_parameter cfg) rows b"
  shows "\<exists>cache'. bs_fill_cache cfg (Inr rows) b cache = (Ret (Inr ()), cache') \<and> blocks_cache_ok cfg rows cache'"
proof -
  let ?k = "security_parameter cfg"
  let ?to = "min (saturating_add (block_no b) (ucast (blocks_cache_size cfg))) (saturating_sub (block_no (last rows)) ?k)"
  have k: "?k \<le> block_no (last rows)" using assms(2) by (simp add: stable_in_def word_le_nat_alt)
  have "stable_in ?k rows c" if "c \<in> set rows" "block_no c \<le> ?to" for c
  proof -
    have "block_no c \<le> block_no (last rows) - ?k" using that(2) k by (simp add: saturating_sub_def)
    then have "unat (block_no c) \<le> unat (block_no (last rows)) - unat ?k"
      using k by (simp add: word_le_nat_alt unat_sub_le)
    then show ?thesis using that(1) k by (simp add: stable_in_def word_le_nat_alt)
  qed
  then show ?thesis
    using assms by (auto simp: bs_fill_cache_def db_get_latest_block_info_def db_get_blocks_by_numbers_def chain_highest
        Let_def blocks_cache_ok_def)
qed

lemma stable_block_by_hash_answer:
  assumes chain: "chain_ok rows" and cache: "blocks_cache_ok cfg rows cache"
  shows "\<exists>cache'. get_stable_block_by_hash cfg (Inr rows :: 'e block_db) h (uint ts) cache = (Ret (Inr (stable_lookup cfg rows h ts)), cache') \<and>
    blocks_cache_ok cfg rows cache'"
proof (cases "get_stable_block_by_hash_from_cache cfg h (uint ts) cache")
  case (Some b)
  then have "b \<in> set cache" "block_hash b = h" "is_block_time_valid cfg b (uint ts)"
    by (auto simp: get_stable_block_by_hash_from_cache_def find_by_hash_def dest: find_Some_hash split: option.splits if_splits)
  then have b: "b \<in> set rows" "reference_ok cfg rows (to_mainchain_block b) ts" "find (\<lambda>x. block_hash x = h) rows = Some b"
    using cache chain_find_hash [OF chain, of b] by (auto simp: blocks_cache_ok_def stable_in_def reference_ok_def)
  then show ?thesis
    using Some cache by (simp add: get_stable_block_by_hash_def io_some_block_chain [OF chain] stable_lookup_def known_block_def)
next
  case None
  show ?thesis
  proof (cases "stable_lookup cfg rows h ts")
    case lookup: None
    then have "get_stable_block_by_hash_from_db cfg (Inr rows :: 'e block_db) h (uint ts) = Inr None"
      unfolding from_db_eq [OF chain] by (auto simp: stable_lookup_def known_block_def split: option.splits if_splits)
    then show ?thesis
      using None cache lookup by (simp add: get_stable_block_by_hash_def io_bind_def io_lift_def io_some_block_def)
  next
    case lookup: (Some B)
    then obtain b where b: "find (\<lambda>b. block_hash b = h) rows = Some b" "B = to_mainchain_block b"
        "reference_ok cfg rows (to_mainchain_block b) ts"
      by (auto simp: stable_lookup_def known_block_def split: option.splits if_splits)
    have rows: "b \<in> set rows" using find_Some_hash [OF b(1)] by simp
    then obtain cache' where "bs_fill_cache cfg (Inr rows :: 'e block_db) b cache = (Ret (Inr ()), cache')" "blocks_cache_ok cfg rows cache'"
      using bs_fill_cache_ok [OF chain, of cfg b cache] b(3) reference_ok_iff [OF chain rows] by blast
    moreover have "get_stable_block_by_hash_from_db cfg (Inr rows :: 'e block_db) h (uint ts) = Inr (Some b)"
      unfolding from_db_eq [OF chain] using b by simp
    ultimately show ?thesis
      using None lookup b(2) by (simp add: get_stable_block_by_hash_def io_bind_def io_lift_def [of "Ret (Inr (Some b))"]
          io_some_block_chain [OF chain rows])
  qed
qed

text \<open>The cache does not show in the answers: a stable block is found by its hash exactly when it may be
  referenced at the time.\<close>

lemma stable_block_for_answer:
  assumes "chain_ok rows" "blocks_cache_ok cfg rows cache" "time_ok cfg ts"
  shows "\<exists>cache'. get_stable_block_for cfg (Inr rows) h ts cache = (Ret (Inr (stable_lookup cfg rows h ts)), cache') \<and>
    blocks_cache_ok cfg rows cache'"
  using stable_block_by_hash_answer [OF assms(1,2)] assms(3)
  by (simp add: get_stable_block_for_def timestamp_to_db_type_def time_ok_def io_bind_def io_lift_def)

lemma block_by_hash_answer:
  assumes "chain_ok rows" "blocks_cache_ok cfg rows cache"
  shows "bs_get_block_by_hash (Inr rows :: 'e block_db) h cache = (Ret (Inr (known_block rows h)), cache)"
proof (cases "find_by_hash cache h")
  case (Some b)
  then have b: "b \<in> set rows" "block_hash b = h"
    using assms(2) by (auto simp: find_by_hash_def blocks_cache_ok_def stable_in_def dest: find_Some_hash)
  then show ?thesis
    using Some chain_find_hash [OF assms(1)] by (auto simp: bs_get_block_by_hash_def io_some_block_chain [OF assms(1)] known_block_def)
next
  case None
  show ?thesis
  proof (cases "find (\<lambda>b. block_hash b = h) rows")
    case (Some b)
    then have "b \<in> set rows" by (auto dest: find_Some_hash)
    then show ?thesis
      using None Some by (simp add: bs_get_block_by_hash_def db_get_block_by_hash_def io_bind_def io_lift_def [of "Ret (Inr (Some b))"]
          io_some_block_chain [OF assms(1)] known_block_def)
  qed (simp add: None bs_get_block_by_hash_def db_get_block_by_hash_def io_bind_def io_lift_def io_some_block_def known_block_def)
qed

text \<open>The latest stable block may be referenced, once the main chain is longer than the offset.\<close>

lemma latest_stable_block_ok:
  assumes "get_latest_stable_block_for cfg (Inr rows) ts s = (Ret (Inr (Some B)), s')" and chain: "chain_ok rows"
    and long: "unat (security_parameter cfg) + unat (block_stability_margin cfg) \<le> unat (block_no (last rows))"
  shows "reference_ok cfg rows B ts \<and> s' = s"
proof -
  let ?k = "security_parameter cfg" and ?m = "block_stability_margin cfg"
  have last: "last rows \<in> set rows" using chain by (simp add: chain_ok_def)
  have tip: "unat (block_no (last rows)) < 2 ^ 31" using chain by (simp add: chain_ok_def)
  have off: "unat (?k + ?m) = unat ?k + unat ?m" using long tip by (intro unat_add_no_overflow) simp
  then have "?k + ?m \<le> block_no (last rows)" using long by (simp add: word_le_nat_alt)
  then have stable: "unat (saturating_sub (block_no (last rows)) (?k + ?m)) = unat (block_no (last rows)) - (unat ?k + unat ?m)"
    by (simp add: saturating_sub_def unat_sub_le off)
  have latest: "get_latest_block_info (Inr rows) = Ret (Inr (to_mainchain_block (last rows)))"
    using chain last by (simp add: get_latest_block_info_def db_get_latest_block_info_def chain_highest mainchain_block_of_Ret chain_ok_def)
  from assms(1) obtain b lo hi where
    b: "highest (filter (\<lambda>b. block_no b \<le> saturating_sub (block_no (last rows)) (?k + ?m) \<and> lo \<le> block_slot_no b \<and>
         block_slot_no b \<le> hi \<and> min_block_allowed_time cfg (uint ts) \<le> block_time b \<and>
         block_time b \<le> max_allowed_block_time cfg (uint ts)) rows) = Some b"
    and B: "io_some_block (Some b) s = (Ret (Inr (Some B)), s')"
    by (auto simp: get_latest_stable_block_for_def run_simps latest Let_def get_latest_block_def db_get_highest_block_def
        timestamp_to_db_type_def io_some_block_def split: if_splits option.splits)
  have mem: "b \<in> set rows" "unat (block_no b) \<le> unat (block_no (last rows)) - (unat ?k + unat ?m)"
      "is_block_time_valid cfg b (uint ts)"
    using highest_in [OF b] stable by (auto simp: is_block_time_valid_def word_le_nat_alt)
  have "stable_in ?k rows b" using mem long by (simp add: stable_in_def)
  then show ?thesis using mem B by (auto simp: io_some_block_chain [OF chain] reference_ok_def)
qed

end
