(* ===== verification/Mc_Hash.thy ===== *)
theory Mc_Hash
  imports Block_Source Inherents
begin

text \<open>
  The main chain reference of a block, \<open>toolkit/sidechain/sidechain-mc-hash/src/lib.rs\<close>: an author puts the
  hash of the latest stable main chain block into the header, a verifier checks the hash in the header
  of an imported block. Both read the reference of the parent block from its header.

  The locale \<open>mc_hash_source\<close> is the contract of the trait \<open>McHashDataSource\<close>; the Db-Sync data source of
  \<open>Block_Source\<close>, through \<open>data-sources/db-sync/src/mc_hash/mod.rs\<close>, meets it.
\<close>

section \<open>Digest\<close>

datatype digest_item = PreRuntime bytes bytes | OtherDigest bytes

definition MC_HASH_DIGEST_ID :: bytes where
  "MC_HASH_DIGEST_ID = [109, 99, 115, 104]"

datatype digest_error = InvalidMcHash bytes | McHashMissing | McHashDataMissing | McHashDataInvalid

definition from_mc_block_hash :: "bytes \<Rightarrow> digest_item list" where
  "from_mc_block_hash mc_block_hash = [PreRuntime MC_HASH_DIGEST_ID mc_block_hash]"

definition from_inherent_data :: "bytes inherent_data \<Rightarrow> digest_error + digest_item list" where
  "from_inherent_data data =
     (case data of
        Inl _ \<Rightarrow> Inl McHashDataInvalid
      | Inr None \<Rightarrow> Inl McHashDataMissing
      | Inr (Some mc_hash) \<Rightarrow> Inr (from_mc_block_hash mc_hash))"

fun value_from_digest :: "digest_item list \<Rightarrow> digest_error + bytes" where
  "value_from_digest [] = Inl McHashMissing"
| "value_from_digest (PreRuntime engine_id data # digest) =
     (if engine_id = MC_HASH_DIGEST_ID then if length data = 32 then Inr data else Inl (InvalidMcHash data)
      else value_from_digest digest)"
| "value_from_digest (OtherDigest _ # digest) = value_from_digest digest"

record header =
  hd_number :: u32
  hd_digest :: "digest_item list"

definition get_inherent_digest_value_for_block ::
  "('hash \<Rightarrow> 'e + header option) \<Rightarrow> 'hash \<Rightarrow> ('e option \<times> digest_error option) + bytes option" where
  "get_inherent_digest_value_for_block client_header hash =
     try_bind (map_err (\<lambda>e. (Some e, None)) (client_header hash)) (\<lambda>r.
     try_bind (ok_or r (None, None)) (\<lambda>header.
       if hd_number header = 0 then Inr None
       else map_err (\<lambda>e. (None, Some e)) (try_bind (value_from_digest (hd_digest header)) (\<lambda>v. Inr (Some v)))))"

section \<open>Inherent data provider\<close>

record mc_hash_idp =
  idp_mc_block :: mainchain_block
  idp_previous_mc_block :: "mainchain_block option"

datatype 'e mc_hash_error =
    McDataSourceError 'e
  | StableBlockNotFound u64
  | McStateReferenceInvalid bytes u64
  | McStateReferenceRegressed bytes u64 u32 u32
  | DigestError digest_error
  | StableBlockNotFoundByHash bytes

record ('s, 'e) mc_source =
  src_latest_stable_block_for :: "u64 \<Rightarrow> ('s, 'e, mainchain_block option) io"
  src_stable_block_for :: "bytes \<Rightarrow> u64 \<Rightarrow> ('s, 'e, mainchain_block option) io"
  src_block_by_hash :: "bytes \<Rightarrow> ('s, 'e, mainchain_block option) io"

definition new_proposal :: "('s, 'e) mc_source \<Rightarrow> header \<Rightarrow> u64 \<Rightarrow> ('s, 'e mc_hash_error, mc_hash_idp) io" where
  "new_proposal src parent_header timestamp =
     io_bind (io_map_err McDataSourceError (src_latest_stable_block_for src timestamp)) (\<lambda>r.
     io_bind (io_lift (Ret (ok_or r (StableBlockNotFound timestamp)))) (\<lambda>mc_block.
     case ok (value_from_digest (hd_digest parent_header)) of
       Some parent_mc_hash \<Rightarrow>
         io_bind (io_map_err McDataSourceError (src_block_by_hash src parent_mc_hash)) (\<lambda>r.
         io_bind (io_lift (Ret (ok_or r (StableBlockNotFoundByHash parent_mc_hash)))) (\<lambda>parent_stable_mc_block.
           io_lift (Ret (Inr
             (if mb_number mc_block \<ge> mb_number parent_stable_mc_block
              then \<lparr>idp_mc_block = mc_block, idp_previous_mc_block = Some parent_stable_mc_block\<rparr>
              else \<lparr>idp_mc_block = parent_stable_mc_block, idp_previous_mc_block = Some parent_stable_mc_block\<rparr>)))))
     | None \<Rightarrow> io_lift (Ret (Inr \<lparr>idp_mc_block = mc_block, idp_previous_mc_block = None\<rparr>))))"

definition get_mc_state_reference ::
  "('s, 'e) mc_source \<Rightarrow> u64 \<Rightarrow> bytes \<Rightarrow> ('s, 'e mc_hash_error, mainchain_block) io" where
  "get_mc_state_reference src timestamp verified_block_mc_hash =
     io_bind (io_map_err McDataSourceError (src_stable_block_for src verified_block_mc_hash timestamp)) (\<lambda>r.
       io_lift (Ret (ok_or r (McStateReferenceInvalid verified_block_mc_hash timestamp))))"

definition new_verification ::
  "('s, 'e) mc_source \<Rightarrow> header \<Rightarrow> u64 option \<Rightarrow> u64 \<Rightarrow> bytes \<Rightarrow> ('s, 'e mc_hash_error, mc_hash_idp) io" where
  "new_verification src parent_header parent_timestamp timestamp mc_state_reference_hash =
     io_bind (get_mc_state_reference src timestamp mc_state_reference_hash) (\<lambda>mc_state_reference_block.
     case parent_timestamp of
       None \<Rightarrow> io_lift (Ret (Inr \<lparr>idp_mc_block = mc_state_reference_block, idp_previous_mc_block = None\<rparr>))
     | Some parent_timestamp \<Rightarrow>
         io_bind (io_lift (Ret (map_err DigestError (value_from_digest (hd_digest parent_header))))) (\<lambda>parent_mc_hash.
         io_bind (get_mc_state_reference src parent_timestamp parent_mc_hash) (\<lambda>parent_mc_state_reference_block.
           io_lift (Ret
             (if mb_number mc_state_reference_block < mb_number parent_mc_state_reference_block
              then Inl (McStateReferenceRegressed mc_state_reference_hash timestamp
                (mb_number mc_state_reference_block) (mb_number parent_mc_state_reference_block))
              else Inr \<lparr>idp_mc_block = mc_state_reference_block,
                idp_previous_mc_block = Some parent_mc_state_reference_block\<rparr>)))))"

definition mc_hash_of :: "mc_hash_idp \<Rightarrow> bytes" where
  "mc_hash_of idp = mb_hash (idp_mc_block idp)"

definition previous_mc_hash :: "mc_hash_idp \<Rightarrow> bytes option" where
  "previous_mc_hash idp = map_option mb_hash (idp_previous_mc_block idp)"

definition mc_epoch_of :: "mc_hash_idp \<Rightarrow> mc_epoch_number" where
  "mc_epoch_of idp = mb_epoch (idp_mc_block idp)"

definition mc_provide_inherent_data :: "mc_hash_idp \<Rightarrow> bytes inherent_data" where
  "mc_provide_inherent_data idp = Inr (Some (mb_hash (idp_mc_block idp)))"

text \<open>\<open>PartnerChainsProposer::propose\<close> of \<open>substrate-extensions/aura/primitives/src/block_proposal.rs\<close>: the logs
  the wrapped proposer is called with.\<close>

definition propose_logs :: "bytes inherent_data \<Rightarrow> digest_item list \<Rightarrow> digest_item list exec" where
  "propose_logs inherent_data logs =
     (case from_inherent_data inherent_data of Inl _ \<Rightarrow> Panic | Inr inherent_logs \<Rightarrow> Ret (logs @ inherent_logs))"

text \<open>The Db-Sync data source.\<close>

definition db_sync_mc_source :: "block_source_config \<Rightarrow> 'e block_db \<Rightarrow> (blocks_cache, 'e block_source_error) mc_source" where
  "db_sync_mc_source cfg db = \<lparr>src_latest_stable_block_for = get_latest_stable_block_for cfg db,
     src_stable_block_for = get_stable_block_for cfg db, src_block_by_hash = bs_get_block_by_hash db\<rparr>"

section \<open>Digest round trip\<close>

lemma value_from_digest_append:
  "value_from_digest logs = Inl McHashMissing \<Longrightarrow> value_from_digest (logs @ logs') = value_from_digest logs'"
  by (induction logs rule: value_from_digest.induct) (auto split: if_splits)

text \<open>The reference an author proposes is the one a verifier reads from the header.\<close>

lemma proposed_reference_read:
  assumes "propose_logs (mc_provide_inherent_data idp) logs = Ret logs'" and "value_from_digest logs = Inl McHashMissing"
    and "length (mc_hash_of idp) = 32"
  shows "value_from_digest logs' = Inr (mc_hash_of idp)"
  using assms by (auto simp: propose_logs_def mc_provide_inherent_data_def from_inherent_data_def from_mc_block_hash_def
      mc_hash_of_def value_from_digest_append)

section \<open>Contract of the data source\<close>

locale mc_hash_source =
  fixes src :: "('s, 'e) mc_source"
    and block :: "bytes \<Rightarrow> mainchain_block option"
    and ref_ok :: "mainchain_block \<Rightarrow> u64 \<Rightarrow> bool"
    and time_ok :: "u64 \<Rightarrow> bool"
    and src_ok :: "'s \<Rightarrow> bool"
  assumes latest_ok: "src_ok s \<Longrightarrow> src_latest_stable_block_for src ts s = (Ret (Inr (Some B)), s') \<Longrightarrow>
      ref_ok B ts \<and> src_ok s'"
    and stable_answer: "src_ok s \<Longrightarrow> time_ok ts \<Longrightarrow> \<exists>s'. src_ok s' \<and> src_stable_block_for src h ts s =
      (Ret (Inr (case block h of None \<Rightarrow> None | Some B \<Rightarrow> if ref_ok B ts then Some B else None)), s')"
    and by_hash_answer: "src_ok s \<Longrightarrow> \<exists>s'. src_ok s' \<and> src_block_by_hash src h s = (Ret (Inr (block h)), s')"
    and ref_known: "src_ok s \<Longrightarrow> ref_ok B ts \<Longrightarrow> block (mb_hash B) = Some B"
    and ref_between: "src_ok s \<Longrightarrow> ref_ok B ts \<Longrightarrow> ref_ok P pts \<Longrightarrow> mb_number B \<le> mb_number P \<Longrightarrow> pts \<le> ts \<Longrightarrow> ref_ok P ts"
begin

lemma state_reference:
  assumes "src_ok s" "time_ok ts"
  shows "\<exists>s'. src_ok s' \<and> get_mc_state_reference src ts h s = (Ret
    (case block h of
       None \<Rightarrow> Inl (McStateReferenceInvalid h ts)
     | Some B \<Rightarrow> if ref_ok B ts then Inr B else Inl (McStateReferenceInvalid h ts)), s')"
  using stable_answer [OF assms, of h]
  by (auto simp: get_mc_state_reference_def io_map_err_def io_bind_def io_lift_def split: option.splits if_splits)

text \<open>A proposal refers to a block that may be referenced now and is not older than the parent's reference,
  given that the parent's reference was good in its time.\<close>

lemma proposal_ok:
  assumes "src_ok s" and "new_proposal src parent ts s = (Ret (Inr idp), s')"
    and "\<And>h. value_from_digest (hd_digest parent) = Inr h \<Longrightarrow> \<exists>P. block h = Some P \<and> ref_ok P pts" and "pts \<le> ts"
  shows "ref_ok (idp_mc_block idp) ts \<and> src_ok s' \<and>
    (case value_from_digest (hd_digest parent) of
       Inl e \<Rightarrow> idp_previous_mc_block idp = None
     | Inr h \<Rightarrow> \<exists>P. block h = Some P \<and> idp_previous_mc_block idp = Some P \<and> mb_number P \<le> mb_number (idp_mc_block idp))"
proof -
  from assms(2) obtain B s1 where B: "src_latest_stable_block_for src ts s = (Ret (Inr (Some B)), s1)"
    by (auto simp: new_proposal_def run_simps)
  have ref: "ref_ok B ts" and s1: "src_ok s1" using latest_ok [OF assms(1) B] by simp_all
  show ?thesis
  proof (cases "value_from_digest (hd_digest parent)")
    case (Inl e)
    then show ?thesis using assms(2) B ref s1 by (auto simp: new_proposal_def run_simps)
  next
    case (Inr h)
    then obtain P where P: "block h = Some P" "ref_ok P pts" using assms(3) by blast
    obtain s2 where s2: "src_ok s2" "src_block_by_hash src h s1 = (Ret (Inr (Some P)), s2)"
      using by_hash_answer [OF s1, of h] P(1) by auto
    have "ref_ok P ts" if "mb_number B \<le> mb_number P" using ref_between [OF s1 ref P(2) that assms(4)] .
    then show ?thesis
      using assms(2) B ref s2 P(1) Inr
      by (auto simp: new_proposal_def run_simps not_le split: if_splits intro: less_imp_le)
  qed
qed

text \<open>Verification accepts every good reference that is not older than the parent's.\<close>

lemma verification_accepts:
  assumes "src_ok s" "time_ok ts" "ref_ok B ts"
    and "case parent_ts of
           None \<Rightarrow> prev = None
         | Some pts \<Rightarrow> time_ok pts \<and> (\<exists>h P. value_from_digest (hd_digest parent) = Inr h \<and> block h = Some P \<and>
             ref_ok P pts \<and> mb_number P \<le> mb_number B \<and> prev = Some P)"
  shows "\<exists>s'. src_ok s' \<and> new_verification src parent parent_ts ts (mb_hash B) s =
    (Ret (Inr \<lparr>idp_mc_block = B, idp_previous_mc_block = prev\<rparr>), s')"
proof -
  obtain s1 where s1: "src_ok s1" "get_mc_state_reference src ts (mb_hash B) s = (Ret (Inr B), s1)"
    using state_reference [OF assms(1,2), of "mb_hash B"] ref_known [OF assms(1,3)] assms(3) by auto
  have bind: "io_bind (get_mc_state_reference src ts (mb_hash B)) f s = f B s1" for f :: "mainchain_block \<Rightarrow> ('s, 'e mc_hash_error, mc_hash_idp) io"
    using s1(2) by (simp add: io_bind_def)
  show ?thesis
  proof (cases parent_ts)
    case None
    then show ?thesis using assms(4) s1 by (auto simp: new_verification_def bind io_lift_def)
  next
    case (Some pts)
    with assms(4) obtain h P where P: "time_ok pts" "value_from_digest (hd_digest parent) = Inr h" "block h = Some P"
        "ref_ok P pts" "mb_number P \<le> mb_number B" "prev = Some P" by auto
    obtain s2 where s2: "src_ok s2" "get_mc_state_reference src pts h s1 = (Ret (Inr P), s2)"
      using state_reference [OF s1(1) P(1), of h] P(3,4) by auto
    show ?thesis
      using P(5) s2 by (auto simp: new_verification_def s1(2) Some P(2,6) io_bind_def io_lift_def not_less)
  qed
qed

text \<open>What verification accepts is a good reference, not older than the parent's.\<close>

lemma verification_sound:
  assumes "src_ok s" "time_ok ts" "new_verification src parent parent_ts ts h s = (Ret (Inr idp), s')"
  shows "block h = Some (idp_mc_block idp) \<and> ref_ok (idp_mc_block idp) ts"
    and "parent_ts = Some pts \<Longrightarrow> time_ok pts \<Longrightarrow> \<exists>ph P. value_from_digest (hd_digest parent) = Inr ph \<and>
      block ph = Some P \<and> idp_previous_mc_block idp = Some P \<and> mb_number P \<le> mb_number (idp_mc_block idp)"
proof -
  obtain s1 where s1: "src_ok s1" "get_mc_state_reference src ts h s = (Ret
    (case block h of
       None \<Rightarrow> Inl (McStateReferenceInvalid h ts)
     | Some B \<Rightarrow> if ref_ok B ts then Inr B else Inl (McStateReferenceInvalid h ts)), s1)"
    using state_reference [OF assms(1,2)] by blast
  from assms(3) s1(2) obtain B where B: "block h = Some B" "ref_ok B ts"
      "get_mc_state_reference src ts h s = (Ret (Inr B), s1)"
    by (auto simp: new_verification_def run_simps split: option.splits if_splits)
  have bind: "io_bind (get_mc_state_reference src ts h) f s = f B s1" for f :: "mainchain_block \<Rightarrow> ('s, 'e mc_hash_error, mc_hash_idp) io"
    using B(3) by (simp add: io_bind_def)
  have idp: "idp_mc_block idp = B"
    using assms(3) by (auto simp: new_verification_def bind run_simps split: option.splits if_splits)
  then show "block h = Some (idp_mc_block idp) \<and> ref_ok (idp_mc_block idp) ts" using B by simp
  assume pts: "parent_ts = Some pts" "time_ok pts"
  from assms(3) pts(1) obtain ph s2 P where
    P: "value_from_digest (hd_digest parent) = Inr ph" "get_mc_state_reference src pts ph s1 = (Ret (Inr P), s2)"
      "\<not> mb_number B < mb_number P" "idp_previous_mc_block idp = Some P"
    by (auto simp: new_verification_def bind run_simps split: if_splits)
  have "block ph = Some P"
    using state_reference [OF s1(1) pts(2), of ph] P(2) by (auto split: option.splits if_splits)
  then show "\<exists>ph P. value_from_digest (hd_digest parent) = Inr ph \<and>
      block ph = Some P \<and> idp_previous_mc_block idp = Some P \<and> mb_number P \<le> mb_number (idp_mc_block idp)"
    using P idp by (auto simp: not_less)
qed

end

text \<open>Db-Sync on a view of the main chain.\<close>

definition block_source_ok :: "block_source_config \<Rightarrow> db_block list \<Rightarrow> blocks_cache \<Rightarrow> bool" where
  "block_source_ok cfg rows cache \<longleftrightarrow> chain_ok rows \<and> blocks_cache_ok cfg rows cache \<and>
     unat (security_parameter cfg) + unat (block_stability_margin cfg) \<le> unat (block_no (last rows))"

interpretation bs: mc_hash_source "db_sync_mc_source cfg (Inr rows)" "known_block rows" "reference_ok cfg rows"
  "time_ok cfg" "block_source_ok cfg rows" for cfg rows
proof unfold_locales
  fix s ts B s' assume "block_source_ok cfg rows s"
    and "src_latest_stable_block_for (db_sync_mc_source cfg (Inr rows)) ts s = (Ret (Inr (Some B)), s')"
  then show "reference_ok cfg rows B ts \<and> block_source_ok cfg rows s'"
    using latest_stable_block_ok [of cfg rows ts s B s'] by (auto simp: db_sync_mc_source_def block_source_ok_def)
next
  fix s ts h assume "block_source_ok cfg rows s" "time_ok cfg ts"
  then show "\<exists>s'. block_source_ok cfg rows s' \<and> src_stable_block_for (db_sync_mc_source cfg (Inr rows)) h ts s =
      (Ret (Inr (case known_block rows h of None \<Rightarrow> None | Some B \<Rightarrow> if reference_ok cfg rows B ts then Some B else None)), s')"
    using stable_block_for_answer [of rows cfg s ts h] by (auto simp: db_sync_mc_source_def block_source_ok_def stable_lookup_def)
next
  fix s h assume "block_source_ok cfg rows s"
  then show "\<exists>s'. block_source_ok cfg rows s' \<and>
      src_block_by_hash (db_sync_mc_source cfg (Inr rows)) h s = (Ret (Inr (known_block rows h)), s')"
    using block_by_hash_answer [of rows cfg s h] by (auto simp: db_sync_mc_source_def block_source_ok_def)
next
  fix s B ts assume "block_source_ok cfg rows s" "reference_ok cfg rows B ts"
  then show "known_block rows (mb_hash B) = Some B" by (auto simp: block_source_ok_def intro: reference_known)
next
  fix s B ts P pts assume "block_source_ok cfg rows s" "reference_ok cfg rows B ts" "reference_ok cfg rows P pts"
    "mb_number B \<le> mb_number P" "pts \<le> ts"
  then show "reference_ok cfg rows P ts" by (auto simp: block_source_ok_def intro: reference_between)
qed

section \<open>Chains of verified references\<close>

text \<open>The headers of a chain, each verified at its own time by a node with its own view of the main chain.
  \<open>number\<close> is the number of the main chain block with a hash. The last argument lists the references.\<close>

inductive mc_chain ::
  "block_source_config \<Rightarrow> (bytes \<Rightarrow> u32) \<Rightarrow> header \<Rightarrow> u64 option \<Rightarrow> bytes list \<Rightarrow> bool"
  for cfg number where
  genesis: "mc_chain cfg number parent None []"
| block: "mc_chain cfg number parent parent_ts refs \<Longrightarrow>
    block_source_ok cfg rows cache \<Longrightarrow> \<forall>b \<in> set rows. number (block_hash b) = block_no b \<Longrightarrow> time_ok cfg ts \<Longrightarrow>
    new_verification (db_sync_mc_source cfg (Inr rows :: unit block_db)) parent parent_ts ts ref cache = (Ret (Inr idp), cache') \<Longrightarrow>
    value_from_digest (hd_digest child) = Inr ref \<Longrightarrow>
    mc_chain cfg number child (Some ts) (refs @ [ref])"

lemma known_block_number:
  "known_block rows h = Some B \<Longrightarrow> \<forall>b \<in> set rows. number (block_hash b) = block_no b \<Longrightarrow> mb_number B = number h"
  by (auto simp: known_block_def dest!: find_Some_hash)

lemma mc_chain_inv:
  assumes "mc_chain cfg number hdr ts refs"
  shows "sorted (map number refs) \<and>
    (case ts of None \<Rightarrow> refs = [] | Some t \<Rightarrow> time_ok cfg t \<and> refs \<noteq> [] \<and> value_from_digest (hd_digest hdr) = Inr (last refs))"
  using assms
proof induction
  case (block parent parent_ts refs rows cache ts ref idp cache' child)
  note v = bs.verification_sound [OF block.hyps(2,4,5)]
  have B: "mb_number (idp_mc_block idp) = number ref" using v(1) known_block_number block.hyps(3) by blast
  have "number (last refs) \<le> number ref" if ne: "refs \<noteq> []"
  proof -
    obtain t where t: "parent_ts = Some t" "time_ok cfg t" "value_from_digest (hd_digest parent) = Inr (last refs)"
      using block.IH ne by (cases parent_ts) auto
    then obtain P where "known_block rows (last refs) = Some P" "mb_number P \<le> mb_number (idp_mc_block idp)"
      using v(2) [OF t(1,2)] by auto
    then show ?thesis using B known_block_number [OF _ block.hyps(3)] by simp
  qed
  then have "\<forall>h \<in> set refs. number h \<le> number ref"
    using block.IH by (cases refs rule: rev_cases) (auto simp: sorted_append intro: order_trans)
  then show ?case using block.IH block.hyps(4,6) by (auto simp: sorted_append)
qed simp

section \<open>Properties\<close>

text \<open>C19: every honest main chain reference is accepted. An author with a view of the main chain and any
  correct cache proposes a block on a parent that is the genesis block or refers to a block that was a
  valid reference at the parent's time; the digest of the proposal is read back as the proposed
  reference, and every verifier whose view extends the author's accepts it, also when the author's latest
  stable block is older than the parent's reference, and sees the same referenced blocks.\<close>

theorem honest_reference_verified:
  fixes parent :: header
  assumes "block_source_ok cfg rows cache"
    and "new_proposal (db_sync_mc_source cfg (Inr rows :: 'e block_db)) parent ts cache = (Ret (Inr idp), cache1)"
    and "block_source_ok cfg rows' cache'" and "extends_view (security_parameter cfg) rows rows'" and "time_ok cfg ts"
    and "case parent_ts of
           None \<Rightarrow> value_from_digest (hd_digest parent) = Inl McHashMissing
         | Some pts \<Rightarrow> pts \<le> ts \<and> time_ok cfg pts \<and> (\<exists>h P. value_from_digest (hd_digest parent) = Inr h \<and>
             known_block rows h = Some P \<and> reference_ok cfg rows P pts)"
    and "propose_logs (mc_provide_inherent_data idp) logs = Ret logs'" and "value_from_digest logs = Inl McHashMissing"
    and "length (mc_hash_of idp) = 32"
  shows "\<exists>ref cache1'. value_from_digest logs' = Inr ref \<and> block_source_ok cfg rows' cache1' \<and>
    new_verification (db_sync_mc_source cfg (Inr rows' :: 'e block_db)) parent parent_ts ts ref cache' = (Ret (Inr idp), cache1')"
proof -
  define pts where "pts = (case parent_ts of None \<Rightarrow> 0 | Some t \<Rightarrow> t)"
  have "pts \<le> ts" using assms(6) by (auto simp: pts_def split: option.splits)
  moreover have "\<exists>P. known_block rows h = Some P \<and> reference_ok cfg rows P pts"
    if "value_from_digest (hd_digest parent) = Inr h" for h
    using assms(6) that by (auto simp: pts_def split: option.splits)
  ultimately have p: "reference_ok cfg rows (idp_mc_block idp) ts"
      "case value_from_digest (hd_digest parent) of
         Inl e \<Rightarrow> idp_previous_mc_block idp = None
       | Inr h \<Rightarrow> \<exists>P. known_block rows h = Some P \<and> idp_previous_mc_block idp = Some P \<and>
           mb_number P \<le> mb_number (idp_mc_block idp)"
    using bs.proposal_ok [OF assms(1,2), of pts] by blast+
  have chain': "chain_ok rows'" using assms(3) by (simp add: block_source_ok_def)
  have "case parent_ts of
      None \<Rightarrow> idp_previous_mc_block idp = None
    | Some pts \<Rightarrow> time_ok cfg pts \<and> (\<exists>h P. value_from_digest (hd_digest parent) = Inr h \<and> known_block rows' h = Some P \<and>
        reference_ok cfg rows' P pts \<and> mb_number P \<le> mb_number (idp_mc_block idp) \<and> idp_previous_mc_block idp = Some P)"
  proof (cases parent_ts)
    case (Some t)
    then obtain h P where h: "value_from_digest (hd_digest parent) = Inr h" "known_block rows h = Some P" "reference_ok cfg rows P t"
      using assms(6) by auto
    then have "reference_ok cfg rows' P t" "mb_hash P = h"
      using reference_ok_extends [OF _ assms(4)] by (auto simp: known_block_def dest: find_Some_hash)
    then show ?thesis using Some h p(2) assms(6) reference_known [OF chain'] by auto
  qed (use p(2) assms(6) in auto)
  then have "\<exists>s'. block_source_ok cfg rows' s' \<and> new_verification (db_sync_mc_source cfg (Inr rows' :: 'e block_db)) parent parent_ts ts
      (mb_hash (idp_mc_block idp)) cache' = (Ret (Inr \<lparr>idp_mc_block = idp_mc_block idp, idp_previous_mc_block = idp_previous_mc_block idp\<rparr>), s')"
    by (rule bs.verification_accepts [OF assms(3,5) reference_ok_extends [OF p(1) assms(4)]])
  moreover have "\<lparr>idp_mc_block = idp_mc_block idp, idp_previous_mc_block = idp_previous_mc_block idp\<rparr> = idp" by simp
  ultimately obtain cache1' where
    "block_source_ok cfg rows' cache1'"
    "new_verification (db_sync_mc_source cfg (Inr rows' :: 'e block_db)) parent parent_ts ts (mc_hash_of idp) cache' = (Ret (Inr idp), cache1')"
    unfolding mc_hash_of_def by auto
  then show ?thesis using proposed_reference_read [OF assms(7-9)] by blast
qed


section \<open>A main chain of five blocks\<close>

definition demo_mc_block :: "u32 \<Rightarrow> db_block" where
  "demo_mc_block n = \<lparr>block_no = n, block_hash = ucast n # replicate 31 0, block_epoch_no = 0, block_slot_no = ucast n,
     block_time = 20000 * uint n\<rparr>"

definition demo_mc_config :: block_source_config where
  "demo_mc_config = \<lparr>security_parameter = 2, min_slot_boundary = 20000, max_slot_boundary = 60000,
     bs_epoch_config = \<lparr>epoch_duration_millis = 1000000, slot_duration_millis = 20000, first_epoch_timestamp_millis = 0,
       first_epoch_number = 0, first_slot_number = 0\<rparr>,
     block_stability_margin = 0, blocks_cache_size = 100, date_time_in_range = (\<lambda>_. True)\<rparr>"

abbreviation demo_mc_rows :: "u32 list \<Rightarrow> db_block list" where
  "demo_mc_rows ns \<equiv> map demo_mc_block ns"

definition demo_mc_header :: "u32 \<Rightarrow> header" where
  "demo_mc_header n = \<lparr>hd_number = 1, hd_digest = OtherDigest [] # from_mc_block_hash (block_hash (demo_mc_block n))\<rparr>"

definition demo_mc_idp :: mc_hash_idp where
  "demo_mc_idp = \<lparr>idp_mc_block = to_mainchain_block (demo_mc_block 2),
     idp_previous_mc_block = Some (to_mainchain_block (demo_mc_block 1))\<rparr>"

lemma demo_block_source_ok: "block_source_ok demo_mc_config (demo_mc_rows [0, 1, 2, 3, 4]) []"
  "block_source_ok demo_mc_config (demo_mc_rows [0, 1, 2, 3, 4, 5]) [demo_mc_block 1, demo_mc_block 2]"
  by (auto simp: block_source_ok_def chain_ok_def demo_mc_block_def demo_mc_config_def blocks_cache_ok_def stable_in_def)

lemma demo_mc_proposal:
  "new_proposal (db_sync_mc_source demo_mc_config (Inr (demo_mc_rows [0, 1, 2, 3, 4]) :: unit block_db)) (demo_mc_header 1) 100000 [] =
    (Ret (Inr demo_mc_idp), [])"
  by code_simp

theorem honest_reference_verified_witness:
  "\<exists>ref cache1'. value_from_digest (OtherDigest [7] # from_mc_block_hash (block_hash (demo_mc_block 2))) = Inr ref \<and>
    block_source_ok demo_mc_config (demo_mc_rows [0, 1, 2, 3, 4, 5]) cache1' \<and>
    new_verification (db_sync_mc_source demo_mc_config (Inr (demo_mc_rows [0, 1, 2, 3, 4, 5]) :: unit block_db)) (demo_mc_header 1)
      (Some 80000) 100000 ref [demo_mc_block 1, demo_mc_block 2] = (Ret (Inr demo_mc_idp), cache1')"
proof (rule honest_reference_verified [OF demo_block_source_ok(1) demo_mc_proposal demo_block_source_ok(2)])
  show "extends_view (security_parameter demo_mc_config) (demo_mc_rows [0, 1, 2, 3, 4]) (demo_mc_rows [0, 1, 2, 3, 4, 5])"
    by (auto simp: extends_view_def stable_in_def demo_mc_block_def demo_mc_config_def)
  have "reference_ok demo_mc_config (demo_mc_rows [0, 1, 2, 3, 4]) (to_mainchain_block (demo_mc_block 1)) 80000"
    unfolding reference_ok_def
    by (rule exI [of _ "demo_mc_block 1"])
      (simp add: stable_in_def is_block_time_valid_def min_block_allowed_time_def max_allowed_block_time_def demo_mc_block_def demo_mc_config_def)
  moreover have "value_from_digest (hd_digest (demo_mc_header 1)) = Inr (block_hash (demo_mc_block 1))" by code_simp
  moreover have "known_block (demo_mc_rows [0, 1, 2, 3, 4]) (block_hash (demo_mc_block 1)) = Some (to_mainchain_block (demo_mc_block 1))"
    by code_simp
  ultimately show "case Some 80000 of
           None \<Rightarrow> value_from_digest (hd_digest (demo_mc_header 1)) = Inl McHashMissing
         | Some pts \<Rightarrow> pts \<le> 100000 \<and> time_ok demo_mc_config pts \<and>
             (\<exists>h P. value_from_digest (hd_digest (demo_mc_header 1)) = Inr h \<and>
               known_block (demo_mc_rows [0, 1, 2, 3, 4]) h = Some P \<and> reference_ok demo_mc_config (demo_mc_rows [0, 1, 2, 3, 4]) P pts)"
    by (simp add: time_ok_def demo_mc_config_def)
  show "propose_logs (mc_provide_inherent_data demo_mc_idp) [OtherDigest [7]] =
      Ret (OtherDigest [7] # from_mc_block_hash (block_hash (demo_mc_block 2)))" by code_simp
  show "length (mc_hash_of demo_mc_idp) = 32" by code_simp
qed (simp_all add: time_ok_def demo_mc_config_def)

lemma demo_mc_chain:
  "mc_chain demo_mc_config (\<lambda>h. ucast (hd h)) (demo_mc_header 2) (Some 100000)
    [block_hash (demo_mc_block 1), block_hash (demo_mc_block 2)]"
proof -
  let ?rows = "demo_mc_rows [0, 1, 2, 3, 4]"
  let ?src = "db_sync_mc_source demo_mc_config (Inr ?rows :: unit block_db)"
  have ref: "reference_ok demo_mc_config ?rows (to_mainchain_block (demo_mc_block 1)) 80000"
      "reference_ok demo_mc_config ?rows (to_mainchain_block (demo_mc_block 2)) 100000"
    unfolding reference_ok_def
    by (rule exI [of _ "demo_mc_block 1"] exI [of _ "demo_mc_block 2"], simp add: stable_in_def is_block_time_valid_def
        min_block_allowed_time_def max_allowed_block_time_def demo_mc_block_def demo_mc_config_def)+
  have t: "time_ok demo_mc_config 80000" "time_ok demo_mc_config 100000" by (simp_all add: time_ok_def demo_mc_config_def)
  have d: "value_from_digest (hd_digest (demo_mc_header 1)) = Inr (block_hash (demo_mc_block 1))"
      "value_from_digest (hd_digest (demo_mc_header 2)) = Inr (block_hash (demo_mc_block 2))" by code_simp+
  have k: "known_block ?rows (block_hash (demo_mc_block 1)) = Some (to_mainchain_block (demo_mc_block 1))" by code_simp
  have n: "\<forall>b \<in> set ?rows. (ucast (hd (block_hash b)) :: u32) = block_no b" by code_simp
  have "\<exists>c. block_source_ok demo_mc_config ?rows c \<and> new_verification ?src \<lparr>hd_number = 0, hd_digest = []\<rparr> None 80000
      (mb_hash (to_mainchain_block (demo_mc_block 1))) [] =
      (Ret (Inr \<lparr>idp_mc_block = to_mainchain_block (demo_mc_block 1), idp_previous_mc_block = None\<rparr>), c)"
    by (rule bs.verification_accepts [OF demo_block_source_ok(1) t(1) ref(1)]) simp
  then obtain c1 idp1 where 1: "new_verification ?src \<lparr>hd_number = 0, hd_digest = []\<rparr> None 80000 (block_hash (demo_mc_block 1)) [] =
      (Ret (Inr idp1), c1)" by auto
  have "\<exists>c. block_source_ok demo_mc_config ?rows c \<and> new_verification ?src (demo_mc_header 1) (Some 80000) 100000
      (mb_hash (to_mainchain_block (demo_mc_block 2))) [] =
      (Ret (Inr \<lparr>idp_mc_block = to_mainchain_block (demo_mc_block 2),
        idp_previous_mc_block = Some (to_mainchain_block (demo_mc_block 1))\<rparr>), c)"
    by (rule bs.verification_accepts [OF demo_block_source_ok(1) t(2) ref(2)]) (use t(1) d(1) k ref(1) in \<open>auto simp: demo_mc_block_def\<close>)
  then obtain c2 idp2 where 2: "new_verification ?src (demo_mc_header 1) (Some 80000) 100000 (block_hash (demo_mc_block 2)) [] =
      (Ret (Inr idp2), c2)" by auto
  have "mc_chain demo_mc_config (\<lambda>h. ucast (hd h)) (demo_mc_header 1) (Some 80000) ([] @ [block_hash (demo_mc_block 1)])"
    by (rule mc_chain.block [OF mc_chain.genesis demo_block_source_ok(1) n t(1) 1 d(1)])
  from mc_chain.block [OF this demo_block_source_ok(1) n t(2) 2 d(2)] show ?thesis by simp
qed


end
