(* ===== verification/Producer_Fees.thy ===== *)
theory Producer_Fees
  imports PC_Prelude
begin

text \<open>
  Margin fees of block producers, \<open>toolkit/block-producer-fees/pallet/src/lib.rs\<close>: each account keeps a
  bounded history of its fees, the latest first. The storage map is a partial function, \<open>get\<close> is its
  value query. The iteration over the storage is a parameter, the list of its entries in some order.
\<close>

record ('o, 'acc) fees_config =
  fees_signed :: "'o \<Rightarrow> 'acc option"
  historical_changes_per_producer :: u16

datatype fees_error = FeesBadOrigin | FeeOutOfRange

type_synonym 'm fee_change = "'m \<times> u16"

type_synonym ('acc, 'm) fees_changes = "'acc \<rightharpoonup> 'm fee_change list"

definition fees_get :: "('acc, 'm) fees_changes \<Rightarrow> 'acc \<Rightarrow> 'm fee_change list" where
  "fees_get st account = (case st account of None \<Rightarrow> [] | Some fees_log \<Rightarrow> fees_log)"

definition set_fee ::
  "('o, 'acc) fees_config \<Rightarrow> 'm \<Rightarrow> 'o \<Rightarrow> u16 \<Rightarrow> ('acc, 'm) fees_changes \<Rightarrow> fees_error + ('acc, 'm) fees_changes" where
  "set_fee cfg current_moment origin fee_numerator st =
     try_bind (ok_or (fees_signed cfg origin) FeesBadOrigin) (\<lambda>account_id.
     if fee_numerator > 10000 then Inl FeeOutOfRange
     else
       let fees_log = fees_get st account_id;
           fees_log = (if length fees_log > unat (historical_changes_per_producer cfg) then butlast fees_log else fees_log)
       in Inr (st(account_id \<mapsto> (current_moment, fee_numerator) # fees_log)))"

fun get_all_latest :: "('acc \<times> 'm fee_change list) list \<Rightarrow> ('acc \<times> 'm fee_change) list exec" where
  "get_all_latest [] = Ret []"
| "get_all_latest ((account_id, changes) # entries) =
     exec_bind (case changes of [] \<Rightarrow> Panic | change # _ \<Rightarrow> Ret change) (\<lambda>latest.
     exec_bind (get_all_latest entries) (\<lambda>rest. Ret ((account_id, latest) # rest)))"

definition get_latest :: "('acc, 'm) fees_changes \<Rightarrow> 'acc \<Rightarrow> 'm fee_change option" where
  "get_latest st account = (case fees_get st account of [] \<Rightarrow> None | change # _ \<Rightarrow> Some change)"

section \<open>Specification\<close>

text \<open>The calls as a specification sees them: the whole history of accepted fees, the latest first.\<close>

type_synonym ('acc, 'm) fee_history = "'acc \<Rightarrow> 'm fee_change list"

definition spec_set_fee ::
  "('o, 'acc) fees_config \<Rightarrow> 'm \<Rightarrow> 'o \<Rightarrow> u16 \<Rightarrow> ('acc, 'm) fee_history \<Rightarrow> fees_error + ('acc, 'm) fee_history" where
  "spec_set_fee cfg now origin fee hist =
     (case fees_signed cfg origin of
        None \<Rightarrow> Inl FeesBadOrigin
      | Some acc \<Rightarrow> if fee \<le> 10000 then Inr (hist(acc := (now, fee) # hist acc)) else Inl FeeOutOfRange)"

text \<open>The pallet stores the most recent part of the history: the configured number of changes and one more.\<close>

definition stored :: "('o, 'acc) fees_config \<Rightarrow> ('acc, 'm) fee_history \<Rightarrow> ('acc, 'm) fees_changes" where
  "stored cfg hist = (\<lambda>acc. if hist acc = [] then None
     else Some (take (unat (historical_changes_per_producer cfg) + 1) (hist acc)))"

lemma stored_empty: "stored cfg (\<lambda>_. []) = Map.empty"
  by (simp add: stored_def fun_eq_iff)

lemma fees_get_stored: "fees_get (stored cfg hist) acc = take (unat (historical_changes_per_producer cfg) + 1) (hist acc)"
  by (simp add: fees_get_def stored_def)

lemma set_fee_refines: "set_fee cfg now origin fee (stored cfg hist) = map_sum id (stored cfg) (spec_set_fee cfg now origin fee hist)"
proof (cases "fees_signed cfg origin")
  case (Some acc)
  let ?n = "unat (historical_changes_per_producer cfg)"
  let ?log = "take (?n + 1) (hist acc)"
  have cut: "(if length ?log > ?n then butlast ?log else ?log) = take ?n (hist acc)"
    by (auto simp: butlast_take)
  have "(stored cfg hist)(acc \<mapsto> (now, fee) # take ?n (hist acc)) = stored cfg (hist(acc := (now, fee) # hist acc))"
    by (auto simp: stored_def)
  then show ?thesis
    using Some cut by (auto simp: set_fee_def spec_set_fee_def fees_get_stored Let_def not_less)
qed (simp add: set_fee_def spec_set_fee_def)

text \<open>A sequence of calls, each at its moment; a call that fails changes nothing.\<close>

definition committed :: "'s \<Rightarrow> 'e + 's \<Rightarrow> 's" where
  "committed s r = (case r of Inl _ \<Rightarrow> s | Inr s' \<Rightarrow> s')"

definition fees_calls ::
  "('m \<Rightarrow> 'o \<Rightarrow> u16 \<Rightarrow> 's \<Rightarrow> fees_error + 's) \<Rightarrow> ('m \<times> 'o \<times> u16) list \<Rightarrow> 's \<Rightarrow> 's" where
  "fees_calls call cs s = fold (\<lambda>(now, origin, fee) s. committed s (call now origin fee s)) cs s"

lemma fees_calls_refine: "fees_calls (set_fee cfg) cs (stored cfg hist) = stored cfg (fees_calls (spec_set_fee cfg) cs hist)"
proof (induction cs arbitrary: hist)
  case (Cons c cs)
  obtain now origin fee where c: "c = (now, origin, fee)" by (metis prod_cases3)
  have "committed (stored cfg hist) (set_fee cfg now origin fee (stored cfg hist)) =
      stored cfg (committed hist (spec_set_fee cfg now origin fee hist))"
    by (simp add: set_fee_refines committed_def split: sum.split)
  then show ?case using Cons.IH by (simp add: c fees_calls_def)
qed (simp add: fees_calls_def)

lemma spec_fees_in_range:
  "\<forall>acc. \<forall>(m, fee) \<in> set (hist acc). fee \<le> 10000 \<Longrightarrow> \<forall>(m, fee) \<in> set (fees_calls (spec_set_fee cfg) cs hist acc). fee \<le> 10000"
proof (induction cs arbitrary: hist)
  case (Cons c cs)
  obtain now origin fee where c: "c = (now, origin, fee)" by (metis prod_cases3)
  have "\<forall>acc. \<forall>(m, fee) \<in> set (committed hist (spec_set_fee cfg now origin fee hist) acc). fee \<le> 10000"
    using Cons.prems by (auto simp: committed_def spec_set_fee_def split: option.splits)
  then show ?case using Cons.IH [of "committed hist (spec_set_fee cfg now origin fee hist)"] by (simp add: c fees_calls_def)
qed (simp add: fees_calls_def)

lemma get_all_latest_Ret:
  "\<forall>(acc, l) \<in> set entries. l \<noteq> [] \<Longrightarrow> get_all_latest entries = Ret (map (\<lambda>(acc, l). (acc, hd l)) entries)"
  by (induction entries) (auto split: list.splits)

lemma stored_range:
  assumes "stored cfg (fees_calls (spec_set_fee cfg) cs (\<lambda>_. [])) acc = Some l"
  shows "l \<noteq> [] \<and> length l \<le> unat (historical_changes_per_producer cfg) + 1 \<and> (\<forall>(m, fee) \<in> set l. fee \<le> 10000)"
  using assms spec_fees_in_range [of "\<lambda>_. []" cfg cs acc] by (auto simp: stored_def split: if_splits dest!: in_set_takeD)

section \<open>Properties\<close>

text \<open>C25: the fee storage refines the full history. After any sequence of calls from an empty storage,
  accepted or rejected, the pallet stores for every account exactly the latest changes of its history of
  accepted fees, up to one more than the configured number; the latest fee is the head of the history;
  every stored fee is between 0 and 10000 and listing the latest fees of all stored accounts does not
  panic.\<close>

theorem fees_refine_history:
  assumes "set entries \<subseteq> {(acc, l). fees_calls (set_fee cfg) cs Map.empty acc = Some l}"
  shows "fees_calls (set_fee cfg) cs Map.empty = stored cfg (fees_calls (spec_set_fee cfg) cs (\<lambda>_. [])) \<and>
    get_latest (fees_calls (set_fee cfg) cs Map.empty) acc =
      (case fees_calls (spec_set_fee cfg) cs (\<lambda>_. []) acc of [] \<Rightarrow> None | c # _ \<Rightarrow> Some c) \<and>
    (\<exists>r. get_all_latest entries = Ret r \<and> list_all (\<lambda>(acc, m, fee). fee \<le> 10000) r)"
proof (intro conjI)
  show eq: "fees_calls (set_fee cfg) cs Map.empty = stored cfg (fees_calls (spec_set_fee cfg) cs (\<lambda>_. []))"
    using fees_calls_refine [of cfg cs "\<lambda>_. []"] by (simp add: stored_empty)
  show "get_latest (fees_calls (set_fee cfg) cs Map.empty) acc =
      (case fees_calls (spec_set_fee cfg) cs (\<lambda>_. []) acc of [] \<Rightarrow> None | c # _ \<Rightarrow> Some c)"
    by (simp add: eq get_latest_def fees_get_stored split: list.splits)
  have "\<forall>(acc, l) \<in> set entries. l \<noteq> [] \<and> (\<forall>(m, fee) \<in> set l. fee \<le> 10000)"
    using assms stored_range unfolding eq by fast
  then show "\<exists>r. get_all_latest entries = Ret r \<and> list_all (\<lambda>(acc, m, fee). fee \<le> 10000) r"
    by (subst get_all_latest_Ret) (auto simp: list_all_iff neq_Nil_conv)
qed

definition demo_fees_config :: "(nat option, nat) fees_config" where
  "demo_fees_config = \<lparr>fees_signed = id, historical_changes_per_producer = 1\<rparr>"

theorem fees_refine_history_witness:
  "get_latest (fees_calls (set_fee demo_fees_config) [(1, Some 5, 100), (2, None, 7), (3, Some 5, 10001), (4, Some 5, 300), (6, Some 5, 200)]
      Map.empty) 5 = Some (6 :: nat, 200) \<and>
   (\<exists>r. get_all_latest [(5 :: nat, [(6 :: nat, 200), (4, 300)])] = Ret r \<and> list_all (\<lambda>(acc, m, fee). fee \<le> 10000) r)"
proof -
  let ?cs = "[(1 :: nat, Some (5 :: nat), 100), (2, None, 7), (3, Some 5, 10001), (4, Some 5, 300), (6, Some 5, 200)]"
  have "fees_calls (set_fee demo_fees_config) ?cs Map.empty 5 = Some [(6, 200), (4, 300)]" by code_simp
  then have e: "set [(5, [(6, 200), (4, 300)])] \<subseteq> {(acc, l). fees_calls (set_fee demo_fees_config) ?cs Map.empty acc = Some l}"
    by simp
  have h: "fees_calls (spec_set_fee demo_fees_config) ?cs (\<lambda>_. []) 5 = [(6, 200), (4, 300), (1, 100)]" by code_simp
  show ?thesis using fees_refine_history [OF e, of 5, THEN conjunct2] unfolding h list.case .
qed

end
