(* ===== verification/Guarded_Storage.thy ===== *)
theory Guarded_Storage
  imports Domain
begin

text \<open>
  Storage maps whose entries change only on behalf of the holder of a key: the contract the metadata and
  the address association pallets share. A call that fails changes nothing. \<open>crypto\<close> holds the primitives of
  other crates: the hash of a public key, the verification of a signature and the SCALE encoding of a
  signed message.
\<close>

record 'msg crypto =
  key_hash :: "bytes \<Rightarrow> bytes"
  verify_signature :: "bytes \<Rightarrow> bytes \<Rightarrow> bytes \<Rightarrow> bool"
  encode_message :: "'msg \<Rightarrow> bytes"

definition run_calls :: "('c \<Rightarrow> 's \<Rightarrow> 'e + 's) \<Rightarrow> 'c list \<Rightarrow> 's \<Rightarrow> 's" where
  "run_calls call cs s = fold (\<lambda>c s. case call c s of Inl _ \<Rightarrow> s | Inr s' \<Rightarrow> s') cs s"

lemma run_calls_simps [simp]:
  "run_calls call [] s = s"
  "run_calls call (c # cs) s = run_calls call cs (case call c s of Inl _ \<Rightarrow> s | Inr s' \<Rightarrow> s')"
  by (simp_all add: run_calls_def)

text \<open>The calls of a run that succeed, in order.\<close>

fun accepted :: "('c \<Rightarrow> 's \<Rightarrow> 'e + 's) \<Rightarrow> 'c list \<Rightarrow> 's \<Rightarrow> 'c list" where
  "accepted call [] s = []"
| "accepted call (c # cs) s =
     (case call c s of Inl _ \<Rightarrow> accepted call cs s | Inr s' \<Rightarrow> c # accepted call cs s')"

lemma run_calls_invariant:
  assumes "\<And>c s s'. c \<in> set cs \<Longrightarrow> I s \<Longrightarrow> call c s = Inr s' \<Longrightarrow> I s'" and "I s"
  shows "I (run_calls call cs s)"
  using assms
proof (induction cs arbitrary: s)
  case (Cons c cs)
  have "I (case call c s of Inl _ \<Rightarrow> s | Inr s' \<Rightarrow> s')" using Cons.prems by (auto split: sum.splits)
  moreover have "I s'" if "d \<in> set cs" "I r" "call d r = Inr s'" for d r s'
    using Cons.prems(1) [of d r s'] that by simp
  ultimately have "I (run_calls call cs (case call c s of Inl _ \<Rightarrow> s | Inr s' \<Rightarrow> s'))" by (rule Cons.IH [rotated])
  then show ?case by simp
qed simp

locale guarded_storage =
  fixes call :: "'c \<Rightarrow> 's \<Rightarrow> 'e + 's"
    and entries :: "'s \<Rightarrow> 'k \<rightharpoonup> 'v"
    and authorised :: "'c \<Rightarrow> 'k \<Rightarrow> 'v option \<Rightarrow> 'v option \<Rightarrow> bool"
  assumes changes_authorised:
    "call c s = Inr s' \<Longrightarrow> entries s' k \<noteq> entries s k \<Longrightarrow> authorised c k (entries s k) (entries s' k)"
begin

text \<open>Whenever an entry differs after a run, some call of the run was authorised to bring it to its value.\<close>

lemma run_authorised:
  assumes "entries (run_calls call cs s) k \<noteq> entries s k"
  shows "\<exists>c \<in> set cs. \<exists>old. authorised c k old (entries (run_calls call cs s) k)"
  using assms
proof (induction cs arbitrary: s)
  case (Cons c cs)
  let ?s = "case call c s of Inl _ \<Rightarrow> s | Inr s' \<Rightarrow> s'"
  show ?case
  proof (cases "entries (run_calls call cs ?s) k = entries ?s k")
    case True
    then have "entries ?s k \<noteq> entries s k" using Cons.prems by simp
    then show ?thesis
      using True changes_authorised [of c s _ k] by (auto split: sum.splits intro: exI [of _ "entries s k"])
  next
    case False
    from Cons.IH [OF this] show ?thesis by auto
  qed
qed simp

end

end
