(* ===== verification/Producer_Metadata.thy ===== *)
theory Producer_Metadata
  imports Guarded_Storage
begin

text \<open>
  Block producer metadata, \<open>toolkit/block-producer-metadata/pallet/src/lib.rs\<close>, with the signed message of
  its primitives. The currency of the runtime is the record \<open>hold_currency\<close> acting on a state \<open>'b\<close>;
  \<open>hold_currency_ok\<close> states the documented behaviour of \<open>MutateHold\<close>, with \<open>held\<close> the amount on hold for the
  pallet's reason: a hold adds its amount, a best-effort release of an amount that is on hold takes
  exactly it off and succeeds. The amount of the deposit may change between calls, with the runtime.
\<close>

record ('acc, 'b, 'e) hold_currency =
  cur_hold :: "'acc \<Rightarrow> u128 \<Rightarrow> 'b \<Rightarrow> 'e + 'b"
  cur_release :: "'acc \<Rightarrow> u128 \<Rightarrow> 'b \<Rightarrow> 'e + 'b"

definition hold_currency_ok :: "('acc, 'b, 'e) hold_currency \<Rightarrow> ('b \<Rightarrow> 'acc \<Rightarrow> nat) \<Rightarrow> bool" where
  "hold_currency_ok C held \<longleftrightarrow>
     (\<forall>acc amount b b'. cur_hold C acc amount b = Inr b' \<longrightarrow> held b' = (held b)(acc := held b acc + unat amount)) \<and>
     (\<forall>acc amount b. unat amount \<le> held b acc \<longrightarrow>
        (\<exists>b'. cur_release C acc amount b = Inr b' \<and> held b' = (held b)(acc := held b acc - unat amount)))"

record ('md, 'acc) metadata_signed_message =
  mm_cross_chain_pub_key :: bytes
  mm_metadata :: "'md option"
  mm_genesis_utxo :: utxo_id
  mm_valid_before :: u64
  mm_owner :: 'acc

record ('o, 'md, 'acc, 'b, 'e) md_config =
  md_signed :: "'o \<Rightarrow> 'acc option"
  md_genesis_utxo :: utxo_id
  md_currency :: "('acc, 'b, 'e) hold_currency"
  md_crypto :: "('md, 'acc) metadata_signed_message crypto"

datatype 'e md_error =
    MdBadOrigin | MdInvalidMainchainSignature | MdInsufficientBalance | NotTheOwner | PastValidityTime | MdCurrencyError 'e

type_synonym ('md, 'acc, 'b) md_state = "(bytes \<rightharpoonup> 'md \<times> 'acc \<times> u128) \<times> 'b"

text \<open>The environment of a call: the time of the slot and the deposit.\<close>

record md_env =
  current_time :: u64
  hold_amount :: u128

definition hold_deposit ::
  "('o, 'md, 'acc, 'b, 'e) md_config \<Rightarrow> md_env \<Rightarrow> 'acc \<Rightarrow> 'b \<Rightarrow> 'e md_error + u128 \<times> 'b" where
  "hold_deposit cfg env account b =
     try_bind (map_err (\<lambda>_. MdInsufficientBalance) (cur_hold (md_currency cfg) account (hold_amount env) b)) (\<lambda>b'.
       Inr (hold_amount env, b'))"

definition release_deposit ::
  "('o, 'md, 'acc, 'b, 'e) md_config \<Rightarrow> 'acc \<Rightarrow> u128 \<Rightarrow> 'b \<Rightarrow> 'e md_error + 'b" where
  "release_deposit cfg depositor amount b = map_err MdCurrencyError (cur_release (md_currency cfg) depositor amount b)"

definition upsert_metadata ::
  "('o, 'md, 'acc, 'b, 'e) md_config \<Rightarrow> md_env \<Rightarrow> 'o \<Rightarrow> 'md \<Rightarrow> bytes \<Rightarrow> bytes \<Rightarrow> u64 \<Rightarrow>
   ('md, 'acc, 'b) md_state \<Rightarrow> 'e md_error + ('md, 'acc, 'b) md_state" where
  "upsert_metadata cfg env origin metadata signature cross_chain_pub_key valid_before = (\<lambda>(st, b).
     try_bind (ok_or (md_signed cfg origin) MdBadOrigin) (\<lambda>origin_account.
     let cross_chain_key_hash = key_hash (md_crypto cfg) cross_chain_pub_key;
         metadata_message = \<lparr>mm_cross_chain_pub_key = cross_chain_pub_key, mm_metadata = Some metadata,
           mm_genesis_utxo = md_genesis_utxo cfg, mm_valid_before = valid_before, mm_owner = origin_account\<rparr>;
         is_valid_signature = verify_signature (md_crypto cfg) signature cross_chain_pub_key
           (encode_message (md_crypto cfg) metadata_message)
     in
     try_bind (ensure (current_time env \<le> valid_before) PastValidityTime) (\<lambda>_.
     try_bind (ensure is_valid_signature MdInvalidMainchainSignature) (\<lambda>_.
     case st cross_chain_key_hash of
       None \<Rightarrow> try_bind (hold_deposit cfg env origin_account b) (\<lambda>(deposit, b').
         Inr (st(cross_chain_key_hash \<mapsto> (metadata, origin_account, deposit)), b'))
     | Some (_, owner, deposit) \<Rightarrow> try_bind (ensure (owner = origin_account) NotTheOwner) (\<lambda>_.
         Inr (st(cross_chain_key_hash \<mapsto> (metadata, owner, deposit)), b))))))"

definition delete_metadata ::
  "('o, 'md, 'acc, 'b, 'e) md_config \<Rightarrow> md_env \<Rightarrow> 'o \<Rightarrow> bytes \<Rightarrow> bytes \<Rightarrow> u64 \<Rightarrow>
   ('md, 'acc, 'b) md_state \<Rightarrow> 'e md_error + ('md, 'acc, 'b) md_state" where
  "delete_metadata cfg env origin cross_chain_pub_key signature valid_before = (\<lambda>(st, b).
     try_bind (ok_or (md_signed cfg origin) MdBadOrigin) (\<lambda>origin_account.
     let metadata_message = \<lparr>mm_cross_chain_pub_key = cross_chain_pub_key, mm_metadata = None,
           mm_genesis_utxo = md_genesis_utxo cfg, mm_valid_before = valid_before, mm_owner = origin_account\<rparr>;
         cross_chain_key_hash = key_hash (md_crypto cfg) cross_chain_pub_key;
         is_valid_signature = verify_signature (md_crypto cfg) signature cross_chain_pub_key
           (encode_message (md_crypto cfg) metadata_message)
     in
     try_bind (ensure (current_time env \<le> valid_before) PastValidityTime) (\<lambda>_.
     try_bind (ensure is_valid_signature MdInvalidMainchainSignature) (\<lambda>_.
     case st cross_chain_key_hash of
       Some (_, owner, deposit) \<Rightarrow> try_bind (ensure (owner = origin_account) NotTheOwner) (\<lambda>_.
         try_bind (release_deposit cfg owner deposit b) (\<lambda>b'. Inr (st(cross_chain_key_hash := None), b')))
     | None \<Rightarrow> Inr (st, b)))))"

definition get_metadata_for ::
  "('o, 'md, 'acc, 'b, 'e) md_config \<Rightarrow> bytes \<Rightarrow> ('md, 'acc, 'b) md_state \<Rightarrow> 'md option" where
  "get_metadata_for cfg cross_chain_pub_key = (\<lambda>(st, b).
     map_option fst (st (key_hash (md_crypto cfg) cross_chain_pub_key)))"

datatype ('o, 'md) md_call =
    UpsertMetadata md_env 'o 'md bytes bytes u64
  | DeleteMetadata md_env 'o bytes bytes u64

fun md_dispatch ::
  "('o, 'md, 'acc, 'b, 'e) md_config \<Rightarrow> ('o, 'md) md_call \<Rightarrow> ('md, 'acc, 'b) md_state \<Rightarrow> 'e md_error + ('md, 'acc, 'b) md_state" where
  "md_dispatch cfg (UpsertMetadata env origin metadata signature key valid_before) s =
     upsert_metadata cfg env origin metadata signature key valid_before s"
| "md_dispatch cfg (DeleteMetadata env origin key signature valid_before) s =
     delete_metadata cfg env origin key signature valid_before s"

section \<open>Authorisation\<close>

text \<open>What a call must carry to bring the entry of a key hash from one value to another: in time, a
  signature by a key with that hash of the new metadata, the chain and the caller; the caller is the
  owner before and after.\<close>

definition md_authorised ::
  "('o, 'md, 'acc, 'b, 'e) md_config \<Rightarrow> ('o, 'md) md_call \<Rightarrow> bytes \<Rightarrow> ('md \<times> 'acc \<times> u128) option \<Rightarrow>
   ('md \<times> 'acc \<times> u128) option \<Rightarrow> bool" where
  "md_authorised cfg c k old new \<longleftrightarrow>
     (\<exists>env origin key sig valid_before acc.
        (c = DeleteMetadata env origin key sig valid_before \<and> new = None \<or>
         (\<exists>md. c = UpsertMetadata env origin md sig key valid_before \<and> map_option fst new = Some md)) \<and>
        md_signed cfg origin = Some acc \<and> key_hash (md_crypto cfg) key = k \<and> current_time env \<le> valid_before \<and>
        verify_signature (md_crypto cfg) sig key (encode_message (md_crypto cfg)
          \<lparr>mm_cross_chain_pub_key = key, mm_metadata = map_option fst new, mm_genesis_utxo = md_genesis_utxo cfg,
           mm_valid_before = valid_before, mm_owner = acc\<rparr>) \<and>
        (\<forall>md d owner. old = Some (md, owner, d) \<or> new = Some (md, owner, d) \<longrightarrow> owner = acc))"

lemma upsert_Inr_iff:
  "upsert_metadata cfg env origin md sig key valid_before (st, b) = Inr (st', b') \<longleftrightarrow>
    (\<exists>acc. md_signed cfg origin = Some acc \<and> current_time env \<le> valid_before \<and>
      verify_signature (md_crypto cfg) sig key (encode_message (md_crypto cfg)
        \<lparr>mm_cross_chain_pub_key = key, mm_metadata = Some md, mm_genesis_utxo = md_genesis_utxo cfg,
         mm_valid_before = valid_before, mm_owner = acc\<rparr>) \<and>
      (case st (key_hash (md_crypto cfg) key) of
         None \<Rightarrow> cur_hold (md_currency cfg) acc (hold_amount env) b = Inr b' \<and>
           st' = st(key_hash (md_crypto cfg) key \<mapsto> (md, acc, hold_amount env))
       | Some (_, owner, deposit) \<Rightarrow> owner = acc \<and> b' = b \<and> st' = st(key_hash (md_crypto cfg) key \<mapsto> (md, acc, deposit))))"
  by (auto simp: upsert_metadata_def Let_def hold_deposit_def split: option.splits)

lemma delete_Inr_iff:
  "delete_metadata cfg env origin key sig valid_before (st, b) = Inr (st', b') \<longleftrightarrow>
    (\<exists>acc. md_signed cfg origin = Some acc \<and> current_time env \<le> valid_before \<and>
      verify_signature (md_crypto cfg) sig key (encode_message (md_crypto cfg)
        \<lparr>mm_cross_chain_pub_key = key, mm_metadata = None, mm_genesis_utxo = md_genesis_utxo cfg,
         mm_valid_before = valid_before, mm_owner = acc\<rparr>) \<and>
      (case st (key_hash (md_crypto cfg) key) of
         None \<Rightarrow> st' = st \<and> b' = b
       | Some (_, owner, deposit) \<Rightarrow> owner = acc \<and> cur_release (md_currency cfg) acc deposit b = Inr b' \<and>
           st' = st(key_hash (md_crypto cfg) key := None)))"
  by (auto simp: delete_metadata_def Let_def release_deposit_def split: option.splits)

interpretation md: guarded_storage "md_dispatch cfg" fst "md_authorised cfg" for cfg
proof unfold_locales
  fix c s s' k assume call: "md_dispatch cfg c s = Inr s'" and diff: "fst s' k \<noteq> fst s k"
  obtain st b st' b' where s: "s = (st, b)" "s' = (st', b')" by (cases s; cases s')
  show "md_authorised cfg c k (fst s k) (fst s' k)"
  proof (cases c)
    case (UpsertMetadata env origin md sig key valid_before)
    then show ?thesis
      using call diff by (auto simp: s upsert_Inr_iff md_authorised_def split: option.splits if_splits)
  next
    case (DeleteMetadata env origin key sig valid_before)
    then show ?thesis
      using call diff by (auto simp: s delete_Inr_iff md_authorised_def split: option.splits if_splits)
  qed
qed

section \<open>Deposits\<close>

fun entry_deposit :: "'acc \<Rightarrow> ('md \<times> 'acc \<times> u128) option \<Rightarrow> nat" where
  "entry_deposit acc None = 0"
| "entry_deposit acc (Some (_, owner, deposit)) = (if owner = acc then unat deposit else 0)"

definition deposits :: "(bytes \<rightharpoonup> 'md \<times> 'acc \<times> u128) \<Rightarrow> 'acc \<Rightarrow> nat" where
  "deposits st acc = (\<Sum>k \<in> dom st. entry_deposit acc (st k))"

definition md_inv :: "('b \<Rightarrow> 'acc \<Rightarrow> nat) \<Rightarrow> ('md, 'acc, 'b) md_state \<Rightarrow> bool" where
  "md_inv held s \<longleftrightarrow> finite (dom (fst s)) \<and> held (snd s) = deposits (fst s)"

lemma entry_deposit_none: "j \<notin> dom st \<Longrightarrow> entry_deposit acc (st j) = 0"
  by (cases "st j") auto

lemma deposits_upd:
  assumes "finite (dom st)"
  shows "deposits (st(k := v)) acc + entry_deposit acc (st k) = deposits st acc + entry_deposit acc v"
proof -
  let ?D = "insert k (dom st)"
  have sum_D: "deposits r acc = (\<Sum>j \<in> ?D. entry_deposit acc (r j))" if "dom r \<subseteq> ?D" for r
    unfolding deposits_def using assms that by (intro sum.mono_neutral_left ballI entry_deposit_none) simp_all
  have "deposits (st(k := v)) acc = entry_deposit acc v + (\<Sum>j \<in> dom st - {k}. entry_deposit acc (st j))"
    using assms by (subst sum_D) (auto simp: sum.insert_remove intro!: sum.cong)
  moreover have "deposits st acc = entry_deposit acc (st k) + (\<Sum>j \<in> dom st - {k}. entry_deposit acc (st j))"
    using assms by (subst sum_D) (auto simp: sum.insert_remove)
  ultimately show ?thesis by simp
qed

lemma deposits_ge: "finite (dom st) \<Longrightarrow> st k = Some (md, acc, d) \<Longrightarrow> unat d \<le> deposits st acc"
  using deposits_upd [of st k None acc] by simp

lemma upsert_keeps_deposits:
  assumes "hold_currency_ok (md_currency cfg) held" "md_inv held (st, b)"
    and "upsert_metadata cfg env origin md sig key valid_before (st, b) = Inr (st', b')"
  shows "md_inv held (st', b')"
proof -
  let ?k = "key_hash (md_crypto cfg) key"
  have fin: "finite (dom st)" and held: "held b = deposits st" using assms(2) by (simp_all add: md_inv_def)
  obtain acc where acc: "case st ?k of
         None \<Rightarrow> cur_hold (md_currency cfg) acc (hold_amount env) b = Inr b' \<and> st' = st(?k \<mapsto> (md, acc, hold_amount env))
       | Some (_, owner, deposit) \<Rightarrow> owner = acc \<and> b' = b \<and> st' = st(?k \<mapsto> (md, acc, deposit))"
    using assms(3) unfolding upsert_Inr_iff by blast
  show ?thesis
  proof (cases "st ?k")
    case None
    then have hold: "cur_hold (md_currency cfg) acc (hold_amount env) b = Inr b'"
      and st': "st' = st(?k \<mapsto> (md, acc, hold_amount env))" using acc by simp_all
    have "held b' = (held b)(acc := held b acc + unat (hold_amount env))"
      using assms(1) hold unfolding hold_currency_ok_def by blast
    then have "held b' a = deposits st' a" for a
      using deposits_upd [OF fin, of ?k "Some (md, acc, hold_amount env)" a] by (simp add: None st' held)
    then show ?thesis using fin by (auto simp: md_inv_def st')
  next
    case (Some e)
    obtain m d where e: "e = (m, acc, d)" and "b' = b" and st': "st' = st(?k \<mapsto> (md, acc, d))"
      using acc Some by (cases e) simp
    have "held b' a = deposits st' a" for a
      using deposits_upd [OF fin, of ?k "Some (md, acc, d)" a] by (simp add: Some e st' held \<open>b' = b\<close>)
    then show ?thesis using fin by (auto simp: md_inv_def st')
  qed
qed

lemma release_entry:
  assumes "hold_currency_ok (md_currency cfg) held" "md_inv held (st, b)" and "st k = Some (md, acc, d)"
  obtains b' where "cur_release (md_currency cfg) acc d b = Inr b'" "md_inv held (st(k := None), b')"
    "held b' acc + unat d = held b acc"
proof -
  have fin: "finite (dom st)" and held: "held b = deposits st" using assms(2) by (simp_all add: md_inv_def)
  have "unat d \<le> held b acc" using deposits_ge [OF fin assms(3)] held by simp
  then obtain b' where b': "cur_release (md_currency cfg) acc d b = Inr b'"
    "held b' = (held b)(acc := held b acc - unat d)" using assms(1) unfolding hold_currency_ok_def by blast
  have "held b' a = deposits (st(k := None)) a" for a
    using deposits_upd [OF fin, of k None a] assms(3) b'(2) held by (auto split: if_splits)
  then have "md_inv held (st(k := None), b')" using fin by (auto simp: md_inv_def fun_eq_iff)
  with that b' \<open>unat d \<le> held b acc\<close> show ?thesis by simp
qed

lemma delete_keeps_deposits:
  assumes "hold_currency_ok (md_currency cfg) held" "md_inv held (st, b)"
    and "delete_metadata cfg env origin key sig valid_before (st, b) = Inr (st', b')"
  shows "md_inv held (st', b')"
proof (cases "st (key_hash (md_crypto cfg) key)")
  case None
  then show ?thesis using assms unfolding delete_Inr_iff by auto
next
  case (Some e)
  obtain md owner d where e: "e = (md, owner, d)" by (cases e)
  from release_entry [OF assms(1,2) Some [unfolded e]] obtain b'' where
    "cur_release (md_currency cfg) owner d b = Inr b''" "md_inv held (st(key_hash (md_crypto cfg) key := None), b'')" .
  then show ?thesis using assms(3) Some unfolding e delete_Inr_iff by auto
qed

lemma md_dispatch_inv:
  assumes "hold_currency_ok (md_currency cfg) held" "md_inv held s" "md_dispatch cfg c s = Inr s'"
  shows "md_inv held s'"
  using assms by (cases c; cases s; cases s')
    (auto intro: upsert_keeps_deposits delete_keeps_deposits)

lemma md_run_inv:
  "hold_currency_ok (md_currency cfg) held \<Longrightarrow> md_inv held s \<Longrightarrow> md_inv held (run_calls (md_dispatch cfg) cs s)"
  by (rule run_calls_invariant) (auto intro: md_dispatch_inv)

text \<open>A concrete configuration: balances are the amounts on hold, a signature is the message after the key.\<close>

definition demo_currency :: "(nat, nat \<Rightarrow> nat, nat) hold_currency" where
  "demo_currency = \<lparr>cur_hold = (\<lambda>acc amount b. Inr (b(acc := b acc + unat amount))),
     cur_release = (\<lambda>acc amount b. Inr (b(acc := b acc - unat amount)))\<rparr>"

definition demo_md_config :: "(nat, nat, nat, nat \<Rightarrow> nat, nat) md_config" where
  "demo_md_config = \<lparr>md_signed = Some, md_genesis_utxo = \<lparr>tx_hash = [], utxo_index = 0\<rparr>, md_currency = demo_currency,
     md_crypto = \<lparr>key_hash = (\<lambda>key. key), verify_signature = (\<lambda>sig key msg. sig = key @ msg),
       encode_message = (\<lambda>m. of_nat (mm_owner m) # (case mm_metadata m of None \<Rightarrow> [] | Some md \<Rightarrow> [of_nat md]))\<rparr>\<rparr>"

lemma demo_currency_ok: "hold_currency_ok demo_currency (\<lambda>b. b)"
  by (simp add: hold_currency_ok_def demo_currency_def)

text \<open>C21: Whatever sequence of metadata calls is made, and however the required deposit changes between them, what
  is on hold for an account is exactly the sum of the deposits recorded in the entries it owns. An owner who
  signs a deletion in time always succeeds and gets back exactly the deposit taken when the entry was created.
\<close>

theorem metadata_deposits_conserved:
  assumes currency: "hold_currency_ok (md_currency cfg) held" and start: "held b\<^sub>0 = (\<lambda>_. 0)"
    and run: "run_calls (md_dispatch cfg) cs (Map.empty, b\<^sub>0) = (st, b)"
  shows "held b = deposits st \<and>
    (\<forall>env origin key sig valid_before md acc d.
       st (key_hash (md_crypto cfg) key) = Some (md, acc, d) \<and> md_signed cfg origin = Some acc \<and>
       current_time env \<le> valid_before \<and>
       verify_signature (md_crypto cfg) sig key (encode_message (md_crypto cfg)
         \<lparr>mm_cross_chain_pub_key = key, mm_metadata = None, mm_genesis_utxo = md_genesis_utxo cfg,
          mm_valid_before = valid_before, mm_owner = acc\<rparr>) \<longrightarrow>
       (\<exists>b'. delete_metadata cfg env origin key sig valid_before (st, b) =
               Inr (st(key_hash (md_crypto cfg) key := None), b') \<and> held b' acc + unat d = held b acc))"
proof -
  have "md_inv held (Map.empty, b\<^sub>0)" using start by (simp add: md_inv_def deposits_def fun_eq_iff)
  from md_run_inv [OF currency this, of cs] have inv: "md_inv held (st, b)" by (simp add: run)
  have "\<exists>b'. delete_metadata cfg env origin key sig valid_before (st, b) =
      Inr (st(key_hash (md_crypto cfg) key := None), b') \<and> held b' acc + unat d = held b acc"
    if e: "st (key_hash (md_crypto cfg) key) = Some (md, acc, d)" and ok: "md_signed cfg origin = Some acc"
      "current_time env \<le> valid_before"
      "verify_signature (md_crypto cfg) sig key (encode_message (md_crypto cfg)
         \<lparr>mm_cross_chain_pub_key = key, mm_metadata = None, mm_genesis_utxo = md_genesis_utxo cfg,
          mm_valid_before = valid_before, mm_owner = acc\<rparr>)"
    for env origin key sig valid_before md acc d
  proof -
    from release_entry [OF currency inv e] obtain b' where
      "cur_release (md_currency cfg) acc d b = Inr b'" "held b' acc + unat d = held b acc" .
    then show ?thesis using e ok by (intro exI [of _ b']) (simp add: delete_Inr_iff)
  qed
  then show ?thesis using inv by (auto simp: md_inv_def)
qed

theorem metadata_deposits_conserved_witness:
  "\<exists>st b. run_calls (md_dispatch demo_md_config)
      [UpsertMetadata \<lparr>current_time = 5, hold_amount = 7\<rparr> 1 3 [9, 1, 3] [9] 10] (Map.empty, \<lambda>_. 0) = (st, b) \<and>
     b = deposits st \<and>
     (\<exists>b'. delete_metadata demo_md_config \<lparr>current_time = 6, hold_amount = 8\<rparr> 1 [9] [9, 1] 10 (st, b) =
        Inr (st([9] := None), b') \<and> b' 1 + 7 = b 1)"
proof -
  let ?s = "([[9] \<mapsto> (3, 1, 7)] :: bytes \<rightharpoonup> nat \<times> nat \<times> u128, (\<lambda>_. 0)(1 := 7) :: nat \<Rightarrow> nat)"
  have run: "run_calls (md_dispatch demo_md_config)
      [UpsertMetadata \<lparr>current_time = 5, hold_amount = 7\<rparr> 1 3 [9, 1, 3] [9] 10] (Map.empty, \<lambda>_. 0) = ?s"
    by (simp add: upsert_metadata_def hold_deposit_def demo_md_config_def demo_currency_def Let_def ensure_def)
  have cur: "hold_currency_ok (md_currency demo_md_config) (\<lambda>b. b)" using demo_currency_ok by (simp add: demo_md_config_def)
  note conserved = metadata_deposits_conserved [OF cur refl run]
  have "\<exists>b'. delete_metadata demo_md_config \<lparr>current_time = 6, hold_amount = 8\<rparr> 1 [9] [9, 1] 10 ?s =
        Inr ((fst ?s)([9] := None), b') \<and> b' 1 + 7 = snd ?s 1"
    using conjunct2 [OF conserved, rule_format, of "[9]" 3 1 7 1 "\<lparr>current_time = 6, hold_amount = 8\<rparr>" 10 "[9, 1]"]
    by (simp add: demo_md_config_def)
  with run conjunct1 [OF conserved] show ?thesis unfolding fst_conv snd_conv by blast
qed



end
