(* ===== verification/Address_Assoc.thy ===== *)
theory Address_Assoc
  imports Guarded_Storage
begin

text \<open>
  Address associations, \<open>toolkit/address-associations/pallet/src/lib.rs\<close>. The currency of the runtime is a
  \<open>burn_from\<close> acting on a state \<open>'b\<close>; \<open>burn_currency_ok\<close> states the documented behaviour of the exact burn:
  when it succeeds it takes exactly the amount from the account's balance. The handler of new
  associations is a function on its own state \<open>'h\<close>. A call that fails is rolled back, the burn included.
\<close>

definition burn_currency_ok :: "('acc \<Rightarrow> u128 \<Rightarrow> 'b \<Rightarrow> 'e + 'b) \<Rightarrow> ('b \<Rightarrow> 'acc \<Rightarrow> nat) \<Rightarrow> bool" where
  "burn_currency_ok burn balance \<longleftrightarrow>
     (\<forall>acc amount b b'. burn acc amount b = Inr b' \<longrightarrow>
        unat amount \<le> balance b acc \<and> balance b' = (balance b)(acc := balance b acc - unat amount))"

record 'addr association_message =
  am_stake_public_key :: bytes
  am_partnerchain_address :: 'addr
  am_genesis_utxo :: utxo_id

record ('o, 'acc, 'addr, 'b, 'e, 'h) aa_config =
  aa_signed :: "'o \<Rightarrow> 'acc option"
  aa_genesis_utxo :: utxo_id
  burn_from :: "'acc \<Rightarrow> u128 \<Rightarrow> 'b \<Rightarrow> 'e + 'b"
  burn_amount :: u128
  on_new_association :: "'addr \<Rightarrow> bytes \<Rightarrow> 'h \<Rightarrow> 'h"
  aa_crypto :: "'addr association_message crypto"

text \<open>The no-op handler \<open>()\<close>.\<close>

definition no_association_handler :: "'addr \<Rightarrow> bytes \<Rightarrow> 'h \<Rightarrow> 'h" where
  "no_association_handler partner_chain_address main_chain_key_hash h = h"

datatype aa_error = AaBadOrigin | MainchainKeyAlreadyAssociated | AaInvalidMainchainSignature | AaInsufficientBalance

record ('addr, 'b, 'h) aa_state =
  address_associations :: "bytes \<rightharpoonup> 'addr"
  aa_balances :: 'b
  aa_handler :: 'h

definition associate_address ::
  "('o, 'acc, 'addr, 'b, 'e, 'h) aa_config \<Rightarrow> 'o \<Rightarrow> 'addr \<Rightarrow> bytes \<Rightarrow> bytes \<Rightarrow>
   ('addr, 'b, 'h) aa_state \<Rightarrow> aa_error + ('addr, 'b, 'h) aa_state" where
  "associate_address cfg origin partnerchain_address signature stake_public_key s =
     try_bind (ok_or (aa_signed cfg origin) AaBadOrigin) (\<lambda>origin_account_id.
     let stake_key_hash = key_hash (aa_crypto cfg) stake_public_key in
     try_bind (ensure (address_associations s stake_key_hash = None) MainchainKeyAlreadyAssociated) (\<lambda>_.
     try_bind (map_err (\<lambda>_. AaInsufficientBalance) (burn_from cfg origin_account_id (burn_amount cfg) (aa_balances s))) (\<lambda>b.
     let address_association_message = \<lparr>am_stake_public_key = stake_public_key,
           am_partnerchain_address = partnerchain_address, am_genesis_utxo = aa_genesis_utxo cfg\<rparr>;
         is_valid_signature = verify_signature (aa_crypto cfg) signature stake_public_key
           (encode_message (aa_crypto cfg) address_association_message)
     in
     try_bind (ensure is_valid_signature AaInvalidMainchainSignature) (\<lambda>_.
     Inr \<lparr>address_associations = (address_associations s)(stake_key_hash \<mapsto> partnerchain_address), aa_balances = b,
          aa_handler = on_new_association cfg partnerchain_address stake_key_hash (aa_handler s)\<rparr>))))"

definition get_partner_chain_address_for ::
  "('o, 'acc, 'addr, 'b, 'e, 'h) aa_config \<Rightarrow> bytes \<Rightarrow> ('addr, 'b, 'h) aa_state \<Rightarrow> 'addr option" where
  "get_partner_chain_address_for cfg stake_public_key s =
     address_associations s (key_hash (aa_crypto cfg) stake_public_key)"

record ('o, 'addr) aa_call =
  ac_origin :: 'o
  ac_address :: 'addr
  ac_signature :: bytes
  ac_key :: bytes

definition aa_dispatch ::
  "('o, 'acc, 'addr, 'b, 'e, 'h) aa_config \<Rightarrow> ('o, 'addr) aa_call \<Rightarrow> ('addr, 'b, 'h) aa_state \<Rightarrow> aa_error + ('addr, 'b, 'h) aa_state" where
  "aa_dispatch cfg c = associate_address cfg (ac_origin c) (ac_address c) (ac_signature c) (ac_key c)"

definition call_hash :: "('o, 'acc, 'addr, 'b, 'e, 'h) aa_config \<Rightarrow> ('o, 'addr) aa_call \<Rightarrow> bytes" where
  "call_hash cfg c = key_hash (aa_crypto cfg) (ac_key c)"

definition call_signed :: "('o, 'acc, 'addr, 'b, 'e, 'h) aa_config \<Rightarrow> ('o, 'addr) aa_call \<Rightarrow> bool" where
  "call_signed cfg c \<longleftrightarrow> aa_signed cfg (ac_origin c) \<noteq> None \<and>
     verify_signature (aa_crypto cfg) (ac_signature c) (ac_key c) (encode_message (aa_crypto cfg)
       \<lparr>am_stake_public_key = ac_key c, am_partnerchain_address = ac_address c, am_genesis_utxo = aa_genesis_utxo cfg\<rparr>)"

definition calls_of :: "('o, 'acc, 'addr, 'b, 'e, 'h) aa_config \<Rightarrow> 'acc \<Rightarrow> ('o, 'addr) aa_call list \<Rightarrow> ('o, 'addr) aa_call list" where
  "calls_of cfg acc cs = filter (\<lambda>c. aa_signed cfg (ac_origin c) = Some acc) cs"

section \<open>Every association is signed for, paid for and permanent\<close>

lemma aa_dispatch_Inr_iff:
  "aa_dispatch cfg c s = Inr s' \<longleftrightarrow>
     (\<exists>acc b. aa_signed cfg (ac_origin c) = Some acc \<and> address_associations s (call_hash cfg c) = None \<and>
        burn_from cfg acc (burn_amount cfg) (aa_balances s) = Inr b \<and> call_signed cfg c \<and>
        s' = \<lparr>address_associations = (address_associations s)(call_hash cfg c \<mapsto> ac_address c), aa_balances = b,
              aa_handler = on_new_association cfg (ac_address c) (call_hash cfg c) (aa_handler s)\<rparr>)"
  by (auto simp: aa_dispatch_def associate_address_def Let_def call_hash_def call_signed_def)

interpretation aa: guarded_storage "aa_dispatch cfg" address_associations
  "\<lambda>c k old new. call_signed cfg c \<and> call_hash cfg c = k \<and> old = None \<and> new = Some (ac_address c)" for cfg
  by unfold_locales (auto simp: aa_dispatch_Inr_iff split: if_splits)

definition assoc_list :: "('o, 'acc, 'addr, 'b, 'e, 'h) aa_config \<Rightarrow> ('o, 'addr) aa_call list \<Rightarrow> (bytes \<times> 'addr) list" where
  "assoc_list cfg cs = map (\<lambda>c. (call_hash cfg c, ac_address c)) cs"

lemma assoc_list_simps [simp]:
  "assoc_list cfg [] = []" "assoc_list cfg (c # cs) = (call_hash cfg c, ac_address c) # assoc_list cfg cs"
  by (simp_all add: assoc_list_def)

lemma aa_run_history:
  assumes "ys = accepted (aa_dispatch cfg) cs s" and "s' = run_calls (aa_dispatch cfg) cs s"
  shows "distinct (map fst (assoc_list cfg ys)) \<and> fst ` set (assoc_list cfg ys) \<inter> dom (address_associations s) = {} \<and>
    address_associations s' = address_associations s ++ map_of (assoc_list cfg ys) \<and>
    list_all (call_signed cfg) ys \<and>
    aa_handler s' = fold (\<lambda>(k, addr). on_new_association cfg addr k) (assoc_list cfg ys) (aa_handler s)"
  using assms
proof (induction cs arbitrary: s ys)
  case (Cons c cs)
  show ?case
  proof (cases "aa_dispatch cfg c s")
    case (Inl e)
    then show ?thesis using Cons by simp
  next
    case (Inr r)
    let ?zs = "accepted (aa_dispatch cfg) cs r"
    have IH: "distinct (map fst (assoc_list cfg ?zs))"
      "fst ` set (assoc_list cfg ?zs) \<inter> dom (address_associations r) = {}"
      "address_associations s' = address_associations r ++ map_of (assoc_list cfg ?zs)"
      "list_all (call_signed cfg) ?zs"
      "aa_handler s' = fold (\<lambda>(k, addr). on_new_association cfg addr k) (assoc_list cfg ?zs) (aa_handler r)"
      using Cons.IH [of ?zs r] Cons.prems(2) Inr by simp_all
    from Inr obtain b where r: "address_associations s (call_hash cfg c) = None" "call_signed cfg c"
      "r = \<lparr>address_associations = (address_associations s)(call_hash cfg c \<mapsto> ac_address c), aa_balances = b,
              aa_handler = on_new_association cfg (ac_address c) (call_hash cfg c) (aa_handler s)\<rparr>"
      unfolding aa_dispatch_Inr_iff by blast
    have fresh: "call_hash cfg c \<notin> fst ` set (assoc_list cfg ?zs)" using IH(2) r(3) by auto
    then have "map_of (assoc_list cfg ?zs) (call_hash cfg c) = None" by (simp add: map_of_eq_None_iff)
    then have "address_associations s' = address_associations s ++ map_of (assoc_list cfg (c # ?zs))"
      by (auto simp: IH(3) r(3) map_add_def fun_eq_iff split: option.splits)
    moreover have "fst ` set (assoc_list cfg (c # ?zs)) \<inter> dom (address_associations s) = {}"
      using IH(2) r(1,3) by auto
    moreover have "distinct (map fst (assoc_list cfg (c # ?zs)))" "list_all (call_signed cfg) (c # ?zs)"
      using IH(1,4) r(2) fresh by simp_all
    moreover have "aa_handler s' = fold (\<lambda>(k, addr). on_new_association cfg addr k) (assoc_list cfg (c # ?zs)) (aa_handler s)"
      by (simp add: IH(5) r(3))
    moreover have "ys = c # ?zs" using Cons.prems(1) Inr by simp
    ultimately show ?thesis by blast
  qed
qed simp

lemma aa_run_burns:
  assumes "burn_currency_ok (burn_from cfg) balance"
  shows "balance (aa_balances s) acc = balance (aa_balances (run_calls (aa_dispatch cfg) cs s)) acc +
    length (calls_of cfg acc (accepted (aa_dispatch cfg) cs s)) * unat (burn_amount cfg)"
proof (induction cs arbitrary: s)
  case (Cons c cs)
  show ?case
  proof (cases "aa_dispatch cfg c s")
    case (Inr r)
    then obtain a where a: "aa_signed cfg (ac_origin c) = Some a"
      "burn_from cfg a (burn_amount cfg) (aa_balances s) = Inr (aa_balances r)" unfolding aa_dispatch_Inr_iff by auto
    then have "unat (burn_amount cfg) \<le> balance (aa_balances s) a"
      "balance (aa_balances r) = (balance (aa_balances s))(a := balance (aa_balances s) a - unat (burn_amount cfg))"
      using assms unfolding burn_currency_ok_def by blast+
    then have "balance (aa_balances s) acc =
        balance (aa_balances r) acc + (if a = acc then unat (burn_amount cfg) else 0)" by auto
    then show ?thesis using Cons.IH [of r] a(1) by (simp add: Inr calls_of_def)
  next
    case (Inl e)
    then show ?thesis using Cons.IH [of s] by simp
  qed
qed (simp add: calls_of_def)

text \<open>C23: An association, once made, never changes: after any run of calls the storage is the old one extended by
  the accepted calls, each for a key hash that had no association, each carrying a signature by that key of
  its address for this chain. The handler is told of exactly these, in order, and every account has
  paid the burn amount once per association accepted from it, and nothing for the rejected calls.
\<close>

theorem associations_permanent_and_paid:
  assumes "burn_currency_ok (burn_from cfg) balance"
    and "ys = accepted (aa_dispatch cfg) cs s" and "s' = run_calls (aa_dispatch cfg) cs s"
  shows "address_associations s \<subseteq>\<^sub>m address_associations s' \<and>
    address_associations s' = address_associations s ++ map_of (assoc_list cfg ys) \<and>
    distinct (map (call_hash cfg) ys) \<and> list_all (call_signed cfg) ys \<and>
    aa_handler s' = fold (\<lambda>(k, addr). on_new_association cfg addr k) (assoc_list cfg ys) (aa_handler s) \<and>
    (\<forall>acc. balance (aa_balances s) acc =
       balance (aa_balances s') acc + length (calls_of cfg acc ys) * unat (burn_amount cfg))"
proof -
  note history = aa_run_history [OF assms(2,3)]
  have fsts: "map fst (assoc_list cfg ys) = map (call_hash cfg) ys" by (simp add: assoc_list_def)
  have "dom (map_of (assoc_list cfg ys)) \<inter> dom (address_associations s) = {}"
    using history by (simp add: dom_map_of_conv_image_fst)
  then have "address_associations s \<subseteq>\<^sub>m address_associations s ++ map_of (assoc_list cfg ys)"
    by (subst map_add_comm) auto
  then have "address_associations s \<subseteq>\<^sub>m address_associations s'" using history by simp
  moreover have "\<forall>acc. balance (aa_balances s) acc =
       balance (aa_balances s') acc + length (calls_of cfg acc ys) * unat (burn_amount cfg)"
    unfolding assms(2,3) by (intro allI aa_run_burns assms(1))
  ultimately show ?thesis using history unfolding fsts by (elim conjE, intro conjI) assumption+
qed

definition demo_aa_config :: "(nat, nat, nat, nat \<Rightarrow> nat, nat, (nat \<times> bytes) list) aa_config" where
  "demo_aa_config = \<lparr>aa_signed = Some, aa_genesis_utxo = \<lparr>tx_hash = [], utxo_index = 0\<rparr>,
     burn_from = (\<lambda>acc amount b. if unat amount \<le> b acc then Inr (b(acc := b acc - unat amount)) else Inl 0),
     burn_amount = 5, on_new_association = (\<lambda>addr k h. h @ [(addr, k)]),
     aa_crypto = \<lparr>key_hash = (\<lambda>key. key), verify_signature = (\<lambda>sig key msg. sig = key @ msg),
       encode_message = (\<lambda>m. [of_nat (am_partnerchain_address m)])\<rparr>\<rparr>"

theorem associations_permanent_and_paid_witness:
  "let call = (\<lambda>addr sig key. \<lparr>ac_origin = 1, ac_address = addr, ac_signature = sig, ac_key = key\<rparr>);
       s = \<lparr>address_associations = Map.empty, aa_balances = (\<lambda>_. 12), aa_handler = []\<rparr>;
       s' = run_calls (aa_dispatch demo_aa_config) [call 7 [9, 7] [9], call 8 [9, 8] [9], call 8 [] [3]] s
   in address_associations s' [9] = Some 7 \<and> address_associations s' [3] = None \<and> (\<lambda>_. 12) 1 = aa_balances s' 1 + 5"
proof -
  let ?call = "\<lambda>addr sig key. \<lparr>ac_origin = 1, ac_address = addr, ac_signature = sig, ac_key = key\<rparr> :: (nat, nat) aa_call"
  let ?s = "\<lparr>address_associations = Map.empty, aa_balances = (\<lambda>_. 12), aa_handler = []\<rparr> ::
    (nat, nat \<Rightarrow> nat, (nat \<times> bytes) list) aa_state"
  let ?cs = "[?call 7 [9, 7] [9], ?call 8 [9, 8] [9], ?call 8 [] [3]]"
  have burn: "burn_currency_ok (burn_from demo_aa_config) (\<lambda>b. b)"
    by (auto simp: burn_currency_ok_def demo_aa_config_def split: if_splits)
  have acc: "accepted (aa_dispatch demo_aa_config) ?cs ?s = [?call 7 [9, 7] [9]]"
    by (simp add: aa_dispatch_def associate_address_def demo_aa_config_def ensure_def Let_def)
  obtain s' where run: "s' = run_calls (aa_dispatch demo_aa_config) ?cs ?s" by simp
  note paid = associations_permanent_and_paid [OF burn acc [symmetric] run]
  have bal: "\<forall>acc. 12 = aa_balances s' acc +
      length (calls_of demo_aa_config acc [?call 7 [9, 7] [9]]) * unat (burn_amount demo_aa_config)" using paid by simp
  have "length (calls_of demo_aa_config 1 [?call 7 [9, 7] [9]]) * unat (burn_amount demo_aa_config) = 5"
    "map_of (assoc_list demo_aa_config [?call 7 [9, 7] [9]]) = [[9] \<mapsto> 7]"
    by (simp_all add: calls_of_def assoc_list_def call_hash_def demo_aa_config_def)
  then have "address_associations s' [9] = Some 7" "address_associations s' [3] = None" "12 = aa_balances s' 1 + 5"
    using paid bal [rule_format, of 1] by (simp_all del: One_nat_def)
  then show ?thesis unfolding Let_def run by blast
qed

end
