(* ===== verification/Sidechain_Pallet.thy ===== *)
theory Sidechain_Pallet
  imports Domain
begin

text \<open>
  The sidechain pallet, \<open>toolkit/sidechain/pallet/src/lib.rs\<close>, its migration \<open>migrations/v1.rs\<close>, and the
  composition of epoch handlers in \<open>toolkit/sidechain/primitives/src/lib.rs\<close>. A handler acts on its own
  state \<open>'h\<close> and returns a weight; \<open>db_weight\<close> is the runtime's weight of reads and writes. A block is
  given by the reference timestamp of the runtime. A zero epoch duration makes the division panic.
\<close>

unbundle bit_operations_syntax

type_synonym fweight = "u64 \<times> u64"

definition weight_saturating_add :: "fweight \<Rightarrow> fweight \<Rightarrow> fweight" where
  "weight_saturating_add v w = (saturating_add (fst v) (fst w), saturating_add (snd v) (snd w))"

type_synonym 'h epoch_handler = "u64 \<Rightarrow> u64 \<Rightarrow> 'h \<Rightarrow> fweight \<times> 'h"

definition on_new_epoch_unit :: "'h epoch_handler" where
  "on_new_epoch_unit old_epoch new_epoch h = ((0, 0), h)"

text \<open>A tuple of handlers runs them in order and adds their weights.\<close>

definition on_new_epoch_tuple :: "'h epoch_handler \<Rightarrow> 'h epoch_handler list \<Rightarrow> 'h epoch_handler" where
  "on_new_epoch_tuple first rest old_epoch new_epoch h =
     fold (\<lambda>handler (w, h). let (w', h') = handler old_epoch new_epoch h in (weight_saturating_add w w', h')) rest
       (first old_epoch new_epoch h)"

record sidechain_state =
  sc_epoch_number :: "u64 option"
  sc_epoch_duration :: "u64 option"
  sc_slots_per_epoch :: "u32 option"
  sc_genesis_utxo :: "utxo_id option"

definition default_epoch_duration :: u64 where
  "default_epoch_duration = 60000"

definition epoch_duration_millis_of :: "sidechain_state \<Rightarrow> u64" where
  "epoch_duration_millis_of s = (case sc_epoch_duration s of None \<Rightarrow> default_epoch_duration | Some d \<Rightarrow> d)"

definition sc_current_epoch_number :: "u64 \<Rightarrow> sidechain_state \<Rightarrow> u64 exec" where
  "sc_current_epoch_number reference_timestamp_millis s = exec_div reference_timestamp_millis (epoch_duration_millis_of s)"

definition sc_genesis_build :: "utxo_id \<Rightarrow> u64 \<Rightarrow> sidechain_state \<Rightarrow> sidechain_state" where
  "sc_genesis_build utxo duration s = s\<lparr>sc_genesis_utxo := Some utxo, sc_epoch_duration := Some duration\<rparr>"

definition sc_on_initialize ::
  "(nat \<Rightarrow> nat \<Rightarrow> fweight) \<Rightarrow> 'h epoch_handler \<Rightarrow> u64 \<Rightarrow> sidechain_state \<times> 'h \<Rightarrow> (fweight \<times> sidechain_state \<times> 'h) exec" where
  "sc_on_initialize db_weight on_new_epoch reference_timestamp_millis = (\<lambda>(s, h).
     exec_map (\<lambda>real_epoch.
       case sc_epoch_number s of
         Some saved_epoch \<Rightarrow>
           if saved_epoch \<noteq> real_epoch
           then let (w, h') = on_new_epoch saved_epoch real_epoch h
                in (weight_saturating_add w (db_weight 2 1), s\<lparr>sc_epoch_number := Some real_epoch\<rparr>, h')
           else (db_weight 2 0, s, h)
       | None \<Rightarrow> (db_weight 2 1, s\<lparr>sc_epoch_number := Some real_epoch\<rparr>, h))
     (sc_current_epoch_number reference_timestamp_millis s))"

section \<open>The migration from slots to milliseconds\<close>

definition migrate_v0_to_v1 :: "u64 \<Rightarrow> sidechain_state \<Rightarrow> sidechain_state" where
  "migrate_v0_to_v1 slot_duration s =
     (let slots_per_epoch = (case sc_slots_per_epoch s of None \<Rightarrow> 0 | Some n \<Rightarrow> n);
          epoch_duration_millis = ucast slots_per_epoch * slot_duration
      in s\<lparr>sc_epoch_duration := Some epoch_duration_millis\<rparr>)"

text \<open>The hooks of \<open>try-runtime\<close>: big-endian bytes of the old value, compared after the migration.\<close>

definition to_be_bytes :: "u32 \<Rightarrow> bytes" where
  "to_be_bytes n = [ucast (drop_bit 24 n), ucast (drop_bit 16 n), ucast (drop_bit 8 n), ucast n]"

fun from_be_bytes :: "bytes \<Rightarrow> u32 exec" where
  "from_be_bytes [a, b, c, d] = Ret (push_bit 24 (ucast a) OR push_bit 16 (ucast b) OR push_bit 8 (ucast c) OR ucast d)"
| "from_be_bytes _ = Panic"

definition sc_pre_upgrade :: "sidechain_state \<Rightarrow> bytes" where
  "sc_pre_upgrade s = to_be_bytes (case sc_slots_per_epoch s of None \<Rightarrow> 0 | Some n \<Rightarrow> n)"

definition sc_post_upgrade :: "u64 \<Rightarrow> bytes \<Rightarrow> sidechain_state \<Rightarrow> (string + unit) exec" where
  "sc_post_upgrade slot_duration state s =
     exec_map (\<lambda>slots_per_epoch.
       ensure (ucast slots_per_epoch * slot_duration = epoch_duration_millis_of s) ''Corruption'') (from_be_bytes state)"

section \<open>Epochs of a run of blocks\<close>

definition run_blocks ::
  "(nat \<Rightarrow> nat \<Rightarrow> fweight) \<Rightarrow> 'h epoch_handler \<Rightarrow> u64 list \<Rightarrow> sidechain_state \<times> 'h \<Rightarrow> (sidechain_state \<times> 'h) exec" where
  "run_blocks db_weight on_new_epoch = exec_fold (\<lambda>t sh. exec_map snd (sc_on_initialize db_weight on_new_epoch t sh))"

definition transitions :: "u64 list \<Rightarrow> (u64 \<times> u64) list" where
  "transitions es = zip (remdups_adj es) (tl (remdups_adj es))"

definition call_handler :: "'h epoch_handler \<Rightarrow> u64 \<times> u64 \<Rightarrow> 'h \<Rightarrow> 'h" where
  "call_handler on_new_epoch = (\<lambda>(old, new) h. snd (on_new_epoch old new h))"

lemma run_blocks_simps [simp]:
  "run_blocks dbw f [] sh = Ret sh"
  "run_blocks dbw f (t # ts) sh = exec_bind (exec_map snd (sc_on_initialize dbw f t sh)) (run_blocks dbw f ts)"
  by (simp_all add: run_blocks_def)

lemma remdups_adj_head: "\<exists>r. remdups_adj (x # xs) = x # r"
  by (induction xs arbitrary: x) auto

lemma transitions_Cons:
  "transitions (e # e' # es) = (if e = e' then [] else [(e, e')]) @ transitions (e' # es)"
proof -
  obtain r where "remdups_adj (e' # es) = e' # r" using remdups_adj_head [of e' es] by blast
  then show ?thesis unfolding transitions_def remdups_adj.simps(3) by (cases "e = e'") simp_all
qed

lemma on_initialize_step:
  assumes "epoch_duration_millis_of s = d" "d \<noteq> 0"
  shows "exec_map snd (sc_on_initialize dbw f t (s, h)) =
    Ret (s\<lparr>sc_epoch_number := Some (t div d)\<rparr>,
      case sc_epoch_number s of None \<Rightarrow> h | Some e \<Rightarrow> if e = t div d then h else call_handler f (e, t div d) h)"
proof -
  have epoch: "sc_current_epoch_number t s = Ret (t div d)"
    using assms by (simp add: sc_current_epoch_number_def exec_div_def)
  show ?thesis
  proof (cases "sc_epoch_number s")
    case None
    then show ?thesis by (simp add: sc_on_initialize_def epoch)
  next
    case (Some e)
    then have "e = t div d \<Longrightarrow> s\<lparr>sc_epoch_number := Some (t div d)\<rparr> = s" by simp
    with Some show ?thesis by (simp add: sc_on_initialize_def epoch call_handler_def split: prod.splits)
  qed
qed

lemma run_blocks_from:
  assumes "epoch_duration_millis_of s = d" "d \<noteq> 0" "sc_epoch_number s = Some e"
  shows "run_blocks dbw f ts (s, h) =
    Ret (s\<lparr>sc_epoch_number := Some (last (e # map (\<lambda>t. t div d) ts))\<rparr>,
      fold (call_handler f) (transitions (e # map (\<lambda>t. t div d) ts)) h)"
  using assms
proof (induction ts arbitrary: s h e)
  case Nil
  then show ?case by (simp add: transitions_def)
next
  case (Cons t ts)
  let ?s = "s\<lparr>sc_epoch_number := Some (t div d)\<rparr>"
  have "epoch_duration_millis_of ?s = d" using Cons.prems(1) by (simp add: epoch_duration_millis_of_def)
  from Cons.IH [OF this Cons.prems(2), of "t div d"] Cons.prems(3) show ?case
    by (simp add: on_initialize_step [OF Cons.prems(1,2)] transitions_Cons)
qed

lemma from_be_to_be [simp]: "from_be_bytes (to_be_bytes n) = Ret n"
  unfolding to_be_bytes_def from_be_bytes.simps exec.inject
proof (rule bit_word_eqI)
  fix m assume "m < LENGTH(32)"
  then consider "m < 8" | "8 \<le> m" "m < 16" | "16 \<le> m" "m < 24" | "24 \<le> m" "m < 32" by fastforce
  then show "bit (push_bit 24 (ucast (ucast (drop_bit 24 n) :: u8)) OR push_bit 16 (ucast (ucast (drop_bit 16 n) :: u8)) OR
      push_bit 8 (ucast (ucast (drop_bit 8 n) :: u8)) OR ucast (ucast n :: u8) :: u32) m = bit n m"
    by cases (auto simp: bit_or_iff bit_push_bit_iff bit_ucast_iff bit_drop_bit_eq)
qed

lemma zip_tl_ascend: "sorted_wrt (<) xs \<Longrightarrow> list_all (\<lambda>(x, y). x < y) (zip xs (tl xs))"
  by (induction xs rule: induct_list012) auto

lemma sorted_wrt_tl: "sorted_wrt P xs \<Longrightarrow> sorted_wrt P (tl xs)"
  by (cases xs) simp_all

lemma map_snd_zip_tl: "map snd (zip xs (tl xs)) = tl xs"
  by (cases xs) (simp_all add: map_snd_zip_take)

lemma transitions_ascend:
  assumes "sorted es"
  shows "sorted_wrt (<) (map snd (transitions es)) \<and> list_all (\<lambda>(old, new). old < new) (transitions es)"
proof -
  have "sorted_wrt (<) (remdups_adj es)"
    using assms by (induction es rule: remdups_adj.induct) (auto simp: order_less_le)
  then show ?thesis unfolding transitions_def map_snd_zip_tl by (simp add: zip_tl_ascend sorted_wrt_tl)
qed

lemma div_sorted: "sorted ts \<Longrightarrow> sorted (map (\<lambda>t. t div d :: u64) ts)"
  by (rule sorted_map_mono) (simp_all add: mono_on_def word_le_nat_alt unat_div div_le_mono)

definition empty_sidechain_state :: sidechain_state where
  "empty_sidechain_state = \<lparr>sc_epoch_number = None, sc_epoch_duration = None, sc_slots_per_epoch = None, sc_genesis_utxo = None\<rparr>"

text \<open>C24: From genesis, over any blocks, the handlers run exactly at the blocks whose epoch differs from that of the
  block before, with the old and the new epoch, and never for the first block. When the timestamps of the
  blocks do not decrease the epochs announced strictly ascend, so that no epoch starts twice.
\<close>

theorem handlers_run_once_per_epoch:
  assumes "d \<noteq> 0" and "es = map (\<lambda>t. t div d) ts" and "ts \<noteq> []"
  shows "run_blocks dbw f ts (sc_genesis_build utxo d empty_sidechain_state, h) =
      Ret ((sc_genesis_build utxo d empty_sidechain_state)\<lparr>sc_epoch_number := Some (last es)\<rparr>,
        fold (call_handler f) (transitions es) h) \<and>
    (sorted ts \<longrightarrow> sorted_wrt (<) (map snd (transitions es)) \<and> list_all (\<lambda>(old, new). old < new) (transitions es))"
proof -
  let ?s = "sc_genesis_build utxo d empty_sidechain_state"
  obtain t ts' where ts: "ts = t # ts'" using assms(3) by (cases ts) simp_all
  have d: "epoch_duration_millis_of ?s = d" "epoch_duration_millis_of (?s\<lparr>sc_epoch_number := e\<rparr>) = d" for e
    by (simp_all add: epoch_duration_millis_of_def sc_genesis_build_def)
  have "sc_epoch_number ?s = None" by (simp add: sc_genesis_build_def empty_sidechain_state_def)
  then have "run_blocks dbw f ts (?s, h) = Ret (?s\<lparr>sc_epoch_number := Some (last es)\<rparr>, fold (call_handler f) (transitions es) h)"
    using run_blocks_from [OF d(2) assms(1), of _ "t div d" dbw f ts' h]
    by (simp add: ts assms(2) on_initialize_step [OF d(1) assms(1)])
  then show ?thesis using transitions_ascend div_sorted [of ts d] unfolding assms(2) by blast
qed

theorem handlers_run_once_per_epoch_witness:
  "\<exists>s. run_blocks (\<lambda>_ _. (0, 0)) (\<lambda>old new h. ((0, 0), h @ [(old, new)])) [5, 12, 13, 41]
       (sc_genesis_build \<lparr>tx_hash = [], utxo_index = 0\<rparr> 10 empty_sidechain_state, []) = Ret (s, [(0, 1), (1, 4)])"
proof -
  have "transitions (map (\<lambda>t. t div 10) [5, 12, 13, 41]) = [(0, 1), (1, 4)]" by (simp add: transitions_def)
  with handlers_run_once_per_epoch [of 10 _ "[5, 12, 13, 41]" "\<lambda>_ _. (0, 0)" "\<lambda>old new h. ((0, 0), h @ [(old, new)])"
      "\<lparr>tx_hash = [], utxo_index = 0\<rparr>" "[]", OF _ refl]
  show ?thesis by (simp add: call_handler_def)
qed

text \<open>
  The migration passes its own check, and when the epoch duration it stores fits 64 bits the epochs are those
  of the slot-based pallet: the epoch of a timestamp is that of its slot, counted in slots per epoch.
\<close>

theorem migration_keeps_epochs:
  assumes "sc_slots_per_epoch s = Some slots" "slots \<noteq> 0" "slot_duration \<noteq> 0"
    and "unat slots * unat slot_duration < 2 ^ 64"
  shows "sc_post_upgrade slot_duration (sc_pre_upgrade s) (migrate_v0_to_v1 slot_duration s) = Ret (Inr ()) \<and>
    sc_current_epoch_number t (migrate_v0_to_v1 slot_duration s) = Ret (t div slot_duration div ucast slots)"
proof -
  have dur: "unat (ucast slots * slot_duration :: u64) = unat slots * unat slot_duration"
    using assms(4) by (simp add: word_nat_simps)
  then have "ucast slots * slot_duration \<noteq> (0 :: u64)" using assms(2,3) by (simp add: unat_eq_zero flip: unat_eq_zero)
  moreover have "t div (ucast slots * slot_duration) = t div slot_duration div ucast slots"
    by (simp add: word_unat_eq_iff unat_div dur mult.commute [of "unat slots"] div_mult2_eq word_nat_simps)
  ultimately show ?thesis using assms(1)
    by (simp add: sc_post_upgrade_def sc_pre_upgrade_def migrate_v0_to_v1_def sc_current_epoch_number_def
        epoch_duration_millis_of_def exec_div_def Let_def)
qed

theorem migration_keeps_epochs_witness:
  "sc_current_epoch_number 360005 (migrate_v0_to_v1 6000 (empty_sidechain_state\<lparr>sc_slots_per_epoch := Some 60\<rparr>)) = Ret 1"
  using migration_keeps_epochs [of "empty_sidechain_state\<lparr>sc_slots_per_epoch := Some 60\<rparr>" 60 6000 360005] by simp

end
