(* ===== verification/Candidate_Source.thy ===== *)
theory Candidate_Source
  imports Stake_Distribution Block_Source Plutus_Data Committee_Pallet Text_Forms
begin

text \<open>
  Committee selection inputs: the Db-Sync data source \<open>toolkit/data-sources/db-sync/src/candidates/mod.rs\<close> with
  its cache \<open>cached.rs\<close> and the queries of \<open>db_model.rs\<close>, and the Ariadne inherent data provider of
  \<open>toolkit/committee-selection/authority-selection-inherents/src\<close>. The rows that the joins of a query give
  are the parameter \<open>candidate_db\<close>, in any order where the query asks for none; conditions, orders and
  limits are modelled. Both variants of the query for unspent outputs select the same rows, given
  the block a row is consumed in. The key hash is a parameter, the order in which a hash map
  is visited is the parameter \<open>order_groups\<close>, the caches are those of the crate \<open>lru\<close>.
\<close>

section \<open>Rows\<close>

record 'pd token_row =
  tr_policy :: bytes
  tr_name :: bytes
  tr_epoch_no :: u32
  tr_block_no :: u32
  tr_block_index :: u32
  tr_datum :: "'pd option"

record 'pd tx_output_row =
  to_tx_hash :: bytes
  to_index :: u16
  to_block_no :: u32
  to_slot_no :: u64
  to_epoch_no :: u32
  to_block_index :: u32
  to_address :: bytes
  to_datum :: "'pd option"
  to_tx_inputs :: "string list"
  to_consumed_block :: "u32 option"

record 'pd tx_output =
  mo_utxo_id :: utxo_id
  mo_block_no :: u32
  mo_slot_no :: u64
  mo_epoch_no :: u32
  mo_block_index :: u32
  mo_datum :: "'pd option"
  mo_tx_inputs :: "utxo_id list"

record ('pd, 'e) candidate_db =
  cdb_blocks :: "'e + db_block list"
  cdb_tokens :: "'e + 'pd token_row list"
  cdb_outputs :: "'e + 'pd tx_output_row list"
  cdb_stakes :: "'e + (u32 \<times> bytes \<times> u64) list"
  cdb_nonces :: "'e + (u32 \<times> bytes) list"

datatype 'e candidate_error =
    CandSqlxError 'e | CandDecodeError | CandBadRequest u32 mc_epoch_number | CandExpectedDataNotFound string | CandDatumError

fun traverse_sum :: "('a \<Rightarrow> 'e + 'b) \<Rightarrow> 'a list \<Rightarrow> 'e + 'b list" where
  "traverse_sum f [] = Inr []"
| "traverse_sum f (x # xs) = try_bind (f x) (\<lambda>y. try_bind (traverse_sum f xs) (\<lambda>ys. Inr (y # ys)))"

section \<open>Queries\<close>

definition get_latest_block_for_epoch :: "('pd, 'e) candidate_db \<Rightarrow> u32 \<Rightarrow> 'e candidate_error + db_block option" where
  "get_latest_block_for_epoch db epoch =
     try_bind (map_err CandSqlxError (cdb_blocks db)) (\<lambda>rows.
       Inr (max_by_key block_slot_no (filter (\<lambda>b. block_epoch_no b \<le> epoch) rows)))"

text \<open>The block that many blocks below another, when the table has it; integers of the database do not wrap.\<close>

definition get_latest_stable_epoch :: "('pd, 'e) candidate_db \<Rightarrow> u32 \<Rightarrow> 'e candidate_error + u32 option" where
  "get_latest_stable_epoch db k =
     try_bind (map_err CandSqlxError (cdb_blocks db)) (\<lambda>rows.
       case max_by_key (\<lambda>(b, _). block_no b)
         (filter (\<lambda>(b, stable_block). int (unat (block_no b)) - int (unat k) = int (unat (block_no stable_block)))
           (List.product rows rows)) of
         None \<Rightarrow> Inr None
       | Some (_, stable_block) \<Rightarrow> if block_epoch_no stable_block = 0 then Inl CandDecodeError else Inr (Some (block_epoch_no stable_block - 1)))"

definition get_stake_distribution :: "('pd, 'e) candidate_db \<Rightarrow> u32 \<Rightarrow> 'e candidate_error + (bytes \<times> u64) list" where
  "get_stake_distribution db epoch =
     try_bind (map_err CandSqlxError (cdb_stakes db)) (\<lambda>rows.
       let of_epoch = map snd (filter (\<lambda>(e, _). e = epoch) rows)
       in traverse_sum (\<lambda>pool.
            case try_of_nat (\<Sum>(p, amount) \<leftarrow> of_epoch. if p = pool then unat amount else 0) of
              None \<Rightarrow> Inl CandDecodeError
            | Some stake \<Rightarrow> Inr (pool, stake)) (remdups (map fst of_epoch)))"

definition get_token_utxo_for_epoch ::
  "('pd, 'e) candidate_db \<Rightarrow> bytes \<Rightarrow> u32 \<Rightarrow> 'e candidate_error + 'pd token_row option" where
  "get_token_utxo_for_epoch db policy epoch =
     try_bind (map_err CandSqlxError (cdb_tokens db)) (\<lambda>rows.
       Inr (max_by_key (\<lambda>r. (tr_block_no r, tr_block_index r))
         (filter (\<lambda>r. tr_policy r = policy \<and> tr_name r = [] \<and> tr_epoch_no r \<le> epoch) rows)))"

definition get_epoch_nonce :: "('pd, 'e) candidate_db \<Rightarrow> u32 \<Rightarrow> 'e candidate_error + bytes option" where
  "get_epoch_nonce db epoch = try_bind (map_err CandSqlxError (cdb_nonces db)) (\<lambda>rows. Inr (map_of rows epoch))"

definition tx_output_try_from :: "hex_codec \<Rightarrow> 'pd tx_output_row \<Rightarrow> 'e candidate_error + 'pd tx_output" where
  "tx_output_try_from H r =
     try_bind (map_err (\<lambda>_. CandDecodeError) (traverse_sum (utxo_id_from_str H) (to_tx_inputs r))) (\<lambda>tx_inputs.
       Inr \<lparr>mo_utxo_id = \<lparr>tx_hash = to_tx_hash r, utxo_index = to_index r\<rparr>, mo_block_no = to_block_no r,
         mo_slot_no = to_slot_no r, mo_epoch_no = to_epoch_no r, mo_block_index = to_block_index r,
         mo_datum = to_datum r, mo_tx_inputs = tx_inputs\<rparr>)"

definition unspent_at :: "bytes \<Rightarrow> u32 \<Rightarrow> 'pd tx_output_row \<Rightarrow> bool" where
  "unspent_at address block r \<longleftrightarrow> to_address r = address \<and> to_block_no r \<le> block \<and>
     (case to_consumed_block r of None \<Rightarrow> True | Some b \<Rightarrow> b > block)"

definition get_utxos_for_address ::
  "hex_codec \<Rightarrow> ('pd, 'e) candidate_db \<Rightarrow> bytes \<Rightarrow> u32 \<Rightarrow> 'e candidate_error + 'pd tx_output list" where
  "get_utxos_for_address H db address block =
     try_bind (map_err CandSqlxError (cdb_outputs db)) (\<lambda>rows.
       traverse_sum (tx_output_try_from H) (filter (unspent_at address block) rows))"

section \<open>The data source\<close>

record ('pd) cs_env =
  cs_csl :: "'pd csl"
  cs_hex :: hex_codec
  cs_key_types :: key_types
  from_vkey :: "bytes \<Rightarrow> bytes"
  order_groups :: "(bytes \<times> registration_data list) list \<Rightarrow> (bytes \<times> registration_data list) list"

record ariadne_parameters =
  ap_d_parameter :: d_parameter
  ap_permissioned_candidates :: "permissioned_candidate_data list option"

definition get_epoch_of_data_storage :: "mc_epoch_number \<Rightarrow> 'e candidate_error + mc_epoch_number" where
  "get_epoch_of_data_storage epoch_of_data_usage =
     map_err (\<lambda>offset. CandBadRequest offset epoch_of_data_usage) (offset_data_epoch epoch_of_data_usage)"

definition get_ariadne_parameters ::
  "'pd cs_env \<Rightarrow> ('pd, 'e) candidate_db \<Rightarrow> mc_epoch_number \<Rightarrow> bytes \<Rightarrow> bytes \<Rightarrow> 'e candidate_error + ariadne_parameters" where
  "get_ariadne_parameters env db epoch d_parameter_policy permissioned_candidate_policy =
     try_bind (get_epoch_of_data_storage epoch) (\<lambda>epoch.
     try_bind (get_token_utxo_for_epoch db permissioned_candidate_policy epoch) (\<lambda>candidates_output_opt.
     try_bind (get_token_utxo_for_epoch db d_parameter_policy epoch) (\<lambda>d_output_opt.
     try_bind (ok_or d_output_opt (CandExpectedDataNotFound ''DParameter'')) (\<lambda>d_output.
     try_bind (ok_or (tr_datum d_output) (CandExpectedDataNotFound ''DParameter Datum'')) (\<lambda>d_datum.
     try_bind (map_err (\<lambda>_. CandDatumError) (d_param_try_from (cs_csl env) d_datum)) (\<lambda>d_parameter.
     try_bind (case candidates_output_opt of
         None \<Rightarrow> Inr None
       | Some candidates_output \<Rightarrow>
           try_bind (ok_or (tr_datum candidates_output) (CandExpectedDataNotFound ''Permissioned Candidates List Datum'')) (\<lambda>datum.
           try_bind (map_err (\<lambda>_. CandDatumError) (permissioned_try_from (cs_csl env) datum)) (\<lambda>datums.
             Inr (Some (permissioned_data_of (cs_key_types env) datums))))) (\<lambda>permissioned_candidates.
     Inr \<lparr>ap_d_parameter = d_parameter, ap_permissioned_candidates = permissioned_candidates\<rparr>)))))))"

text \<open>A registration as the list of pairs of stake pool key and registration data.\<close>

definition parse_candidate :: "'pd csl \<Rightarrow> 'pd tx_output \<Rightarrow> (utxo_info \<times> register_validator_datum \<times> utxo_id list) option" where
  "parse_candidate C output =
     Option.bind (mo_datum output) (\<lambda>datum.
     Option.bind (ok (register_try_from C datum)) (\<lambda>register_validator_datum.
       Some (\<lparr>ui_utxo_id = mo_utxo_id output, ui_epoch_number = mo_epoch_no output, ui_block_number = mo_block_no output,
         ui_slot_number = mo_slot_no output, ui_tx_index_within_block = mo_block_index output\<rparr>,
         register_validator_datum, mo_tx_inputs output)))"

definition parse_candidates ::
  "'pd csl \<Rightarrow> 'pd tx_output list \<Rightarrow> (utxo_info \<times> register_validator_datum \<times> utxo_id list) list" where
  "parse_candidates C outputs = List.map_filter (parse_candidate C) outputs"

definition registered_candidate ::
  "register_validator_common \<Rightarrow> candidate_keys \<Rightarrow> utxo_info \<Rightarrow> utxo_id list \<Rightarrow> bytes \<times> registration_data" where
  "registered_candidate r keys utxo_info tx_inputs =
     (abs_pub_key (rv_stake_ownership r),
      \<lparr>rd_registration_utxo = rv_registration_utxo r, rd_sidechain_signature = rv_sidechain_signature r,
       rd_mainchain_signature = abs_signature (rv_stake_ownership r), rd_cross_chain_signature = rv_sidechain_signature r,
       rd_sidechain_pub_key = rv_sidechain_pub_key r, rd_cross_chain_pub_key = rv_sidechain_pub_key r,
       rd_utxo_info = utxo_info, rd_tx_inputs = tx_inputs, rd_keys = keys\<rparr>)"

fun convert_candidate :: "key_types \<Rightarrow> utxo_info \<times> register_validator_datum \<times> utxo_id list \<Rightarrow> bytes \<times> registration_data" where
  "convert_candidate K (info, RegisterV0 r aura grandpa, tx_inputs) =
     registered_candidate r [\<lparr>ck_id = aura_id K, ck_bytes = aura\<rparr>, \<lparr>ck_id = grandpa_id K, ck_bytes = grandpa\<rparr>] info tx_inputs"
| "convert_candidate K (info, RegisterV1 r keys, tx_inputs) = registered_candidate r keys info tx_inputs"

definition convert_utxos_to_candidates :: "'pd cs_env \<Rightarrow> 'pd tx_output list \<Rightarrow> (bytes \<times> registration_data) list" where
  "convert_utxos_to_candidates env outputs =
     map (convert_candidate (cs_key_types env)) (parse_candidates (cs_csl env) outputs)"

text \<open>\<open>MainchainAddress::to_string\<close> panics when the bytes are not UTF-8 as \<open>String::from_utf8\<close> accepts it; the
  string is represented by its bytes.\<close>

definition utf8_cont :: "u8 \<Rightarrow> bool" where
  "utf8_cont b \<longleftrightarrow> 0x80 \<le> b \<and> b \<le> 0xBF"

definition utf8_head :: "bytes \<Rightarrow> nat option" where
  "utf8_head bs =
     (case bs of
        [] \<Rightarrow> None
      | b # r \<Rightarrow>
          if b \<le> 0x7F then Some 1
          else if r = [] then None
          else if 0xC2 \<le> b \<and> b \<le> 0xDF \<and> utf8_cont (hd r) then Some 2
          else if 0xE0 \<le> b \<and> b \<le> 0xEF \<and> length r \<ge> 2 \<and> utf8_cont (hd r) \<and> utf8_cont (r ! 1) \<and>
            (b = 0xE0 \<longrightarrow> 0xA0 \<le> hd r) \<and> (b = 0xED \<longrightarrow> hd r \<le> 0x9F) then Some 3
          else if 0xF0 \<le> b \<and> b \<le> 0xF4 \<and> length r \<ge> 3 \<and> utf8_cont (hd r) \<and> utf8_cont (r ! 1) \<and> utf8_cont (r ! 2) \<and>
            (b = 0xF0 \<longrightarrow> 0x90 \<le> hd r) \<and> (b = 0xF4 \<longrightarrow> hd r \<le> 0x8F) then Some 4
          else None)"

function valid_utf8 :: "bytes \<Rightarrow> bool" where
  "valid_utf8 bs = (bs = [] \<or> (case utf8_head bs of None \<Rightarrow> False | Some n \<Rightarrow> valid_utf8 (drop n bs)))"
  by auto
termination
  by (relation "measure length") (auto simp: utf8_head_def split: list.splits if_splits)

declare valid_utf8.simps [simp del]

definition address_to_string :: "bytes \<Rightarrow> bytes exec" where
  "address_to_string address = (if valid_utf8 address then Ret address else Panic)"

definition get_registered_candidates ::
  "'pd cs_env \<Rightarrow> ('pd, 'e) candidate_db \<Rightarrow> u32 \<Rightarrow> bytes \<Rightarrow> ('s, 'e candidate_error, (bytes \<times> registration_data) list) io" where
  "get_registered_candidates env db epoch candidate_address =
     io_bind (io_lift (Ret (get_latest_block_for_epoch db epoch))) (\<lambda>registrations_block_for_epoch.
     io_bind (io_lift (exec_map Inr (address_to_string candidate_address))) (\<lambda>address.
     io_bind (io_lift (Ret (case registrations_block_for_epoch of
         Some block \<Rightarrow> get_utxos_for_address (cs_hex env) db address (block_no block)
       | None \<Rightarrow> Inr []))) (\<lambda>active_utxos.
     io_lift (Ret (Inr (convert_utxos_to_candidates env active_utxos))))))"

text \<open>\<open>into_group_map_by\<close>: one list for each key, in the order of the rows.\<close>

definition group_candidates_by_mc_pub_key :: "(bytes \<times> registration_data) list \<Rightarrow> (bytes \<times> registration_data list) list" where
  "group_candidates_by_mc_pub_key cs =
     map (\<lambda>k. (k, map snd (filter (\<lambda>c. fst c = k) cs))) (remdups (map fst cs))"

definition make_stake_map :: "(bytes \<times> u64) list \<Rightarrow> bytes \<rightharpoonup> u64" where
  "make_stake_map entries = foldl (\<lambda>m (pool, stake). m(pool \<mapsto> stake)) Map.empty entries"

definition get_stake_delegation :: "'pd cs_env \<Rightarrow> (bytes \<times> u64) list \<Rightarrow> bytes \<Rightarrow> u64 option" where
  "get_stake_delegation env entries stake_pool_pub_key =
     (if entries = [] then None
      else Some (case make_stake_map entries (from_vkey env stake_pool_pub_key) of None \<Rightarrow> 0 | Some s \<Rightarrow> s))"

definition get_candidates ::
  "'pd cs_env \<Rightarrow> ('pd, 'e) candidate_db \<Rightarrow> mc_epoch_number \<Rightarrow> bytes \<Rightarrow> ('s, 'e candidate_error, candidate_registrations list) io" where
  "get_candidates env db epoch candidate_address =
     io_bind (io_lift (Ret (get_epoch_of_data_storage epoch))) (\<lambda>epoch.
     io_bind (get_registered_candidates env db epoch candidate_address) (\<lambda>candidates.
     io_bind (io_lift (Ret (get_stake_distribution db epoch))) (\<lambda>stakes.
     io_lift (Ret (Inr (map (\<lambda>(k, rs). \<lparr>cr_stake_pool_public_key = k, cr_registrations = rs,
         cr_stake_delegation = get_stake_delegation env stakes k\<rparr>)
       (order_groups env (group_candidates_by_mc_pub_key candidates))))))))"

definition cand_get_epoch_nonce :: "('pd, 'e) candidate_db \<Rightarrow> mc_epoch_number \<Rightarrow> 'e candidate_error + bytes option" where
  "cand_get_epoch_nonce db epoch = try_bind (get_epoch_of_data_storage epoch) (get_epoch_nonce db)"

record ('s, 'e) candidate_source =
  ds_ariadne_parameters :: "mc_epoch_number \<Rightarrow> bytes \<Rightarrow> bytes \<Rightarrow> ('s, 'e, ariadne_parameters) io"
  ds_candidates :: "mc_epoch_number \<Rightarrow> bytes \<Rightarrow> ('s, 'e, candidate_registrations list) io"
  ds_epoch_nonce :: "mc_epoch_number \<Rightarrow> ('s, 'e, bytes option) io"
  ds_data_epoch :: "mc_epoch_number \<Rightarrow> ('s, 'e, mc_epoch_number) io"

definition candidates_data_source :: "'pd cs_env \<Rightarrow> ('pd, 'e) candidate_db \<Rightarrow> ('s, 'e candidate_error) candidate_source" where
  "candidates_data_source env db = \<lparr>
     ds_ariadne_parameters = (\<lambda>epoch d p. io_lift (Ret (get_ariadne_parameters env db epoch d p))),
     ds_candidates = get_candidates env db,
     ds_epoch_nonce = (\<lambda>epoch. io_lift (Ret (cand_get_epoch_nonce db epoch))),
     ds_data_epoch = (\<lambda>epoch. io_lift (Ret (get_epoch_of_data_storage epoch)))\<rparr>"

section \<open>The cache\<close>

record ('p, 'c) candidates_cache =
  parameters_cache :: 'p
  registrations_cache :: 'c
  highest_seen_stable_epoch :: "mc_epoch_number option"

record ('p, 'c) cache_env =
  parameters_lru :: "(mc_epoch_number \<times> bytes \<times> bytes, ariadne_parameters, 'p) lru"
  registrations_lru :: "(mc_epoch_number \<times> bytes, candidate_registrations list, 'c) lru"
  cc_security_parameter :: u32

definition candidates_cache_new :: "('p, 'c) cache_env \<Rightarrow> nat \<Rightarrow> ('p, 'c) candidates_cache exec" where
  "candidates_cache_new L cache_size =
     (if cache_size = 0 then Panic
      else Ret \<lparr>parameters_cache = lru_new (parameters_lru L) cache_size, registrations_cache = lru_new (registrations_lru L) cache_size,
        highest_seen_stable_epoch = None\<rparr>)"

definition can_use_caching_for_request ::
  "('p, 'c) cache_env \<Rightarrow> ('pd, 'e) candidate_db \<Rightarrow> mc_epoch_number \<Rightarrow> (('p, 'c) candidates_cache, 'e candidate_error, bool) io" where
  "can_use_caching_for_request L db request_epoch =
     io_bind (io_lift (Ret (get_epoch_of_data_storage request_epoch))) (\<lambda>data_epoch c.
       if (case highest_seen_stable_epoch c of None \<Rightarrow> False | Some stable_epoch \<Rightarrow> stable_epoch \<ge> data_epoch)
       then (Ret (Inr True), c)
       else
         case get_latest_stable_epoch db (cc_security_parameter L) of
           Inl e \<Rightarrow> (Ret (Inl e), c)
         | Inr None \<Rightarrow> (Ret (Inr False), c)
         | Inr (Some stable_epoch) \<Rightarrow>
             (Ret (Inr (data_epoch \<le> stable_epoch)), c\<lparr>highest_seen_stable_epoch := Some stable_epoch\<rparr>))"

definition get_ariadne_parameters_with_caching ::
  "('p, 'c) cache_env \<Rightarrow> 'pd cs_env \<Rightarrow> ('pd, 'e) candidate_db \<Rightarrow> mc_epoch_number \<Rightarrow> bytes \<Rightarrow> bytes \<Rightarrow>
   (('p, 'c) candidates_cache, 'e candidate_error, ariadne_parameters) io" where
  "get_ariadne_parameters_with_caching L env db epoch d p c =
     (case lru_get (parameters_lru L) (epoch, d, p) (parameters_cache c) of
        (Some resp, lru) \<Rightarrow> (Ret (Inr resp), c\<lparr>parameters_cache := lru\<rparr>)
      | (None, lru) \<Rightarrow>
          case get_ariadne_parameters env db epoch d p of
            Inl e \<Rightarrow> (Ret (Inl e), c\<lparr>parameters_cache := lru\<rparr>)
          | Inr response \<Rightarrow>
              (Ret (Inr response), c\<lparr>parameters_cache := lru_put (parameters_lru L) (epoch, d, p) response lru\<rparr>))"

definition get_candidates_with_caching ::
  "('p, 'c) cache_env \<Rightarrow> 'pd cs_env \<Rightarrow> ('pd, 'e) candidate_db \<Rightarrow> mc_epoch_number \<Rightarrow> bytes \<Rightarrow>
   (('p, 'c) candidates_cache, 'e candidate_error, candidate_registrations list) io" where
  "get_candidates_with_caching L env db epoch address =
     io_bind (io_lift (exec_map Inr (address_to_string address))) (\<lambda>key c.
       case lru_get (registrations_lru L) (epoch, key) (registrations_cache c) of
         (Some resp, lru) \<Rightarrow> (Ret (Inr resp), c\<lparr>registrations_cache := lru\<rparr>)
       | (None, lru) \<Rightarrow>
           io_bind (get_candidates env db epoch address) (\<lambda>response c.
             (Ret (Inr response), c\<lparr>registrations_cache := lru_put (registrations_lru L) (epoch, key) response (registrations_cache c)\<rparr>))
             (c\<lparr>registrations_cache := lru\<rparr>))"

definition cached_data_source ::
  "('p, 'c) cache_env \<Rightarrow> 'pd cs_env \<Rightarrow> ('pd, 'e) candidate_db \<Rightarrow> (('p, 'c) candidates_cache, 'e candidate_error) candidate_source" where
  "cached_data_source L env db = \<lparr>
     ds_ariadne_parameters = (\<lambda>epoch d p.
       io_bind (can_use_caching_for_request L db epoch) (\<lambda>caching.
         if caching then get_ariadne_parameters_with_caching L env db epoch d p
         else io_lift (Ret (get_ariadne_parameters env db epoch d p)))),
     ds_candidates = (\<lambda>epoch address.
       io_bind (can_use_caching_for_request L db epoch) (\<lambda>caching.
         if caching then get_candidates_with_caching L env db epoch address else get_candidates env db epoch address)),
     ds_epoch_nonce = (\<lambda>epoch. io_lift (Ret (cand_get_epoch_nonce db epoch))),
     ds_data_epoch = (\<lambda>epoch. io_lift (Ret (get_epoch_of_data_storage epoch)))\<rparr>"

end
