(* ===== verification/Candidate_Agreement.thy ===== *)
theory Candidate_Agreement
  imports Candidate_Source
begin

text \<open>
  What nodes agree on: answers of the candidate data source on views of the main chain that agree up to
  a block, for data of an epoch before the epoch of that block. Lists come in any order, so that
  registrations are compared as multisets.
\<close>

section \<open>Lists up to order\<close>

lemma mset_map_via:
  assumes "mset (map f xs) = mset (map f ys)"
    and "\<And>x y. x \<in> set xs \<Longrightarrow> y \<in> set ys \<Longrightarrow> f x = f y \<Longrightarrow> g x = g y"
  shows "mset (map g xs) = mset (map g ys)"
  using assms
proof (induction xs arbitrary: ys)
  case (Cons x xs)
  have "f x \<in> set (map f ys)" using Cons.prems(1) by (metis list.set_intros(1) list.simps(9) mset_eq_setD)
  then obtain us y vs where ys: "ys = us @ y # vs" "f y = f x" by (auto dest: split_list)
  have "mset (map f xs) = mset (map f (us @ vs))" using Cons.prems(1) ys by simp
  moreover have "g a = g b" if "a \<in> set xs" "b \<in> set (us @ vs)" "f a = f b" for a b
    using Cons.prems(2) [of a b] that ys by auto
  ultimately have "mset (map g xs) = mset (map g (us @ vs))" by (rule Cons.IH)
  moreover have "g x = g y" using Cons.prems(2) [of x y] ys by simp
  ultimately show ?case using ys by simp
qed simp

lemma mset_map_filter_cong:
  assumes "mset (map f xs) = mset (map f ys)"
  shows "mset (List.map_filter f xs) = mset (List.map_filter f ys)"
proof -
  have "mset (List.map_filter f zs) = image_mset the (filter_mset (\<lambda>r. r \<noteq> None) (mset (map f zs)))" for zs
    by (induction zs) (auto simp: List.map_filter_simps)
  then show ?thesis by (simp only: assms)
qed

lemma max_by_key_mset:
  assumes "mset xs = mset ys" and inj: "inj_on key (set xs)"
  shows "max_by_key key xs = max_by_key (key :: _ \<Rightarrow> 'k::linorder) ys"
proof (cases "max_by_key key xs")
  case None
  then show ?thesis using assms(1) by (simp add: max_by_key_None_iff)
next
  case (Some x)
  then have "xs \<noteq> []" by auto
  then obtain y where y: "max_by_key key ys = Some y"
    using assms(1) by (cases "max_by_key key ys") (auto simp: max_by_key_None_iff)
  have best: "z \<in> set zs \<and> (\<forall>w \<in> set zs. key w \<le> key z)" if "max_by_key key zs = Some z" for z zs
    using that by (rule max_by_key_Some) auto
  have "set ys = set xs" using assms(1) by (metis mset_eq_setD)
  then have "key x = key y" "x \<in> set xs" "y \<in> set xs" using best [OF Some] best [OF y] by (auto intro: order_antisym)
  then have "x = y" using inj by (blast dest: inj_onD)
  then show ?thesis using Some y by simp
qed

lemma traverse_sum_Inr_iff: "traverse_sum f xs = Inr ys \<longleftrightarrow> map f xs = map Inr ys"
  by (induction xs arbitrary: ys) (auto simp: map_eq_Cons_conv)

lemma traverse_sum_mset:
  assumes "mset (map f xs) = mset (map f ys)" and "traverse_sum f xs = Inr zs"
  obtains ws where "traverse_sum f ys = Inr ws" "mset ws = mset zs"
proof -
  have zs: "map f xs = map Inr zs" using assms(2) by (simp add: traverse_sum_Inr_iff)
  have "set (map f ys) = set (map f xs)" using assms(1) by (metis mset_eq_setD)
  then have "\<forall>r \<in> set (map f ys). \<exists>w. r = Inr w" using zs by auto
  then have ws: "map f ys = map Inr (map (\<lambda>y. projr (f y)) ys)" by (auto simp: comp_def)
  have "mset (map (\<lambda>y. projr (f y)) vs) = image_mset projr (mset (map f vs))" for vs
    by (simp add: image_mset.compositionality comp_def)
  then have "mset (map (\<lambda>y. projr (f y)) ys) = image_mset projr (mset (map f xs))" by (simp only: assms(1))
  also have "\<dots> = mset zs" unfolding zs by (simp add: image_mset.compositionality comp_def)
  finally show thesis using that ws by (simp only: traverse_sum_Inr_iff)
qed

section \<open>Views of the main chain\<close>

record 'pd candidate_view =
  v_blocks :: "db_block list"
  v_tokens :: "'pd token_row list"
  v_outputs :: "'pd tx_output_row list"
  v_stakes :: "(u32 \<times> bytes \<times> u64) list"
  v_nonces :: "(u32 \<times> bytes) list"

definition view_db :: "'pd candidate_view \<Rightarrow> ('pd, 'e) candidate_db" where
  "view_db V = \<lparr>cdb_blocks = Inr (v_blocks V), cdb_tokens = Inr (v_tokens V), cdb_outputs = Inr (v_outputs V),
     cdb_stakes = Inr (v_stakes V), cdb_nonces = Inr (v_nonces V)\<rparr>"

text \<open>What a view is like around a block with number \<open>n\<close> in epoch \<open>E\<close>: later blocks are in that epoch or later, slots and
  positions on the chain identify blocks and outputs, and no transaction has two outputs with one of the tokens.\<close>

definition output_key :: "'pd tx_output_row \<Rightarrow> u32 \<times> u32 \<times> u16" where
  "output_key r = (to_block_no r, to_block_index r, to_index r)"

definition token_key :: "'pd token_row \<Rightarrow> bytes \<times> bytes \<times> u32 \<times> u32" where
  "token_key r = (tr_policy r, tr_name r, tr_block_no r, tr_block_index r)"

definition view_ok :: "u32 \<Rightarrow> u32 \<Rightarrow> 'pd candidate_view \<Rightarrow> bool" where
  "view_ok n E V \<longleftrightarrow>
     (\<forall>b \<in> set (v_blocks V). n < block_no b \<longrightarrow> E \<le> block_epoch_no b) \<and>
     (\<forall>r \<in> set (v_tokens V). n < tr_block_no r \<longrightarrow> E \<le> tr_epoch_no r) \<and>
     inj_on block_slot_no (set (v_blocks V)) \<and> inj_on token_key (set (v_tokens V)) \<and> inj_on output_key (set (v_outputs V))"

definition cut_at :: "u32 \<Rightarrow> 'pd tx_output_row \<Rightarrow> 'pd tx_output_row" where
  "cut_at n r = r\<lparr>to_consumed_block := (case to_consumed_block r of None \<Rightarrow> None | Some b \<Rightarrow> if b \<le> n then Some b else None)\<rparr>"

definition views_agree :: "u32 \<Rightarrow> u32 \<Rightarrow> 'pd candidate_view \<Rightarrow> 'pd candidate_view \<Rightarrow> bool" where
  "views_agree n E V W \<longleftrightarrow>
     mset (filter (\<lambda>b. block_no b \<le> n) (v_blocks V)) = mset (filter (\<lambda>b. block_no b \<le> n) (v_blocks W)) \<and>
     mset (filter (\<lambda>r. tr_block_no r \<le> n) (v_tokens V)) = mset (filter (\<lambda>r. tr_block_no r \<le> n) (v_tokens W)) \<and>
     mset (map (cut_at n) (filter (\<lambda>r. to_block_no r \<le> n) (v_outputs V))) =
       mset (map (cut_at n) (filter (\<lambda>r. to_block_no r \<le> n) (v_outputs W))) \<and>
     mset (filter (\<lambda>(e, _). e < E) (v_stakes V)) = mset (filter (\<lambda>(e, _). e < E) (v_stakes W)) \<and>
     (\<forall>e < E. map_of (v_nonces V) e = map_of (v_nonces W) e)"

lemma views_agreeD:
  assumes "views_agree n E V W"
  shows "mset (filter (\<lambda>b. block_no b \<le> n) (v_blocks V)) = mset (filter (\<lambda>b. block_no b \<le> n) (v_blocks W))"
    and "mset (filter (\<lambda>r. tr_block_no r \<le> n) (v_tokens V)) = mset (filter (\<lambda>r. tr_block_no r \<le> n) (v_tokens W))"
    and "mset (map (cut_at n) (filter (\<lambda>r. to_block_no r \<le> n) (v_outputs V))) =
       mset (map (cut_at n) (filter (\<lambda>r. to_block_no r \<le> n) (v_outputs W)))"
    and "mset (filter (\<lambda>(e, _). e < E) (v_stakes V)) = mset (filter (\<lambda>(e, _). e < E) (v_stakes W))"
    and "e < E \<Longrightarrow> map_of (v_nonces V) e = map_of (v_nonces W) e"
  using assms unfolding views_agree_def by blast+

lemma view_okD:
  assumes "view_ok n E V"
  shows "b \<in> set (v_blocks V) \<Longrightarrow> block_epoch_no b < E \<Longrightarrow> block_no b \<le> n"
    and "r \<in> set (v_tokens V) \<Longrightarrow> tr_epoch_no r < E \<Longrightarrow> tr_block_no r \<le> n"
    and "inj_on block_slot_no (set (v_blocks V))" and "inj_on token_key (set (v_tokens V))"
    and "inj_on output_key (set (v_outputs V))"
  using assms unfolding view_ok_def by (force simp: not_le [symmetric])+

text \<open>Two views agree on the data of an epoch when they agree up to some block of a later epoch.\<close>

definition agree_on :: "mc_epoch_number \<Rightarrow> 'pd candidate_view \<Rightarrow> 'pd candidate_view \<Rightarrow> bool" where
  "agree_on e V W \<longleftrightarrow> (\<exists>n E. e < E \<and> view_ok n E V \<and> view_ok n E W \<and> views_agree n E V W)"

lemma agree_on_mono: "agree_on e V W \<Longrightarrow> e' \<le> e \<Longrightarrow> agree_on e' V W"
  unfolding agree_on_def by (blast intro: order.strict_trans1)

lemma mset_filter_both:
  assumes "mset (filter P xs) = mset (filter P ys)"
    and "\<And>x. x \<in> set xs \<union> set ys \<Longrightarrow> Q x \<Longrightarrow> P x"
  shows "mset (filter Q xs) = mset (filter Q ys)"
proof -
  have "filter Q zs = filter Q (filter P zs)" if "\<And>x. x \<in> set zs \<Longrightarrow> Q x \<Longrightarrow> P x" for zs
    using that by (induction zs) auto
  note sub = this
  have x: "filter Q xs = filter Q (filter P xs)" by (rule sub) (use assms(2) in blast)
  have y: "filter Q ys = filter Q (filter P ys)" by (rule sub) (use assms(2) in blast)
  from arg_cong [OF assms(1), of "filter_mset Q"] show ?thesis by (simp only: x y flip: mset_filter)
qed

lemma latest_block_agrees:
  assumes "e < E" "view_ok n E V" "view_ok n E W" "views_agree n E V W"
  shows "get_latest_block_for_epoch (view_db W) e = (get_latest_block_for_epoch (view_db V) e :: 'e candidate_error + _)"
    and "get_latest_block_for_epoch (view_db V) e = (Inr (Some b) :: 'e candidate_error + _) \<Longrightarrow> block_no b \<le> n"
proof -
  let ?P = "\<lambda>b. block_epoch_no b \<le> e"
  have below: "block_no b \<le> n" if "b \<in> set (v_blocks V) \<union> set (v_blocks W)" "?P b" for b
    using that view_okD(1) [OF assms(2)] view_okD(1) [OF assms(3)] assms(1) by (meson UnE order.strict_trans1)
  have "mset (filter ?P (v_blocks V)) = mset (filter ?P (v_blocks W))"
    by (rule mset_filter_both [OF views_agreeD(1) [OF assms(4)]]) (rule below)
  moreover have "inj_on block_slot_no (set (filter ?P (v_blocks V)))"
    by (rule inj_on_subset [OF view_okD(3) [OF assms(2)]]) auto
  ultimately have "max_by_key block_slot_no (filter ?P (v_blocks V)) = max_by_key block_slot_no (filter ?P (v_blocks W))"
    by (rule max_by_key_mset)
  then show "get_latest_block_for_epoch (view_db W) e = (get_latest_block_for_epoch (view_db V) e :: 'e candidate_error + _)"
    by (simp add: get_latest_block_for_epoch_def view_db_def)
  assume "get_latest_block_for_epoch (view_db V) e = (Inr (Some b) :: 'e candidate_error + _)"
  then have "max_by_key block_slot_no (filter ?P (v_blocks V)) = Some b" by (simp add: get_latest_block_for_epoch_def view_db_def)
  then have "b \<in> set (filter ?P (v_blocks V))" by (rule max_by_key_Some) (auto dest: arg_cong [where f = set])
  then show "block_no b \<le> n" using below by auto
qed

lemma token_utxo_agrees:
  assumes "e < E" "view_ok n E V" "view_ok n E W" "views_agree n E V W"
  shows "get_token_utxo_for_epoch (view_db W) policy e = (get_token_utxo_for_epoch (view_db V) policy e :: 'e candidate_error + _)"
proof -
  let ?P = "\<lambda>r. tr_policy r = policy \<and> tr_name r = [] \<and> tr_epoch_no r \<le> e"
  let ?key = "\<lambda>r. (tr_block_no r, tr_block_index r)"
  have below: "tr_block_no r \<le> n" if "r \<in> set (v_tokens V) \<union> set (v_tokens W)" "?P r" for r
    using that view_okD(2) [OF assms(2)] view_okD(2) [OF assms(3)] assms(1) by (meson UnE order.strict_trans1)
  have "mset (filter ?P (v_tokens V)) = mset (filter ?P (v_tokens W))"
    by (rule mset_filter_both [OF views_agreeD(2) [OF assms(4)]]) (rule below)
  moreover have "inj_on ?key (set (filter ?P (v_tokens V)))"
  proof (rule inj_onI)
    fix x y assume "x \<in> set (filter ?P (v_tokens V))" "y \<in> set (filter ?P (v_tokens V))" "?key x = ?key y"
    then show "x = y" by (intro inj_onD [OF view_okD(4) [OF assms(2)]]) (auto simp: token_key_def)
  qed
  ultimately have "max_by_key ?key (filter ?P (v_tokens V)) = max_by_key ?key (filter ?P (v_tokens W))"
    by (rule max_by_key_mset)
  then show ?thesis by (simp add: get_token_utxo_for_epoch_def view_db_def)
qed

lemma get_ariadne_parameters_agree:
  assumes "offset_data_epoch e = Inr de" "agree_on de V W"
  shows "get_ariadne_parameters (env\<lparr>order_groups := ord\<rparr>) (view_db W) e d p =
    (get_ariadne_parameters env (view_db V) e d p :: 'e candidate_error + _)"
proof -
  obtain n E where *: "de < E" "view_ok n E V" "view_ok n E W" "views_agree n E V W" using assms(2) unfolding agree_on_def by blast
  have "cs_csl (env\<lparr>order_groups := ord\<rparr>) = cs_csl env" "cs_key_types (env\<lparr>order_groups := ord\<rparr>) = cs_key_types env" by simp_all
  then show ?thesis
    unfolding get_ariadne_parameters_def
    by (simp only: get_epoch_of_data_storage_def assms(1) map_err.simps try_bind.simps token_utxo_agrees [OF *])
qed

lemma unspent_cut: "block \<le> n \<Longrightarrow> unspent_at address block (cut_at n r) = unspent_at address block r"
  by (auto simp: unspent_at_def cut_at_def split: option.splits)

lemma tx_output_cut: "tx_output_try_from H (cut_at n r) = tx_output_try_from H r"
  by (simp add: tx_output_try_from_def cut_at_def)

lemma outputs_agree:
  fixes V :: "'pd candidate_view"
  assumes "views_agree n E V W" "block \<le> n"
  shows "mset (map (tx_output_try_from H) (filter (unspent_at address block) (v_outputs V))) =
    mset (map (tx_output_try_from H) (filter (unspent_at address block) (v_outputs W)))"
proof (rule mset_map_via [of "cut_at n"])
  let ?U = "unspent_at address block :: 'pd tx_output_row \<Rightarrow> bool"
  have "map (cut_at n) (filter ?U rs) = filter ?U (map (cut_at n) (filter (\<lambda>r. to_block_no r \<le> n) rs))" for rs
  proof -
    have "filter ?U rs = filter ?U (filter (\<lambda>r. to_block_no r \<le> n) rs)"
      using assms(2) by (simp add: filter_filter) (rule filter_cong, auto simp: unspent_at_def)
    then show ?thesis by (simp add: filter_map comp_def unspent_cut [OF assms(2)])
  qed
  note eq = this
  have "mset (map (cut_at n) (filter ?U rs)) = filter_mset ?U (mset (map (cut_at n) (filter (\<lambda>r. to_block_no r \<le> n) rs)))" for rs
    by (simp only: eq mset_filter)
  then show "mset (map (cut_at n) (filter ?U (v_outputs V))) = mset (map (cut_at n) (filter ?U (v_outputs W)))"
    by (simp only: views_agreeD(3) [OF assms(1)])
next
  fix x y :: "'pd tx_output_row" assume "cut_at n x = cut_at n y"
  then show "tx_output_try_from H x = tx_output_try_from H y" by (metis tx_output_cut)
qed

lemma agree_on_sym: "agree_on e V W \<Longrightarrow> agree_on e W V"
  unfolding agree_on_def views_agree_def by metis

text \<open>Registrations of the candidates, without the order of the lists.\<close>

definition regs_norm :: "candidate_registrations \<Rightarrow> bytes \<times> registration_data multiset \<times> stake_delegation option" where
  "regs_norm cr = (cr_stake_pool_public_key cr, mset (cr_registrations cr), cr_stake_delegation cr)"

definition cands_equiv :: "candidate_registrations list \<Rightarrow> candidate_registrations list \<Rightarrow> bool" where
  "cands_equiv xs ys \<longleftrightarrow> mset (map regs_norm xs) = mset (map regs_norm ys)"

lemma remdups_mset: "mset xs = mset ys \<Longrightarrow> mset (remdups xs) = mset (remdups ys)"
  by (metis mset_eq_setD set_eq_iff_mset_remdups_eq)

lemma stakes_agree:
  fixes V :: "'pd candidate_view"
  assumes "de < E" "views_agree n E V W" and "get_stake_distribution (view_db V) de = (Inr st :: 'e candidate_error + _)"
  obtains st' where "get_stake_distribution (view_db W) de = (Inr st' :: 'e candidate_error + _)"
    "get_stake_delegation env st' = get_stake_delegation env st"
proof -
  define rows where "rows V = map snd (filter (\<lambda>(e, _). e = de) (v_stakes V))" for V :: "'pd candidate_view"
  define total :: "'pd candidate_view \<Rightarrow> bytes \<Rightarrow> 'e candidate_error + bytes \<times> u64" where
    "total V pool = (case try_of_nat (\<Sum>(p, amount) \<leftarrow> rows V. if p = pool then unat amount else 0) of
       None \<Rightarrow> Inl CandDecodeError | Some stake \<Rightarrow> Inr (pool, stake))" for V pool
  have get: "get_stake_distribution (view_db V) de = traverse_sum (total V) (remdups (map fst (rows V)))" for V
    by (simp add: get_stake_distribution_def view_db_def rows_def total_def [abs_def] Let_def)
  have "mset (filter (\<lambda>(e, _). e = de) (v_stakes V)) = mset (filter (\<lambda>(e, _). e = de) (v_stakes W))"
    by (rule mset_filter_both [OF views_agreeD(4) [OF assms(2)]]) (use assms(1) in auto)
  then have rows: "mset (rows V) = mset (rows W)" by (simp add: rows_def)
  have total: "total V = total W"
    unfolding total_def [abs_def] sum_list_map_mset_cong [OF rows] by (rule refl)
  have "mset (map (total V) (remdups (map fst (rows V)))) = mset (map (total V) (remdups (map fst (rows W))))"
    using remdups_mset [of "map fst (rows V)" "map fst (rows W)"] rows by simp
  from traverse_sum_mset [OF this assms(3) [unfolded get]] obtain st' where
    st': "traverse_sum (total V) (remdups (map fst (rows W))) = Inr st'" "mset st' = mset st" .
  have keys: "map fst zs = ks" if "traverse_sum (total V) ks = Inr zs" for ks zs
    using that unfolding traverse_sum_Inr_iff
    by (induction ks arbitrary: zs) (auto simp: total_def split: option.splits)
  have d: "distinct (map fst st)" "distinct (map fst st')"
    using keys [OF st'(1)] keys [OF assms(3) [unfolded get]] by simp_all
  have "make_stake_map zs = map_of (rev zs)" for zs
    by (induction zs rule: rev_induct) (auto simp: make_stake_map_def)
  moreover have "map_of (rev st') = map_of (rev st)"
    using d mset_eq_setD [OF st'(2)] by (intro iffD2 [OF map_of_inject_set]) (simp_all add: rev_map [symmetric])
  moreover have "st' = [] \<longleftrightarrow> st = []" using st'(2) by auto
  ultimately have "get_stake_delegation env st' = get_stake_delegation env st"
    by (auto simp: get_stake_delegation_def fun_eq_iff)
  moreover have "get_stake_distribution (view_db W) de = (Inr st' :: 'e candidate_error + _)" using st'(1) by (simp add: get total)
  ultimately show thesis by (rule that [rotated])
qed

lemma get_registered_Inr:
  fixes db :: "('pd, 'e) candidate_db"
  shows "get_registered_candidates env db epoch address s = (Ret (Inr cs), s') \<longleftrightarrow>
    (\<exists>b utxos. get_latest_block_for_epoch db epoch = Inr b \<and> valid_utf8 address \<and>
       (case b of Some block \<Rightarrow> get_utxos_for_address (cs_hex env) db address (block_no block) | None \<Rightarrow> Inr []) = Inr utxos \<and>
       cs = convert_utxos_to_candidates env utxos \<and> s' = s)"
proof -
  define query where "query = (\<lambda>b :: db_block option. case b of
      Some block \<Rightarrow> get_utxos_for_address (cs_hex env) db address (block_no block) | None \<Rightarrow> Inr [])"
  have "get_registered_candidates env db epoch address s =
      (if valid_utf8 address
       then io_bind (io_lift (Ret (get_latest_block_for_epoch db epoch))) (\<lambda>b. io_bind (io_lift (Ret (query b))) (\<lambda>utxos.
         io_lift (Ret (Inr (convert_utxos_to_candidates env utxos))))) s
       else io_bind (io_lift (Ret (get_latest_block_for_epoch db epoch))) (\<lambda>b. io_lift Panic) s)"
    by (cases "get_latest_block_for_epoch db epoch")
      (simp_all add: get_registered_candidates_def address_to_string_def query_def io_bind_def io_lift_def)
  then show ?thesis unfolding query_def [symmetric] by (auto simp: io_bind_Inr_iff io_lift_Inr_iff)
qed

lemma registered_agree:
  assumes "de < E" "view_ok n E V" "view_ok n E W" "views_agree n E V W"
    and "get_registered_candidates env (view_db V) de address s = (Ret (Inr xs :: 'e candidate_error + _), s1)"
  obtains ys where "get_registered_candidates (env\<lparr>order_groups := ord\<rparr>) (view_db W) de address s' =
      (Ret (Inr ys :: 'e candidate_error + _), s')" "mset ys = mset xs"
proof -
  from assms(5) obtain b utxos where b: "get_latest_block_for_epoch (view_db V) de = (Inr b :: 'e candidate_error + _)"
    and a: "valid_utf8 address"
    and utxos: "(case b of Some block \<Rightarrow> get_utxos_for_address (cs_hex env) (view_db V) address (block_no block) | None \<Rightarrow> Inr []) =
      (Inr utxos :: 'e candidate_error + _)" and xs: "xs = convert_utxos_to_candidates env utxos"
    unfolding get_registered_Inr by blast
  have b': "get_latest_block_for_epoch (view_db W) de = (Inr b :: 'e candidate_error + _)"
    using latest_block_agrees(1) [OF assms(1-4)] b by metis
  have "\<exists>utxos'. (case b of Some block \<Rightarrow> get_utxos_for_address (cs_hex env) (view_db W) address (block_no block) | None \<Rightarrow> Inr []) =
      (Inr utxos' :: 'e candidate_error + _) \<and> mset utxos' = mset utxos"
  proof (cases b)
    case (Some block)
    then have "block_no block \<le> n" using latest_block_agrees(2) [OF assms(1-4)] b by metis
    note agree = outputs_agree [OF assms(4) this]
    have "traverse_sum (tx_output_try_from (cs_hex env)) (filter (unspent_at address (block_no block)) (v_outputs V)) =
        (Inr utxos :: 'e candidate_error + _)"
      using utxos by (simp add: Some get_utxos_for_address_def view_db_def)
    from traverse_sum_mset [OF agree this] show ?thesis
      by (auto simp: Some get_utxos_for_address_def view_db_def)
  qed (use utxos in simp)
  then obtain utxos' where utxos': "(case b of Some block \<Rightarrow> get_utxos_for_address (cs_hex env) (view_db W) address (block_no block) | None \<Rightarrow> Inr []) =
      (Inr utxos' :: 'e candidate_error + _)" "mset utxos' = mset utxos" by blast
  have "mset (convert_utxos_to_candidates (env\<lparr>order_groups := ord\<rparr>) utxos') = mset xs"
    using mset_map_filter_cong [of "parse_candidate (cs_csl env)" utxos' utxos] utxos'(2)
    by (simp add: xs convert_utxos_to_candidates_def parse_candidates_def)
  then show thesis
    by (rule that [rotated]) (unfold get_registered_Inr, use utxos'(1) b' a in \<open>cases b, auto\<close>)
qed

definition order_ok :: "'pd cs_env \<Rightarrow> bool" where
  "order_ok env \<longleftrightarrow> (\<forall>m. mset (order_groups env m) = mset m)"

definition registrations_of ::
  "'pd cs_env \<Rightarrow> (bytes \<Rightarrow> u64 option) \<Rightarrow> (bytes \<times> registration_data) list \<Rightarrow> candidate_registrations list" where
  "registrations_of env stake cs =
     map (\<lambda>(k, rs). \<lparr>cr_stake_pool_public_key = k, cr_registrations = rs, cr_stake_delegation = stake k\<rparr>)
       (order_groups env (group_candidates_by_mc_pub_key cs))"

lemma registrations_of_norm:
  assumes "order_ok env"
  shows "mset (map regs_norm (registrations_of env stake cs)) =
    mset (map (\<lambda>k. (k, image_mset snd (filter_mset (\<lambda>c. fst c = k) (mset cs)), stake k)) (remdups (map fst cs)))"
proof -
  let ?F = "\<lambda>(k, rs). \<lparr>cr_stake_pool_public_key = k, cr_registrations = rs, cr_stake_delegation = stake k\<rparr>"
  have "mset (map regs_norm (registrations_of env stake cs)) =
      image_mset (\<lambda>g. regs_norm (?F g)) (mset (order_groups env (group_candidates_by_mc_pub_key cs)))"
    by (simp add: registrations_of_def image_mset.compositionality comp_def)
  also have "\<dots> = mset (map (\<lambda>g. regs_norm (?F g)) (group_candidates_by_mc_pub_key cs))"
    using assms by (simp add: order_ok_def)
  finally show ?thesis by (simp add: group_candidates_by_mc_pub_key_def regs_norm_def comp_def)
qed

lemma registrations_of_equiv:
  assumes "order_ok env" "order_ok env'" "mset cs = mset cs'"
  shows "cands_equiv (registrations_of env stake cs) (registrations_of env' stake cs')"
  unfolding cands_equiv_def registrations_of_norm [OF assms(1)] registrations_of_norm [OF assms(2)]
  using remdups_mset [of "map fst cs" "map fst cs'"] assms(3) by simp

lemma get_candidates_Inr:
  fixes db :: "('pd, 'e) candidate_db"
  shows "get_candidates env db e address s = (Ret (Inr xs), s') \<longleftrightarrow>
    (\<exists>de cs st. get_epoch_of_data_storage e = (Inr de :: 'e candidate_error + _) \<and> get_registered_candidates env db de address s = (Ret (Inr cs), s') \<and>
       get_stake_distribution db de = Inr st \<and> xs = registrations_of env (get_stake_delegation env st) cs)"
  unfolding get_candidates_def registrations_of_def io_bind_Inr_iff io_lift_Inr_iff exec.inject sum.inject by blast

lemma get_candidates_agree:
  assumes "offset_data_epoch e = Inr de" "agree_on de V W" "order_ok env" "order_ok (env\<lparr>order_groups := ord\<rparr>)"
    and "get_candidates env (view_db V) e address s = (Ret (Inr xs :: 'e candidate_error + _), s1)"
  obtains ys where "get_candidates (env\<lparr>order_groups := ord\<rparr>) (view_db W) e address s' = (Ret (Inr ys :: 'e candidate_error + _), s')"
    "cands_equiv xs ys"
proof -
  let ?env = "env\<lparr>order_groups := ord\<rparr>"
  obtain n E where *: "de < E" "view_ok n E V" "view_ok n E W" "views_agree n E V W" using assms(2) unfolding agree_on_def by blast
  have de: "get_epoch_of_data_storage e = (Inr de :: 'e candidate_error + _)" by (simp add: get_epoch_of_data_storage_def assms(1))
  from assms(5) obtain cs st where cs: "get_registered_candidates env (view_db V) de address s = (Ret (Inr cs :: 'e candidate_error + _), s1)"
    and st: "get_stake_distribution (view_db V) de = (Inr st :: 'e candidate_error + _)"
    and xs: "xs = registrations_of env (get_stake_delegation env st) cs"
    unfolding get_candidates_Inr de by auto
  from registered_agree [OF * cs] obtain cs' where
    cs': "get_registered_candidates ?env (view_db W) de address s' = (Ret (Inr cs' :: 'e candidate_error + _), s')" "mset cs' = mset cs" .
  from stakes_agree [OF *(1,4) st, of ?env] obtain st' where
    st': "get_stake_distribution (view_db W) de = (Inr st' :: 'e candidate_error + _)"
      "get_stake_delegation ?env st' = get_stake_delegation ?env st" .
  have same: "get_stake_delegation ?env st = get_stake_delegation env st" by (simp add: get_stake_delegation_def fun_eq_iff)
  show thesis
  proof (rule that)
    show "get_candidates ?env (view_db W) e address s' =
        (Ret (Inr (registrations_of ?env (get_stake_delegation ?env st') cs') :: 'e candidate_error + _), s')"
      unfolding get_candidates_Inr using de cs'(1) st'(1) by blast
    show "cands_equiv xs (registrations_of ?env (get_stake_delegation ?env st') cs')"
      unfolding xs st'(2) same by (rule registrations_of_equiv [OF assms(3,4) cs'(2) [symmetric]])
  qed
qed

section \<open>The committee does not depend on the order\<close>

definition positions_distinct :: "candidate_registrations list \<Rightarrow> bool" where
  "positions_distinct crs \<longleftrightarrow> (\<forall>cr \<in> set crs. inj_on (\<lambda>rd. ordering_key (rd_utxo_info rd)) (set (cr_registrations cr)))"

lemma select_latest_norm:
  assumes "regs_norm a = regs_norm b" and "inj_on (\<lambda>rd. ordering_key (rd_utxo_info rd)) (set (cr_registrations a))"
  shows "select_latest_valid_candidate E a g = select_latest_valid_candidate E b g"
proof -
  have eq: "cr_stake_pool_public_key a = cr_stake_pool_public_key b" "cr_stake_delegation a = cr_stake_delegation b"
    "mset (cr_registrations a) = mset (cr_registrations b)" using assms(1) by (simp_all add: regs_norm_def)
  have "mset (valid_of E a g) = mset (valid_of E b g)" by (simp add: valid_of_def eq)
  moreover have "inj_on (\<lambda>rd. ordering_key (rd_utxo_info rd)) (set (valid_of E a g))"
    by (rule inj_on_subset [OF assms(2)]) (auto simp: valid_of_def)
  ultimately have "max_by_key (\<lambda>rd. ordering_key (rd_utxo_info rd)) (valid_of E a g) =
      max_by_key (\<lambda>rd. ordering_key (rd_utxo_info rd)) (valid_of E b g)" by (rule max_by_key_mset)
  then show ?thesis unfolding select_latest_valid_candidate_eq eq(1,2) by (simp only:)
qed

lemma filter_trustless_equiv:
  assumes "cands_equiv xs ys" "positions_distinct xs"
  shows "mset (filter_trustless_candidates_registrations E xs g) = mset (filter_trustless_candidates_registrations E ys g)"
proof -
  have "mset (map (\<lambda>cr. select_latest_valid_candidate E cr g) xs) = mset (map (\<lambda>cr. select_latest_valid_candidate E cr g) ys)"
    by (rule mset_map_via [OF assms(1) [unfolded cands_equiv_def]])
      (use assms(2) in \<open>auto simp: positions_distinct_def intro: select_latest_norm\<close>)
  from mset_map_filter_cong [OF this] show ?thesis by (simp add: filter_trustless_candidates_registrations_def)
qed

definition inputs_equiv :: "authority_selection_inputs \<Rightarrow> authority_selection_inputs \<Rightarrow> bool" where
  "inputs_equiv a b \<longleftrightarrow> asi_d_parameter a = asi_d_parameter b \<and> asi_epoch_nonce a = asi_epoch_nonce b \<and>
     asi_permissioned_candidates a = asi_permissioned_candidates b \<and>
     cands_equiv (asi_registered_candidates a) (asi_registered_candidates b)"

lemma select_authorities_equiv:
  assumes "inputs_equiv a b" "positions_distinct (asi_registered_candidates a)"
  shows "select_authorities R U E m g a ep = select_authorities R U E m g b ep"
proof -
  have eqs: "asi_d_parameter a = asi_d_parameter b" "asi_epoch_nonce a = asi_epoch_nonce b"
    "asi_permissioned_candidates a = asi_permissioned_candidates b"
    and "cands_equiv (asi_registered_candidates a) (asi_registered_candidates b)"
    using assms(1) by (simp_all add: inputs_equiv_def)
  note trustless = filter_trustless_equiv [OF this(4) assms(2)]
  show ?thesis
    unfolding select_authorities_def select_candidates_def Let_def eqs
      select_authorities_v2_order_independent [OF trustless refl] by (rule refl)
qed

section \<open>Positions of the registrations\<close>

lemma registered_of_outputs:
  assumes "get_registered_candidates env (view_db V) de address s = (Ret (Inr cs :: 'e candidate_error + _), s')"
    and "c \<in> set cs"
  obtains r out p where "r \<in> set (v_outputs V)" "tx_output_try_from (cs_hex env) r = (Inr out :: 'e candidate_error + _)"
    "parse_candidate (cs_csl env) out = Some p" "c = convert_candidate (cs_key_types env) p"
proof -
  from assms obtain b :: "db_block option" and utxos where
    utxos: "(case b of Some block \<Rightarrow> get_utxos_for_address (cs_hex env) (view_db V) address (block_no block) | None \<Rightarrow> Inr []) =
      (Inr utxos :: 'e candidate_error + _)" and cs: "cs = convert_utxos_to_candidates env utxos"
    unfolding get_registered_Inr by blast
  from assms(2) obtain out p where out: "out \<in> set utxos" "parse_candidate (cs_csl env) out = Some p"
    "c = convert_candidate (cs_key_types env) p"
    by (auto simp: cs convert_utxos_to_candidates_def parse_candidates_def List.map_filter_def)
  from utxos out(1) obtain block where
    "traverse_sum (tx_output_try_from (cs_hex env)) (filter (unspent_at address block) (v_outputs V)) = (Inr utxos :: 'e candidate_error + _)"
    by (cases b) (auto simp: get_utxos_for_address_def view_db_def)
  then have "Inr out \<in> set (map (tx_output_try_from (cs_hex env)) (filter (unspent_at address block) (v_outputs V)) :: ('e candidate_error + _) list)"
    using out(1) by (simp only: traverse_sum_Inr_iff) simp
  then obtain r where "r \<in> set (v_outputs V)" "tx_output_try_from (cs_hex env) r = (Inr out :: 'e candidate_error + _)" by auto
  then show thesis by (rule that [OF _ _ out(2,3)])
qed

lemma output_position:
  assumes "tx_output_try_from H r = (Inr out :: 'e candidate_error + _)" "parse_candidate C out = Some p"
  shows "ordering_key (rd_utxo_info (snd (convert_candidate K p))) = output_key r"
proof -
  obtain info d inputs where p: "p = (info, d, inputs)" by (cases p)
  have "ordering_key info = output_key r"
    using assms unfolding p
    by (auto simp: tx_output_try_from_def parse_candidate_def ordering_key_def output_key_def bind_eq_Some_conv)
  then show ?thesis by (cases d) (simp_all add: p registered_candidate_def)
qed

lemma get_candidates_positions:
  assumes "get_candidates env (view_db V) e address s = (Ret (Inr xs :: 'e candidate_error + _), s')"
    and "inj_on output_key (set (v_outputs V))" and "order_ok env"
  shows "positions_distinct xs"
proof -
  from assms(1) obtain de cs st where cs: "get_registered_candidates env (view_db V) de address s = (Ret (Inr cs :: 'e candidate_error + _), s')"
    and xs: "xs = registrations_of env (get_stake_delegation env st) cs" unfolding get_candidates_Inr by blast
  have inj: "snd c = snd d" if c: "c \<in> set cs" and d: "d \<in> set cs"
    and k: "ordering_key (rd_utxo_info (snd c)) = ordering_key (rd_utxo_info (snd d))" for c d
  proof -
    obtain r out p where r: "r \<in> set (v_outputs V)" "tx_output_try_from (cs_hex env) r = (Inr out :: 'e candidate_error + _)"
      "parse_candidate (cs_csl env) out = Some p" "c = convert_candidate (cs_key_types env) p"
      by (rule registered_of_outputs [OF cs c])
    obtain r' out' p' where r': "r' \<in> set (v_outputs V)" "tx_output_try_from (cs_hex env) r' = (Inr out' :: 'e candidate_error + _)"
      "parse_candidate (cs_csl env) out' = Some p'" "d = convert_candidate (cs_key_types env) p'"
      by (rule registered_of_outputs [OF cs d])
    have "output_key r = output_key r'"
      using k output_position [OF r(2,3)] output_position [OF r'(2,3)] r(4) r'(4) by simp
    then have "r = r'" using assms(2) r(1) r'(1) by (blast dest: inj_onD)
    then show ?thesis using r r' by simp
  qed
  have "set (cr_registrations cr) \<subseteq> snd ` set cs" if "cr \<in> set xs" for cr
  proof -
    have "set (order_groups env m) = set m" for m using assms(3) unfolding order_ok_def by (metis mset_eq_setD)
    then show ?thesis using that by (auto simp: xs registrations_of_def group_candidates_by_mc_pub_key_def)
  qed
  note sub = this
  show ?thesis unfolding positions_distinct_def
  proof (intro ballI inj_onI)
    fix cr x y assume cr: "cr \<in> set xs" "x \<in> set (cr_registrations cr)" "y \<in> set (cr_registrations cr)"
      and k: "ordering_key (rd_utxo_info x) = ordering_key (rd_utxo_info y)"
    obtain c d where "c \<in> set cs" "x = snd c" "d \<in> set cs" "y = snd d" using sub [OF cr(1)] cr(2,3) by blast
    then show "x = y" using inj [of c d] k by simp
  qed
qed

end
