(* ===== verification/Ariadne_Inputs.thy ===== *)
theory Ariadne_Inputs
  imports Candidate_Agreement Mainchain_Epoch
begin

text \<open>
  The Ariadne inherent data provider, \<open>ariadne_inherent_data_provider.rs\<close> and \<open>authority_selection_inputs.rs\<close>
  of \<open>toolkit/committee-selection/authority-selection-inherents/src\<close>. Its data source is the locale
  \<open>selection_source\<close>, interpreted on the Db-Sync data source with and without its cache; the reference answers
  are those of a view of the main chain.
\<close>

section \<open>The provider\<close>

datatype 'e asi_error =
    AriadneParametersQuery mc_epoch_number bytes bytes "string + 'e"
  | GetCandidatesQuery mc_epoch_number bytes 'e
  | GetEpochNonceQuery mc_epoch_number 'e

definition authority_selection_inputs_from_mc_data ::
  "('s, 'e) candidate_source \<Rightarrow> mc_epoch_number \<Rightarrow> main_chain_scripts \<Rightarrow> ('s, 'e asi_error, authority_selection_inputs) io" where
  "authority_selection_inputs_from_mc_data src for_epoch scripts =
     io_bind (io_map_err (\<lambda>err. AriadneParametersQuery for_epoch (d_parameter_policy_id scripts) (permissioned_candidates_policy_id scripts) (Inr err))
       (ds_ariadne_parameters src for_epoch (d_parameter_policy_id scripts) (permissioned_candidates_policy_id scripts))) (\<lambda>response.
     let d_parameter = ap_d_parameter response;
         no_permissioned_candidates_expected = (num_permissioned_candidates d_parameter = 0)
     in
     io_bind (io_lift (Ret (case ap_permissioned_candidates response of
         None \<Rightarrow>
           if no_permissioned_candidates_expected then Inr []
           else Inl (AriadneParametersQuery for_epoch (d_parameter_policy_id scripts) (permissioned_candidates_policy_id scripts)
             (Inl ''Expected Data Not Found: Permissioned Candidates List''))
       | Some permissioned_candidates \<Rightarrow> Inr permissioned_candidates))) (\<lambda>permissioned_candidates.
     io_bind (io_map_err (GetCandidatesQuery for_epoch (committee_candidate_address scripts))
       (ds_candidates src for_epoch (committee_candidate_address scripts))) (\<lambda>registered_candidates.
     io_bind (io_map_err (GetEpochNonceQuery for_epoch) (ds_epoch_nonce src for_epoch)) (\<lambda>epoch_nonce_response.
     io_lift (Ret (Inr \<lparr>asi_d_parameter = d_parameter, asi_permissioned_candidates = permissioned_candidates,
       asi_registered_candidates = registered_candidates,
       asi_epoch_nonce = (case epoch_nonce_response of None \<Rightarrow> [] | Some n \<Rightarrow> n)\<rparr>))))))"

record 'x ariadne_api =
  aapi_next_unset_epoch :: "'x + sc_epoch_number"
  aapi_main_chain_scripts :: "'x + main_chain_scripts"

datatype ('x, 'e) ariadne_idp_error =
    McEpochDerivationError epoch_derivation_error
  | AriadneApiError 'x
  | InputsCreationError "'e asi_error"
  | AriadneDataSourceError 'e

definition mc_epoch_for_next_ariadne_cidp ::
  "'x ariadne_api \<Rightarrow> u64 \<Rightarrow> mainchain_epoch_config \<Rightarrow> u64 \<Rightarrow> (('x, 'e) ariadne_idp_error + mc_epoch_number) exec" where
  "mc_epoch_for_next_ariadne_cidp api sc_epoch_duration_millis epoch_config timestamp_millis =
     (case aapi_next_unset_epoch api of
        Inl e \<Rightarrow> Ret (Inl (AriadneApiError e))
      | Inr next_unset_epoch \<Rightarrow>
          exec_bind
            (if next_unset_epoch = 1
             then exec_map (\<lambda>current_pc_epoch. current_pc_epoch * sc_epoch_duration_millis)
               (exec_div timestamp_millis sc_epoch_duration_millis)
             else Ret (next_unset_epoch * sc_epoch_duration_millis))
            (\<lambda>for_timestamp. exec_map (map_err McEpochDerivationError) (timestamp_to_mainchain_epoch epoch_config for_timestamp)))"

definition ariadne_idp_new ::
  "('s, 'e) candidate_source \<Rightarrow> 'x ariadne_api \<Rightarrow> u64 \<Rightarrow> mainchain_epoch_config \<Rightarrow> u64 \<Rightarrow> mc_epoch_number \<Rightarrow>
   ('s, ('x, 'e) ariadne_idp_error, authority_selection_inputs option) io" where
  "ariadne_idp_new src api sc_epoch_duration_millis mc_epoch_config timestamp_millis mc_reference_epoch =
     io_bind (io_lift (mc_epoch_for_next_ariadne_cidp api sc_epoch_duration_millis mc_epoch_config timestamp_millis)) (\<lambda>for_mc_epoch.
     io_bind (io_map_err AriadneDataSourceError (ds_data_epoch src for_mc_epoch)) (\<lambda>data_epoch.
     io_bind (io_lift (Ret (map_err AriadneApiError (aapi_main_chain_scripts api)))) (\<lambda>scripts.
     if data_epoch < mc_reference_epoch
     then io_bind (io_map_err InputsCreationError (authority_selection_inputs_from_mc_data src for_mc_epoch scripts)) (\<lambda>data.
       io_lift (Ret (Inr (Some data))))
     else io_lift (Ret (Inr None)))))"

definition ariadne_provide_inherent_data :: "authority_selection_inputs option \<Rightarrow> authority_selection_inputs inherent_data" where
  "ariadne_provide_inherent_data data = Inr data"

definition ariadne_api_of :: "('acc, 'id, 'keys) smc_state \<Rightarrow> 'x ariadne_api" where
  "ariadne_api_of st = \<lparr>aapi_next_unset_epoch = Inr (get_next_unset_epoch_number st),
     aapi_main_chain_scripts = Inr (main_chain_scripts_configuration st)\<rparr>"

section \<open>The contract of the data source\<close>

text \<open>What an answer must be, given the reference answer: the same up to order, or no answer when there is none.\<close>

definition matches :: "('a \<Rightarrow> 'a \<Rightarrow> bool) \<Rightarrow> 'a option \<Rightarrow> ('e + 'a) exec \<Rightarrow> bool" where
  "matches eq t r \<longleftrightarrow> (case t of None \<Rightarrow> \<forall>a. r \<noteq> Ret (Inr a) | Some a \<Rightarrow> \<exists>b. r = Ret (Inr b) \<and> eq a b)"

locale selection_source =
  fixes src :: "('s, 'e) candidate_source"
    and inv :: "'s \<Rightarrow> bool"
    and final :: "mc_epoch_number \<Rightarrow> bool"
    and params :: "mc_epoch_number \<Rightarrow> bytes \<Rightarrow> bytes \<Rightarrow> ariadne_parameters option"
    and cands :: "mc_epoch_number \<Rightarrow> bytes \<Rightarrow> candidate_registrations list option"
    and nonce :: "mc_epoch_number \<Rightarrow> bytes option option"
  assumes data_epoch: "ds_data_epoch src e s = (r1, s') \<Longrightarrow> inv s \<Longrightarrow> inv s' \<and> matches (=) (ok (offset_data_epoch e)) r1"
    and params: "ds_ariadne_parameters src e d p s = (r2, s') \<Longrightarrow> inv s \<Longrightarrow> offset_data_epoch e = Inr de \<Longrightarrow> final de \<Longrightarrow>
      inv s' \<and> matches (=) (params e d p) r2"
    and cands: "ds_candidates src e a s = (r3, s') \<Longrightarrow> inv s \<Longrightarrow> offset_data_epoch e = Inr de \<Longrightarrow> final de \<Longrightarrow>
      inv s' \<and> matches cands_equiv (cands e a) r3"
    and nonce: "ds_epoch_nonce src e s = (r4, s') \<Longrightarrow> inv s \<Longrightarrow> offset_data_epoch e = Inr de \<Longrightarrow> final de \<Longrightarrow>
      inv s' \<and> matches (=) (nonce e) r4"

definition spec_inputs ::
  "(mc_epoch_number \<Rightarrow> bytes \<Rightarrow> bytes \<Rightarrow> ariadne_parameters option) \<Rightarrow>
   (mc_epoch_number \<Rightarrow> bytes \<Rightarrow> candidate_registrations list option) \<Rightarrow> (mc_epoch_number \<Rightarrow> bytes option option) \<Rightarrow>
   mc_epoch_number \<Rightarrow> main_chain_scripts \<Rightarrow> authority_selection_inputs option" where
  "spec_inputs params cands nonce e scripts =
     Option.bind (params e (d_parameter_policy_id scripts) (permissioned_candidates_policy_id scripts)) (\<lambda>r.
     Option.bind (case ap_permissioned_candidates r of
         None \<Rightarrow> if num_permissioned_candidates (ap_d_parameter r) = 0 then Some [] else None
       | Some pcs \<Rightarrow> Some pcs) (\<lambda>pcs.
     Option.bind (cands e (committee_candidate_address scripts)) (\<lambda>crs.
     Option.bind (nonce e) (\<lambda>n.
       Some \<lparr>asi_d_parameter = ap_d_parameter r, asi_permissioned_candidates = pcs, asi_registered_candidates = crs,
         asi_epoch_nonce = (case n of None \<Rightarrow> [] | Some n \<Rightarrow> n)\<rparr>))))"

definition spec_idp ::
  "(mc_epoch_number \<Rightarrow> bytes \<Rightarrow> bytes \<Rightarrow> ariadne_parameters option) \<Rightarrow>
   (mc_epoch_number \<Rightarrow> bytes \<Rightarrow> candidate_registrations list option) \<Rightarrow> (mc_epoch_number \<Rightarrow> bytes option option) \<Rightarrow>
   ('y + mc_epoch_number) exec \<Rightarrow> 'x + main_chain_scripts \<Rightarrow> mc_epoch_number \<Rightarrow> authority_selection_inputs option option" where
  "spec_idp params cands nonce for_epoch scripts E =
     (case for_epoch of
        Ret (Inr e) \<Rightarrow>
          Option.bind (ok (offset_data_epoch e)) (\<lambda>de. Option.bind (ok scripts) (\<lambda>scripts.
            if de < E then map_option Some (spec_inputs params cands nonce e scripts) else Some None))
      | _ \<Rightarrow> None)"

lemma io_bind_matches:
  assumes "\<And>r s'. m s = (r, s') \<Longrightarrow> P s' \<and> matches eq t r"
    and "\<And>a b s'. t = Some a \<Longrightarrow> eq a b \<Longrightarrow> P s' \<Longrightarrow> matches eq' (F a) (fst (f b s'))"
  shows "matches eq' (Option.bind t F) (fst (io_bind (io_map_err g m) f s))"
proof -
  obtain r s' where m: "m s = (r, s')" by fastforce
  note r = assms(1) [OF m]
  show ?thesis
  proof (cases t)
    case None
    then show ?thesis using r m
      by (auto simp: matches_def io_bind_def io_map_err_def exec_map_Ret_iff split: exec.splits sum.splits)
  next
    case (Some a)
    then obtain b where "r = Ret (Inr b)" "eq a b" using r by (auto simp: matches_def)
    then show ?thesis using assms(2) [OF Some, of b s'] r m by (simp add: Some io_bind_def io_map_err_def)
  qed
qed

lemma io_bind_lift_matches:
  assumes "ok r = t" and "\<And>a. t = Some a \<Longrightarrow> matches eq' (F a) (fst (f a s))"
  shows "matches eq' (Option.bind t F) (fst (io_bind (io_lift (Ret r)) f s))"
  using assms by (cases r) (auto simp: matches_def io_bind_def io_lift_def)

context selection_source
begin

lemma inputs_match:
  assumes inv: "inv s" and e: "offset_data_epoch e = Inr de" "final de"
  shows "matches inputs_equiv (spec_inputs params cands nonce e scripts)
    (fst (authority_selection_inputs_from_mc_data src e scripts s))"
  unfolding authority_selection_inputs_from_mc_data_def spec_inputs_def Let_def
proof (rule io_bind_matches [where P = inv and eq = "(=)"], goal_cases)
  case (1 r s')
  then show ?case using params [OF 1 inv e] by simp
next
  case (2 a b s')
  note inv' = 2(3)
  show ?case unfolding 2(2)
  proof (rule io_bind_lift_matches, goal_cases)
    case 1
    show ?case by (simp split: option.splits)
  next
    case (2 pcs)
    show ?case
    proof (rule io_bind_matches [where P = inv and eq = cands_equiv], goal_cases)
      case (1 r s'')
      then show ?case using cands [OF 1 inv' e] by simp
    next
      case (2 crs crs' s'')
      show ?case
      proof (rule io_bind_matches [where P = inv and eq = "(=)"], goal_cases)
        case (1 r s3)
        then show ?case using nonce [OF 1 2(3) e] by simp
      next
        case (2 n n' s3)
        then show ?case using \<open>cands_equiv crs crs'\<close> by (simp add: matches_def io_lift_def inputs_equiv_def)
      qed
    qed
  qed
qed

lemma idp_match:
  assumes inv: "inv s" and final: "\<And>de. de < E \<Longrightarrow> final de"
  shows "matches (rel_option inputs_equiv)
    (spec_idp params cands nonce (mc_epoch_for_next_ariadne_cidp api d cfg t :: (('x, 'e) ariadne_idp_error + _) exec)
      (aapi_main_chain_scripts api) E)
    (fst (ariadne_idp_new src api d cfg t E s))"
proof (cases "mc_epoch_for_next_ariadne_cidp api d cfg t :: (('x, 'e) ariadne_idp_error + _) exec")
  case (Ret r)
  show ?thesis
  proof (cases r)
    case (Inr e)
    have start: "io_bind (io_lift (Ret (Inr e))) f s = f e s" for f by (simp add: io_bind_def io_lift_def)
    show ?thesis
      unfolding ariadne_idp_new_def spec_idp_def Ret Inr exec.case sum.case start
    proof (rule io_bind_matches [where P = inv and eq = "(=)"], goal_cases)
      case (1 r s')
      then show ?case using data_epoch [OF 1 inv] by simp
    next
      case (2 de de' s')
      then have e: "offset_data_epoch e = Inr de" "de' = de" by simp_all
      show ?case unfolding e(2)
      proof (rule io_bind_lift_matches, goal_cases)
        case 1
        show ?case by (cases "aapi_main_chain_scripts api") simp_all
      next
        case (2 scripts)
        show ?case
        proof (cases "de < E")
          case True
          have "matches inputs_equiv (spec_inputs params cands nonce e scripts)
              (fst (authority_selection_inputs_from_mc_data src e scripts s'))"
            by (rule inputs_match [OF \<open>inv s'\<close> e(1) final [OF True]])
          then show ?thesis using True
            by (auto simp: matches_def io_bind_def io_map_err_def io_lift_def exec_map_Ret_iff
                split: option.splits prod.splits exec.splits sum.splits)
        qed (simp add: matches_def io_lift_def)
      qed
    qed
  qed (simp add: Ret ariadne_idp_new_def spec_idp_def io_bind_def io_lift_def matches_def)
qed (simp add: ariadne_idp_new_def spec_idp_def io_bind_def io_lift_def matches_def)

end

section \<open>The Db-Sync data source\<close>

definition truth_params :: "'pd cs_env \<Rightarrow> ('pd, 'e) candidate_db \<Rightarrow> mc_epoch_number \<Rightarrow> bytes \<Rightarrow> bytes \<Rightarrow> ariadne_parameters option" where
  "truth_params env db e d p = ok (get_ariadne_parameters env db e d p)"

definition truth_cands :: "'pd cs_env \<Rightarrow> ('pd, 'e) candidate_db \<Rightarrow> mc_epoch_number \<Rightarrow> bytes \<Rightarrow> candidate_registrations list option" where
  "truth_cands env db e a = (case get_candidates env db e a () of (Ret (Inr xs), _) \<Rightarrow> Some xs | _ \<Rightarrow> None)"

definition truth_nonce :: "('pd, 'e) candidate_db \<Rightarrow> mc_epoch_number \<Rightarrow> bytes option option" where
  "truth_nonce db e = ok (cand_get_epoch_nonce db e)"

lemma data_epoch_matches: "matches (=) (ok (offset_data_epoch e)) (Ret (get_epoch_of_data_storage e))"
  by (cases "offset_data_epoch e") (simp_all add: matches_def get_epoch_of_data_storage_def)

lemma get_candidates_matches:
  fixes V :: "'pd candidate_view"
  assumes "offset_data_epoch e = Inr de" "agree_on de V W" "order_ok env" "order_ok (env\<lparr>order_groups := ord\<rparr>)"
  shows "matches cands_equiv (truth_cands env (view_db V :: ('pd, 'e) candidate_db) e a)
    (fst (get_candidates (env\<lparr>order_groups := ord\<rparr>) (view_db W :: ('pd, 'e) candidate_db) e a s))"
proof (cases "truth_cands env (view_db V :: ('pd, 'e) candidate_db) e a")
  case None
  have "fst (get_candidates (env\<lparr>order_groups := ord\<rparr>) (view_db W :: ('pd, 'e) candidate_db) e a s) \<noteq> Ret (Inr ys)" for ys
  proof
    assume "fst (get_candidates (env\<lparr>order_groups := ord\<rparr>) (view_db W :: ('pd, 'e) candidate_db) e a s) = Ret (Inr ys)"
    then obtain s' where ys: "get_candidates (env\<lparr>order_groups := ord\<rparr>) (view_db W :: ('pd, 'e) candidate_db) e a s = (Ret (Inr ys), s')"
      by (metis prod.collapse)
    have "env\<lparr>order_groups := ord, order_groups := order_groups env\<rparr> = env" by simp
    then obtain xs where "get_candidates env (view_db V :: ('pd, 'e) candidate_db) e a () = (Ret (Inr xs), ())"
      using get_candidates_agree [OF assms(1) agree_on_sym [OF assms(2)] assms(4) _ ys, of "order_groups env" "()"] assms(3) by metis
    then show False using None by (simp add: truth_cands_def)
  qed
  then show ?thesis by (simp add: matches_def None)
next
  case (Some xs)
  then have "get_candidates env (view_db V :: ('pd, 'e) candidate_db) e a () = (Ret (Inr xs), ())"
    by (auto simp: truth_cands_def split: prod.splits exec.splits sum.splits)
  from get_candidates_agree [OF assms this, of s] obtain ys where
    "get_candidates (env\<lparr>order_groups := ord\<rparr>) (view_db W :: ('pd, 'e) candidate_db) e a s = (Ret (Inr ys), s)" "cands_equiv xs ys" .
  then show ?thesis by (simp add: Some matches_def)
qed

lemma get_params_matches:
  fixes V :: "'pd candidate_view"
  assumes "offset_data_epoch e = Inr de" "agree_on de V W"
  shows "matches (=) (truth_params env (view_db V :: ('pd, 'e) candidate_db) e d p)
    (Ret (get_ariadne_parameters (env\<lparr>order_groups := ord\<rparr>) (view_db W :: ('pd, 'e) candidate_db) e d p))"
  unfolding get_ariadne_parameters_agree [OF assms] truth_params_def
  by (cases "get_ariadne_parameters env (view_db V :: ('pd, 'e) candidate_db) e d p") (simp_all add: matches_def)

lemma get_nonce_matches:
  fixes V :: "'pd candidate_view"
  assumes "offset_data_epoch e = Inr de" "agree_on de V W"
  shows "matches (=) (truth_nonce (view_db V :: ('pd, 'e) candidate_db) e)
    (Ret (cand_get_epoch_nonce (view_db W :: ('pd, 'e) candidate_db) e))"
proof -
  obtain n E where "de < E" "views_agree n E V W" using assms(2) unfolding agree_on_def by blast
  then have "map_of (v_nonces W) de = map_of (v_nonces V) de" using views_agreeD(5) by metis
  then show ?thesis
    by (simp add: truth_nonce_def cand_get_epoch_nonce_def get_epoch_of_data_storage_def get_epoch_nonce_def
        view_db_def assms(1) matches_def)
qed

interpretation plain: selection_source
  "candidates_data_source (env\<lparr>order_groups := ord\<rparr>) (view_db W :: ('pd, 'e) candidate_db)"
  "\<lambda>_. order_ok env \<and> order_ok (env\<lparr>order_groups := ord\<rparr>)" "\<lambda>de. agree_on de V W"
  "truth_params env (view_db V :: ('pd, 'e) candidate_db)" "truth_cands env (view_db V :: ('pd, 'e) candidate_db)"
  "truth_nonce (view_db V :: ('pd, 'e) candidate_db)" for env ord V W
proof unfold_locales
  fix e a s r3 s' de
  assume "ds_candidates (candidates_data_source (env\<lparr>order_groups := ord\<rparr>) (view_db W :: ('pd, 'e) candidate_db)) e a s = (r3, s')"
    and "order_ok env \<and> order_ok (env\<lparr>order_groups := ord\<rparr>)" "offset_data_epoch e = Inr de" "agree_on de V W"
  moreover from this have "matches cands_equiv (truth_cands env (view_db V :: ('pd, 'e) candidate_db) e a)
      (fst (get_candidates (env\<lparr>order_groups := ord\<rparr>) (view_db W :: ('pd, 'e) candidate_db) e a s))"
    by (intro get_candidates_matches) simp_all
  ultimately show "(order_ok env \<and> order_ok (env\<lparr>order_groups := ord\<rparr>)) \<and>
      matches cands_equiv (truth_cands env (view_db V :: ('pd, 'e) candidate_db) e a) r3"
    by (simp add: candidates_data_source_def)
qed (auto simp: candidates_data_source_def io_lift_def data_epoch_matches get_params_matches get_nonce_matches)

section \<open>The cache\<close>

text \<open>The cache holds only reference answers. \<open>stable_view\<close>: the view agrees with the main chain on every epoch that
  the node has seen or sees as stable, what the security parameter stands for.\<close>

definition cache_entries_ok ::
  "('p, 'c) cache_env \<Rightarrow> ('p \<Rightarrow> ((mc_epoch_number \<times> bytes \<times> bytes) \<times> ariadne_parameters) set) \<Rightarrow>
   ('c \<Rightarrow> ((mc_epoch_number \<times> bytes) \<times> candidate_registrations list) set) \<Rightarrow>
   'pd cs_env \<Rightarrow> ('pd, 'e) candidate_db \<Rightarrow> ('p, 'c) candidates_cache \<Rightarrow> bool" where
  "cache_entries_ok L hp hc env db c \<longleftrightarrow> lru_ok (parameters_lru L) hp \<and> lru_ok (registrations_lru L) hc \<and>
     (\<forall>e d p v. ((e, d, p), v) \<in> hp (parameters_cache c) \<longrightarrow> truth_params env db e d p = Some v) \<and>
     (\<forall>e a xs. ((e, a), xs) \<in> hc (registrations_cache c) \<longrightarrow> (\<exists>ys. truth_cands env db e a = Some ys \<and> cands_equiv ys xs))"

definition stable_view :: "u32 \<Rightarrow> 'pd candidate_view \<Rightarrow> ('pd, 'e) candidate_db \<Rightarrow> 'pd candidate_view \<Rightarrow> mc_epoch_number option \<Rightarrow> bool" where
  "stable_view k V db W seen \<longleftrightarrow>
     (\<exists>r. get_latest_stable_epoch db k = Inr r \<and> (\<forall>se. r = Some se \<longrightarrow> agree_on se V W)) \<and>
     (\<forall>se. seen = Some se \<longrightarrow> agree_on se V W)"

definition cached_inv where
  "cached_inv L hp hc env ord V (db :: ('pd, 'e) candidate_db) W c \<longleftrightarrow>
     order_ok env \<and> order_ok (env\<lparr>order_groups := ord\<rparr>) \<and>
     cache_entries_ok L hp hc env (view_db V :: ('pd, 'e) candidate_db) c \<and> db = view_db W \<and>
     stable_view (cc_security_parameter L) V db W (highest_seen_stable_epoch c)"

lemma can_use_caching_ok:
  assumes "cached_inv L hp hc env ord V db W c" "offset_data_epoch e = Inr de"
    and "can_use_caching_for_request L db e c = (r, c')"
  obtains b where "r = Ret (Inr b)" "cached_inv L hp hc env ord V db W c'" "b \<Longrightarrow> agree_on de V W"
proof -
  obtain st where st: "get_latest_stable_epoch db (cc_security_parameter L) = Inr st" "\<And>se. st = Some se \<Longrightarrow> agree_on se V W"
    using assms(1) by (auto simp: cached_inv_def stable_view_def)
  have seen: "agree_on se V W" if "highest_seen_stable_epoch c = Some se" for se
    using assms(1) that by (auto simp: cached_inv_def stable_view_def)
  have run: "(r, c') = (if (case highest_seen_stable_epoch c of None \<Rightarrow> False | Some se \<Rightarrow> se \<ge> de) then (Ret (Inr True), c)
      else case st of None \<Rightarrow> (Ret (Inr False), c)
        | Some se \<Rightarrow> (Ret (Inr (de \<le> se)), c\<lparr>highest_seen_stable_epoch := Some se\<rparr>))"
    unfolding assms(3) [symmetric]
    by (simp add: can_use_caching_for_request_def io_bind_def io_lift_def get_epoch_of_data_storage_def assms(2) st(1) split: option.splits)
  show thesis
  proof (cases "case highest_seen_stable_epoch c of None \<Rightarrow> False | Some se \<Rightarrow> se \<ge> de")
    case True
    then obtain se where "highest_seen_stable_epoch c = Some se" "de \<le> se" by (auto split: option.splits)
    then have "agree_on de V W" using seen agree_on_mono by blast
    then show thesis using that [of True] run True assms(1) by simp
  next
    case False
    show thesis
    proof (cases st)
      case None
      then show thesis using that [of False] run False assms(1) by simp
    next
      case (Some se)
      have "cached_inv L hp hc env ord V db W (c\<lparr>highest_seen_stable_epoch := Some se\<rparr>)"
        using assms(1) st(2) Some by (auto simp: cached_inv_def stable_view_def cache_entries_ok_def)
      moreover have "agree_on de V W" if "de \<le> se" using st(2) [OF Some] agree_on_mono that by blast
      ultimately show thesis using that [of "de \<le> se"] run False Some by simp
    qed
  qed
qed

lemma params_with_caching_ok:
  fixes db :: "('pd, 'e) candidate_db"
  assumes inv: "cached_inv L hp hc env ord V db W c" and e: "offset_data_epoch e = Inr de" "agree_on de V W"
    and run: "get_ariadne_parameters_with_caching L (env\<lparr>order_groups := ord\<rparr>) db e d p c = (r, c')"
  shows "cached_inv L hp hc env ord V db W c' \<and> matches (=) (truth_params env (view_db V :: ('pd, 'e) candidate_db) e d p) r"
proof -
  have db: "db = view_db W" and lru: "lru_ok (parameters_lru L) hp"
    and holds: "\<And>e d p v. ((e, d, p), v) \<in> hp (parameters_cache c) \<Longrightarrow> truth_params env (view_db V :: ('pd, 'e) candidate_db) e d p = Some v"
    using inv unfolding cached_inv_def cache_entries_ok_def by blast+
  have keep: "cached_inv L hp hc env ord V db W (c\<lparr>parameters_cache := l\<rparr>)"
    if "\<And>e d p v. ((e, d, p), v) \<in> hp l \<Longrightarrow> truth_params env (view_db V :: ('pd, 'e) candidate_db) e d p = Some v" for l
    using inv that unfolding cached_inv_def cache_entries_ok_def by auto
  obtain hit l where get: "lru_get (parameters_lru L) (e, d, p) (parameters_cache c) = (hit, l)" by fastforce
  have sub: "hp l \<subseteq> hp (parameters_cache c)" using lru get unfolding lru_ok_def by blast
  have kept: "cached_inv L hp hc env ord V db W (c\<lparr>parameters_cache := l\<rparr>)" by (rule keep) (use sub holds in blast)
  show ?thesis
  proof (cases hit)
    case (Some v)
    have "((e, d, p), v) \<in> hp (parameters_cache c)" using lru get Some unfolding lru_ok_def by blast
    then have "truth_params env (view_db V :: ('pd, 'e) candidate_db) e d p = Some v" by (rule holds)
    then show ?thesis using run get Some kept
      by (auto simp: get_ariadne_parameters_with_caching_def matches_def)
  next
    case None
    note m = get_params_matches [where 'e = 'e, OF e, of env d p ord]
    show ?thesis
    proof (cases "get_ariadne_parameters (env\<lparr>order_groups := ord\<rparr>) db e d p")
      case (Inl x)
      then show ?thesis using run get None kept m
        by (auto simp: get_ariadne_parameters_with_caching_def db)
    next
      case (Inr v)
      then have v: "truth_params env (view_db V :: ('pd, 'e) candidate_db) e d p = Some v"
        using m unfolding db by (auto simp: matches_def split: option.splits)
      have "hp (lru_put (parameters_lru L) (e, d, p) v l) \<subseteq> insert ((e, d, p), v) (hp l)"
        using lru unfolding lru_ok_def by blast
      then have "truth_params env (view_db V :: ('pd, 'e) candidate_db) e' d' p' = Some v'"
        if "((e', d', p'), v') \<in> hp (lru_put (parameters_lru L) (e, d, p) v l)" for e' d' p' v'
        using that sub holds v by blast
      from keep [OF this] show ?thesis using run get None Inr v
        by (auto simp: get_ariadne_parameters_with_caching_def matches_def)
    qed
  qed
qed

lemma candidates_with_caching_ok:
  fixes db :: "('pd, 'e) candidate_db"
  assumes inv: "cached_inv L hp hc env ord V db W c" and e: "offset_data_epoch e = Inr de" "agree_on de V W"
    and run: "get_candidates_with_caching L (env\<lparr>order_groups := ord\<rparr>) db e a c = (r, c')"
  shows "cached_inv L hp hc env ord V db W c' \<and> matches cands_equiv (truth_cands env (view_db V :: ('pd, 'e) candidate_db) e a) r"
proof (cases "valid_utf8 a")
  case False
  then have "truth_cands env (view_db V :: ('pd, 'e) candidate_db) e a = None"
    by (auto simp: truth_cands_def get_candidates_Inr get_registered_Inr split: prod.splits exec.splits sum.splits)
  then show ?thesis using run inv False
    by (auto simp: get_candidates_with_caching_def address_to_string_def io_bind_def io_lift_def matches_def)
next
  case True
  let ?truth = "truth_cands env (view_db V :: ('pd, 'e) candidate_db)"
  have db: "db = view_db W" and lru: "lru_ok (registrations_lru L) hc" and order: "order_ok env" "order_ok (env\<lparr>order_groups := ord\<rparr>)"
    and holds: "\<And>e a xs. ((e, a), xs) \<in> hc (registrations_cache c) \<Longrightarrow> \<exists>ys. ?truth e a = Some ys \<and> cands_equiv ys xs"
    using inv unfolding cached_inv_def cache_entries_ok_def by blast+
  have keep: "cached_inv L hp hc env ord V db W (c\<lparr>registrations_cache := l\<rparr>)"
    if "\<And>e a xs. ((e, a), xs) \<in> hc l \<Longrightarrow> \<exists>ys. ?truth e a = Some ys \<and> cands_equiv ys xs" for l
    using inv that unfolding cached_inv_def cache_entries_ok_def by auto
  obtain hit l where get: "lru_get (registrations_lru L) (e, a) (registrations_cache c) = (hit, l)" by fastforce
  have sub: "hc l \<subseteq> hc (registrations_cache c)" using lru get unfolding lru_ok_def by blast
  have kept: "cached_inv L hp hc env ord V db W (c\<lparr>registrations_cache := l\<rparr>)" by (rule keep) (use sub holds in blast)
  let ?c = "c\<lparr>registrations_cache := l\<rparr>"
  have step: "get_candidates_with_caching L (env\<lparr>order_groups := ord\<rparr>) db e a c =
      (case hit of Some resp \<Rightarrow> (Ret (Inr resp), ?c)
       | None \<Rightarrow> io_bind (get_candidates (env\<lparr>order_groups := ord\<rparr>) db e a) (\<lambda>response c.
           (Ret (Inr response), c\<lparr>registrations_cache := lru_put (registrations_lru L) (e, a) response (registrations_cache c)\<rparr>)) ?c)"
    by (simp add: get_candidates_with_caching_def address_to_string_def True io_bind_def [of "io_lift _"] io_lift_def get split: option.splits)
  show ?thesis
  proof (cases hit)
    case (Some xs)
    have "((e, a), xs) \<in> hc (registrations_cache c)" using lru get Some unfolding lru_ok_def by blast
    from holds [OF this] show ?thesis using run kept by (auto simp: step Some matches_def)
  next
    case None
    obtain r1 c1 where q: "get_candidates (env\<lparr>order_groups := ord\<rparr>) db e a ?c = (r1, c1)" by fastforce
    have c1: "c1 = ?c" using q
      by (auto simp: get_candidates_def get_registered_candidates_def io_bind_def io_lift_def split: exec.splits sum.splits prod.splits)
    have m: "matches cands_equiv (?truth e a) r1"
      using get_candidates_matches [where 'e = 'e, OF e order, of a ?c] q by (simp add: db)
    show ?thesis
    proof (cases "\<exists>xs. r1 = Ret (Inr xs)")
      case False
      then have "r = r1 \<and> c' = ?c"
        using run by (auto simp: step None io_bind_def q c1 split: exec.splits sum.splits)
      then show ?thesis using m kept by simp
    next
      case True
      then obtain xs where xs: "r1 = Ret (Inr xs)" by blast
      then obtain ys where ys: "?truth e a = Some ys" "cands_equiv ys xs" using m by (auto simp: matches_def split: option.splits)
      have "hc (lru_put (registrations_lru L) (e, a) xs l) \<subseteq> insert ((e, a), xs) (hc l)"
        using lru unfolding lru_ok_def by blast
      then have "\<exists>ys. ?truth e' a' = Some ys \<and> cands_equiv ys xs'"
        if "((e', a'), xs') \<in> hc (lru_put (registrations_lru L) (e, a) xs l)" for e' a' xs'
        using that sub holds ys by blast
      note new = this
      have "cached_inv L hp hc env ord V db W (c\<lparr>registrations_cache := lru_put (registrations_lru L) (e, a) xs l\<rparr>)"
        by (rule keep, rule new)
      then show ?thesis using run m by (auto simp: step None io_bind_def q c1 xs)
    qed
  qed
qed

lemma bind_can_use:
  assumes "io_bind (can_use_caching_for_request L db e) (\<lambda>caching. if caching then f else g) c = (r, c')"
    and "cached_inv L hp hc env ord V db W c" "offset_data_epoch e = Inr de"
    and "\<And>c1. cached_inv L hp hc env ord V db W c1 \<Longrightarrow> agree_on de V W \<Longrightarrow> f c1 = (r, c') \<Longrightarrow> Q"
    and "\<And>c1. cached_inv L hp hc env ord V db W c1 \<Longrightarrow> g c1 = (r, c') \<Longrightarrow> Q"
  shows Q
proof -
  obtain r1 c1 where q: "can_use_caching_for_request L db e c = (r1, c1)" by fastforce
  from can_use_caching_ok [OF assms(2,3) q] obtain b where b: "r1 = Ret (Inr b)" "cached_inv L hp hc env ord V db W c1"
    "b \<Longrightarrow> agree_on de V W" by blast
  have run: "(if b then f else g) c1 = (r, c')" using assms(1) q b(1) by (simp add: io_bind_def)
  show Q by (cases b) (use run b assms(4) [of c1] assms(5) [of c1] in simp_all)
qed

interpretation cached: selection_source
  "cached_data_source L (env\<lparr>order_groups := ord\<rparr>) (db :: ('pd, 'e) candidate_db)"
  "cached_inv L hp hc env ord V db W" "\<lambda>de. agree_on de V W"
  "truth_params env (view_db V :: ('pd, 'e) candidate_db)" "truth_cands env (view_db V :: ('pd, 'e) candidate_db)"
  "truth_nonce (view_db V :: ('pd, 'e) candidate_db)" for L hp hc env ord V db W
proof unfold_locales
  fix e d p c r c' de
  assume "ds_ariadne_parameters (cached_data_source L (env\<lparr>order_groups := ord\<rparr>) db) e d p c = (r, c')"
    and inv: "cached_inv L hp hc env ord V db W c" and e: "offset_data_epoch e = Inr de" "agree_on de V W"
  then have "io_bind (can_use_caching_for_request L db e) (\<lambda>caching.
      if caching then get_ariadne_parameters_with_caching L (env\<lparr>order_groups := ord\<rparr>) db e d p
      else io_lift (Ret (get_ariadne_parameters (env\<lparr>order_groups := ord\<rparr>) db e d p))) c = (r, c')"
    by (simp add: cached_data_source_def)
  then show "cached_inv L hp hc env ord V db W c' \<and> matches (=) (truth_params env (view_db V :: ('pd, 'e) candidate_db) e d p) r"
  proof (rule bind_can_use [OF _ inv e(1)], goal_cases)
    case (1 c1)
    show ?case by (rule params_with_caching_ok [OF 1(1) e 1(3)])
  next
    case (2 c1)
    then show ?case using get_params_matches [where 'e = 'e, OF e, of env d p ord]
      by (auto simp: io_lift_def cached_inv_def)
  qed
next
  fix e a c r c' de
  assume "ds_candidates (cached_data_source L (env\<lparr>order_groups := ord\<rparr>) db) e a c = (r, c')"
    and inv: "cached_inv L hp hc env ord V db W c" and e: "offset_data_epoch e = Inr de" "agree_on de V W"
  then have "io_bind (can_use_caching_for_request L db e) (\<lambda>caching.
      if caching then get_candidates_with_caching L (env\<lparr>order_groups := ord\<rparr>) db e a
      else get_candidates (env\<lparr>order_groups := ord\<rparr>) db e a) c = (r, c')"
    by (simp add: cached_data_source_def)
  then show "cached_inv L hp hc env ord V db W c' \<and> matches cands_equiv (truth_cands env (view_db V :: ('pd, 'e) candidate_db) e a) r"
  proof (rule bind_can_use [OF _ inv e(1)], goal_cases)
    case (1 c1)
    show ?case by (rule candidates_with_caching_ok [OF 1(1) e 1(3)])
  next
    case (2 c1)
    have "c' = c1" using 2(2)
      by (auto simp: get_candidates_def get_registered_candidates_def io_bind_def io_lift_def split: exec.splits sum.splits prod.splits)
    moreover have "order_ok env" "order_ok (env\<lparr>order_groups := ord\<rparr>)" "db = view_db W" using inv by (auto simp: cached_inv_def)
    ultimately show ?case using get_candidates_matches [where 'e = 'e, OF e, of env ord a c1] 2 by simp
  qed
qed (auto simp: cached_data_source_def io_lift_def data_epoch_matches get_nonce_matches cached_inv_def)

end
