(* ===== verification/Committee_Nodes.thy ===== *)
theory Committee_Nodes
  imports Ariadne_Inputs
begin

text \<open>
  The composition of candidate source, inherent data provider and session validator management pallet: an author and
  a verifier with their own views of the main chain, their own caches and their own iteration orders agree on the
  committee inherent.
\<close>

section \<open>The life of a cache\<close>

text \<open>A node keeps its cache while its view of the main chain changes. A request is one call of the data source.\<close>

datatype cache_request =
    AskParameters mc_epoch_number bytes bytes
  | AskCandidates mc_epoch_number bytes
  | AskNonce mc_epoch_number
  | AskDataEpoch mc_epoch_number

fun after_request :: "('s, 'e) candidate_source \<Rightarrow> cache_request \<Rightarrow> 's \<Rightarrow> 's" where
  "after_request src (AskParameters e d p) c = snd (ds_ariadne_parameters src e d p c)"
| "after_request src (AskCandidates e a) c = snd (ds_candidates src e a c)"
| "after_request src (AskNonce e) c = snd (ds_epoch_nonce src e c)"
| "after_request src (AskDataEpoch e) c = snd (ds_data_epoch src e c)"

inductive node_cache ::
  "('p, 'c) cache_env \<Rightarrow> 'pd cs_env \<Rightarrow> 'pd candidate_view \<Rightarrow> 'e itself \<Rightarrow> ('p, 'c) candidates_cache \<Rightarrow> bool"
  for L :: "('p, 'c) cache_env" and env :: "'pd cs_env" and V :: "'pd candidate_view" and T :: "'e itself" where
  started: "candidates_cache_new L cache_size = Ret c \<Longrightarrow> node_cache L env V T c"
| asked: "node_cache L env V T c \<Longrightarrow> order_ok (env\<lparr>order_groups := ord\<rparr>) \<Longrightarrow>
    stable_view (cc_security_parameter L) V (view_db W :: ('pd, 'e) candidate_db) W (highest_seen_stable_epoch c) \<Longrightarrow>
    node_cache L env V T (after_request (cached_data_source L (env\<lparr>order_groups := ord\<rparr>) (view_db W :: ('pd, 'e) candidate_db)) req c)"

lemma bad_epoch_keeps_cache:
  assumes "offset_data_epoch e = Inl k"
  shows "snd (io_bind (can_use_caching_for_request L db e) f c) = c"
  using assms by (simp add: can_use_caching_for_request_def io_bind_def io_lift_def get_epoch_of_data_storage_def)

lemma get_candidates_state: "snd (get_candidates env db e a s) = s"
  by (auto simp: get_candidates_def get_registered_candidates_def io_bind_def io_lift_def split: exec.splits sum.splits prod.splits)

lemma request_keeps_inv:
  fixes db :: "('pd, 'e) candidate_db"
  assumes inv: "cached_inv L hp hc env ord V db W c"
  shows "cached_inv L hp hc env ord V db W (after_request (cached_data_source L (env\<lparr>order_groups := ord\<rparr>) db) req c)"
proof (cases req)
  case (AskParameters e d p)
  obtain r c' where run: "ds_ariadne_parameters (cached_data_source L (env\<lparr>order_groups := ord\<rparr>) db) e d p c = (r, c')" by fastforce
  show ?thesis
  proof (cases "offset_data_epoch e")
    case (Inl k)
    then show ?thesis using inv by (simp add: AskParameters cached_data_source_def bad_epoch_keeps_cache)
  next
    case (Inr de)
    have "cached_inv L hp hc env ord V db W c'"
      using run unfolding cached_data_source_def candidate_source.select_convs
    proof (rule bind_can_use [OF _ inv Inr], goal_cases)
      case (1 c1)
      then show ?case using params_with_caching_ok [OF 1(1) Inr 1(2,3)] by blast
    qed (simp add: io_lift_def)
    then show ?thesis using run by (simp add: AskParameters)
  qed
next
  case (AskCandidates e a)
  obtain r c' where run: "ds_candidates (cached_data_source L (env\<lparr>order_groups := ord\<rparr>) db) e a c = (r, c')" by fastforce
  show ?thesis
  proof (cases "offset_data_epoch e")
    case (Inl k)
    then show ?thesis using inv by (simp add: AskCandidates cached_data_source_def bad_epoch_keeps_cache)
  next
    case (Inr de)
    have "cached_inv L hp hc env ord V db W c'"
      using run unfolding cached_data_source_def candidate_source.select_convs
    proof (rule bind_can_use [OF _ inv Inr], goal_cases)
      case (1 c1)
      then show ?case using candidates_with_caching_ok [OF 1(1) Inr 1(2,3)] by blast
    next
      case (2 c1)
      then show ?case using get_candidates_state [of "env\<lparr>order_groups := ord\<rparr>" db e a c1] by simp
    qed
    then show ?thesis using run by (simp add: AskCandidates)
  qed
qed (use inv in \<open>simp_all add: cached_data_source_def io_lift_def\<close>)

lemma node_cache_entries:
  fixes T :: "'e itself" and V :: "'pd candidate_view"
  assumes "node_cache L env V T c" and lru: "lru_ok (parameters_lru L) hp" "lru_ok (registrations_lru L) hc" and "order_ok env"
  shows "cache_entries_ok L hp hc env (view_db V :: ('pd, 'e) candidate_db) c"
  using assms(1)
proof (induction rule: node_cache.induct)
  case (started cache_size c)
  have "hp (lru_new (parameters_lru L) cache_size) = {}" "hc (lru_new (registrations_lru L) cache_size) = {}"
    using lru by (simp_all add: lru_ok_def)
  then show ?case using started lru
    by (auto simp: candidates_cache_new_def cache_entries_ok_def split: if_splits)
next
  case (asked c ord W req)
  then have "cached_inv L hp hc env ord V (view_db W :: ('pd, 'e) candidate_db) W c"
    using assms(4) by (simp add: cached_inv_def)
  from request_keeps_inv [OF this, of req] show ?case by (simp only: cached_inv_def)
qed

section \<open>Slots\<close>

text \<open>\<open>slot_of\<close> stands for the slot that the Aura primitives derive from a timestamp and the slot duration.\<close>

definition slot_start_time :: "u64 \<Rightarrow> u64 \<Rightarrow> u64" where
  "slot_start_time slot_duration slot = slot_duration * slot"

definition timestamp_and_slot_cidp :: "(u64 \<Rightarrow> u64 \<Rightarrow> u64) \<Rightarrow> u64 \<Rightarrow> u64 \<Rightarrow> u64 \<times> u64" where
  "timestamp_and_slot_cidp slot_of slot_duration now = (let timestamp = now; slot = slot_of timestamp slot_duration in (slot, timestamp))"

section \<open>Two nodes\<close>

text \<open>A node that is in sync with the main chain up to the reference block, number \<open>n\<close> in epoch \<open>E\<close>.\<close>

definition synced_node where
  "synced_node n E L hp hc env ord V W T c \<longleftrightarrow>
     lru_ok (parameters_lru L) hp \<and> lru_ok (registrations_lru L) hc \<and> order_ok (env\<lparr>order_groups := ord\<rparr>) \<and>
     node_cache L env V (T :: 'e itself) c \<and>
     stable_view (cc_security_parameter L) V (view_db W :: ('pd, 'e) candidate_db) W (highest_seen_stable_epoch c) \<and>
     view_ok n E W \<and> views_agree n E V W"

lemma synced_node_idp:
  fixes T :: "'e itself" and W :: "'pd candidate_view"
  assumes "synced_node n E L hp hc env ord V W T c" and V: "view_ok n E V" "order_ok env"
  shows "matches (rel_option inputs_equiv)
    (spec_idp (truth_params env (view_db V :: ('pd, 'e) candidate_db)) (truth_cands env (view_db V :: ('pd, 'e) candidate_db))
      (truth_nonce (view_db V :: ('pd, 'e) candidate_db))
      (mc_epoch_for_next_ariadne_cidp api d cfg t :: (('x, 'e candidate_error) ariadne_idp_error + _) exec) (aapi_main_chain_scripts api) E)
    (fst (ariadne_idp_new (cached_data_source L (env\<lparr>order_groups := ord\<rparr>) (view_db W :: ('pd, 'e) candidate_db)) api d cfg t E c))"
proof (rule cached.idp_match)
  have "cache_entries_ok L hp hc env (view_db V :: ('pd, 'e) candidate_db) c"
    by (rule node_cache_entries [where T = T]) (use assms in \<open>simp_all add: synced_node_def\<close>)
  then show "cached_inv L hp hc env ord V (view_db W :: ('pd, 'e) candidate_db) W c"
    using assms by (simp add: synced_node_def cached_inv_def)
  show "agree_on de V W" if "de < E" for de
    using assms that unfolding synced_node_def agree_on_def by blast
qed

lemma spec_positions:
  fixes V :: "'pd candidate_view"
  assumes "spec_idp ps (truth_cands env (view_db V :: ('pd, 'e) candidate_db)) ns e scripts E = Some (Some inputs)"
    and "view_ok n E V" "order_ok env"
  shows "positions_distinct (asi_registered_candidates inputs)"
proof -
  obtain e' a where "truth_cands env (view_db V :: ('pd, 'e) candidate_db) e' a = Some (asi_registered_candidates inputs)"
    using assms(1)
    by (auto simp: spec_idp_def spec_inputs_def bind_eq_Some_conv split: exec.splits sum.splits if_splits option.splits)
  then have "get_candidates env (view_db V :: ('pd, 'e) candidate_db) e' a () = (Ret (Inr (asi_registered_candidates inputs)), ())"
    by (auto simp: truth_cands_def split: prod.splits exec.splits sum.splits)
  then show ?thesis by (rule get_candidates_positions [OF _ view_okD(5) [OF assms(2)] assms(3)])
qed

text \<open>The configuration of a runtime that selects with Ariadne.\<close>

definition runtime_select where
  "runtime_select R U Env m g inputs epoch =
     (case select_authorities R U Env m g inputs epoch of Ret committee \<Rightarrow> committee | Panic \<Rightarrow> None)"

lemma equal_selection_accepted:
  assumes "cfg_select_authorities cfg a = cfg_select_authorities cfg b"
    and "honest_calls (smc_create_inherent cfg) st (Inr (Some a)) = Ret calls"
  shows "verify_inherents (smc_check_inherent cfg) smc_is_inherent smc_is_inherent_required st (Inr (Some b)) calls"
  using assms(2)
  by (auto simp: honest_calls_def smc_create_inherent_iff verify_inherents_def smc_check_inherent_ok_iff assms(1)
      smc_is_inherent_required_def split: if_splits option.splits)

lemma same_epoch_of_slot_start:
  fixes t d sd :: u64
  assumes "sd \<noteq> 0" and "unat sd dvd unat d"
  shows "(sd * (t div sd)) div d = t div d"
proof (rule word_unat_eq_iff [THEN iffD2])
  have "unat t div unat sd * unat sd \<le> unat t" by (rule div_times_less_eq_dividend)
  also have "unat t < 2 ^ 64" using unsigned_less [of t, where ?'a = nat] by simp
  finally have small: "unat sd * (unat t div unat sd) < 2 ^ 64" by (simp only: mult.commute)
  obtain k where k: "unat d = unat sd * k" using assms(2) by (elim dvdE)
  have "0 < unat sd" using assms(1) by (simp add: unat_gt_0)
  then have "unat sd * (unat t div unat sd) div (unat sd * k) = unat t div (unat sd * k)"
    by (simp add: div_mult2_eq)
  then show "unat ((sd * (t div sd)) div d) = unat (t div d)"
    using small by (simp add: unat_div unat_word_ariths k)
qed

lemma same_mc_epoch_of_slot_start:
  assumes "sd \<noteq> 0" and "unat sd dvd unat d"
  shows "mc_epoch_for_next_ariadne_cidp api d cfg (sd * (t div sd)) = mc_epoch_for_next_ariadne_cidp api d cfg t"
proof -
  have "exec_div (sd * (t div sd)) d = exec_div t d"
    by (simp add: exec_div_def same_epoch_of_slot_start [OF assms])
  then show ?thesis unfolding mc_epoch_for_next_ariadne_cidp_def by (simp only:)
qed

section \<open>Properties\<close>


section \<open>An example\<close>

definition demo_register :: "u8 \<Rightarrow> register_validator_datum" where
  "demo_register k = RegisterV0 \<lparr>rv_stake_ownership = \<lparr>abs_pub_key = replicate 32 k, abs_signature = replicate 64 2\<rparr>,
     rv_sidechain_pub_key = [k], rv_sidechain_signature = [4], rv_registration_utxo = \<lparr>tx_hash = replicate 32 6, utxo_index = 7\<rparr>,
     rv_own_pkh = replicate 28 5\<rparr> [k] [k]"

definition demo_output :: "u8 \<Rightarrow> u32 \<Rightarrow> datum tx_output_row" where
  "demo_output k b = \<lparr>to_tx_hash = [k], to_index = 0, to_block_no = b, to_slot_no = 10, to_epoch_no = 1, to_block_index = 0,
     to_address = [97], to_datum = Some (register_datum_to_plutus datum_csl (demo_register k)), to_tx_inputs = [], to_consumed_block = None\<rparr>"

definition demo_block :: "u32 \<Rightarrow> u32 \<Rightarrow> db_block" where
  "demo_block n e = \<lparr>block_no = n, block_hash = [], block_epoch_no = e, block_slot_no = ucast n, block_time = 0\<rparr>"

definition demo_view :: "db_block list \<Rightarrow> datum tx_output_row list \<Rightarrow> datum candidate_view" where
  "demo_view extra outputs = \<lparr>v_blocks = [demo_block 1 1, demo_block 3 3, demo_block 4 4] @ extra,
     v_tokens = [\<lparr>tr_policy = [1], tr_name = [], tr_epoch_no = 1, tr_block_no = 1, tr_block_index = 0,
       tr_datum = Some (d_parameter_to_plutus_data datum_csl \<lparr>num_permissioned_candidates = 0, num_registered_candidates = 2\<rparr>)\<rparr>],
     v_outputs = outputs, v_stakes = [(3, replicate 32 1, 50), (3, replicate 32 2, 70)], v_nonces = [(3, [9])]\<rparr>"

definition demo_main :: "datum candidate_view" where
  "demo_main = demo_view [] [demo_output 1 1, demo_output 2 3]"

definition demo_author :: "datum candidate_view" where
  "demo_author = demo_view [demo_block 5 4] [demo_output 1 1, demo_output 2 3]"

definition demo_verifier :: "datum candidate_view" where
  "demo_verifier = demo_view [demo_block 5 5] [demo_output 2 3, (demo_output 1 1)\<lparr>to_consumed_block := Some 5\<rparr>]"

definition demo_cs_env :: "datum cs_env" where
  "demo_cs_env = \<lparr>cs_csl = datum_csl, cs_hex = demo_hex, cs_key_types = \<lparr>aura_id = [1], grandpa_id = [2]\<rparr>, from_vkey = id, order_groups = id\<rparr>"

definition demo_cache_env ::
  "(((mc_epoch_number \<times> bytes \<times> bytes) \<times> ariadne_parameters) list, ((mc_epoch_number \<times> bytes) \<times> candidate_registrations list) list) cache_env" where
  "demo_cache_env = \<lparr>parameters_lru = assoc_lru, registrations_lru = assoc_lru, cc_security_parameter = 1\<rparr>"

definition demo_chain_state :: "(bytes, bytes, bytes) smc_state" where
  "demo_chain_state = empty_smc_state\<lparr>main_chain_scripts_configuration := \<lparr>committee_candidate_address = [97],
     d_parameter_policy_id = [1], permissioned_candidates_policy_id = [2]\<rparr>\<rparr>"

definition demo_epoch_config :: mainchain_epoch_config where
  "demo_epoch_config = \<lparr>epoch_duration_millis = 100, slot_duration_millis = 10, first_epoch_timestamp_millis = 0,
     first_epoch_number = 0, first_slot_number = 0\<rparr>"

definition demo_committee_config :: "(bytes, bytes, bytes, unit) smc_config" where
  "demo_committee_config = \<lparr>max_validators = 10, cfg_select_authorities = runtime_select bytes_rng demo_u256 demo_env 10 (demo_utxo 0),
     into_account = id, selection_inputs_hash_of = asi_epoch_nonce, is_none_origin = (\<lambda>_. True), ensure_scripts_origin = (\<lambda>_. True)\<rparr>"

abbreviation demo_cache where
  "demo_cache \<equiv> \<lparr>parameters_cache = [], registrations_cache = [], highest_seen_stable_epoch = None\<rparr>"

lemma demo_agree:
  "view_ok 4 4 demo_main" "view_ok 4 4 demo_author" "view_ok 4 4 demo_verifier"
  "views_agree 4 4 demo_main demo_author" "views_agree 4 4 demo_main demo_verifier"
  by (auto simp: view_ok_def views_agree_def demo_main_def demo_author_def demo_verifier_def demo_view_def demo_block_def
      demo_output_def cut_at_def output_key_def token_key_def inj_on_def)

lemma demo_stable_epoch:
  assumes "W \<in> {demo_author, demo_verifier}"
  shows "get_latest_stable_epoch (view_db W :: (datum, unit) candidate_db) 1 = Inr (Some 3)"
  using assms by (auto simp: get_latest_stable_epoch_def view_db_def demo_author_def demo_verifier_def demo_view_def demo_block_def
      List.product_def)

lemma demo_stable:
  assumes "W \<in> {demo_author, demo_verifier}"
  shows "stable_view 1 demo_main (view_db W :: (datum, unit) candidate_db) W None"
proof -
  note demo_stable_epoch [OF assms]
  moreover have "agree_on 3 demo_main W" unfolding agree_on_def
    by (rule exI [of _ 4], rule exI [of _ 4]) (use assms demo_agree in auto)
  ultimately show ?thesis by (simp add: stable_view_def)
qed

lemma demo_synced:
  assumes "W \<in> {demo_author, demo_verifier}" "ord \<in> {id, rev}"
  shows "synced_node 4 4 demo_cache_env set set demo_cs_env ord demo_main W TYPE(unit) demo_cache"
proof -
  have "candidates_cache_new demo_cache_env 1 = Ret demo_cache"
    by (simp add: candidates_cache_new_def demo_cache_env_def assoc_lru_def)
  then have "node_cache demo_cache_env demo_cs_env demo_main TYPE(unit) demo_cache" by (rule node_cache.started)
  then show ?thesis
    using assms demo_agree demo_stable [OF assms(1)]
    by (auto simp: synced_node_def demo_cache_env_def order_ok_def assoc_lru_ok)
qed

lemma demo_register_decode: "register_try_from datum_csl (register_datum_to_plutus datum_csl (demo_register k)) = Inr (demo_register k)"
  by (rule register_try_from_to_plutus [OF datum_csl_ok]) (simp add: demo_register_def registration_sizes_ok_def)

lemma demo_parameters:
  "get_ariadne_parameters (demo_cs_env\<lparr>order_groups := ord\<rparr>) (view_db demo_author :: (datum, unit) candidate_db) 5 [1] [2] =
     Inr \<lparr>ap_d_parameter = \<lparr>num_permissioned_candidates = 0, num_registered_candidates = 2\<rparr>, ap_permissioned_candidates = None\<rparr>"
  by (simp add: get_ariadne_parameters_def get_epoch_of_data_storage_def offset_data_epoch_def checked_sub_def
      DATA_MC_EPOCH_OFFSET_def get_token_utxo_for_epoch_def view_db_def demo_author_def demo_view_def demo_cs_env_def d_param_decode [OF datum_csl_ok])

lemma demo_stakes:
  "get_stake_distribution (view_db demo_author :: (datum, unit) candidate_db) 3 = Inr [(replicate 32 1, 50), (replicate 32 2, 70)]"
  by (simp add: get_stake_distribution_def view_db_def demo_author_def demo_view_def try_of_nat_def)

lemma demo_registered:
  "\<exists>cs. get_registered_candidates (demo_cs_env\<lparr>order_groups := id\<rparr>) (view_db demo_author :: (datum, unit) candidate_db) 3 [97] s = (Ret (Inr cs), s) \<and>
     map fst cs = [replicate 32 1, replicate 32 2]"
proof -
  have "get_latest_block_for_epoch (view_db demo_author :: (datum, unit) candidate_db) 3 = Inr (Some (demo_block 3 3))"
    by (simp add: get_latest_block_for_epoch_def view_db_def demo_author_def demo_view_def demo_block_def)
  moreover have "valid_utf8 [97]" by (simp add: valid_utf8.simps utf8_head_def)
  moreover obtain utxos where "get_utxos_for_address demo_hex (view_db demo_author :: (datum, unit) candidate_db) [97] 3 = Inr utxos"
      "map fst (convert_utxos_to_candidates (demo_cs_env\<lparr>order_groups := id\<rparr>) utxos) = [replicate 32 1, replicate 32 2]"
    by (simp add: get_utxos_for_address_def view_db_def demo_author_def demo_view_def demo_output_def unspent_at_def tx_output_try_from_def
        convert_utxos_to_candidates_def parse_candidates_def parse_candidate_def List.map_filter_simps demo_cs_env_def demo_register_decode)
      (simp add: demo_register_def registered_candidate_def)
  ultimately show ?thesis unfolding get_registered_Inr
    by (intro exI [of _ "Some (demo_block 3 3)"] exI [of _ utxos] exI [of _ "convert_utxos_to_candidates (demo_cs_env\<lparr>order_groups := id\<rparr>) utxos"] conjI)
      (simp_all add: demo_cs_env_def demo_block_def)
qed

lemma demo_candidates:
  "\<exists>xs. get_candidates (demo_cs_env\<lparr>order_groups := id\<rparr>) (view_db demo_author :: (datum, unit) candidate_db) 5 [97] s = (Ret (Inr xs), s) \<and>
     map cr_stake_pool_public_key xs = [replicate 32 1, replicate 32 2]"
proof -
  have e: "get_epoch_of_data_storage 5 = (Inr 3 :: unit candidate_error + _)"
    by (simp add: get_epoch_of_data_storage_def offset_data_epoch_def checked_sub_def DATA_MC_EPOCH_OFFSET_def)
  obtain cs where cs: "get_registered_candidates (demo_cs_env\<lparr>order_groups := id\<rparr>) (view_db demo_author :: (datum, unit) candidate_db) 3 [97] s = (Ret (Inr cs), s)"
    "map fst cs = [replicate 32 1, replicate 32 2]" using demo_registered [of s] by (elim exE conjE)
  show ?thesis unfolding get_candidates_Inr
    by (intro exI conjI, rule e, rule cs(1), rule demo_stakes, rule refl)
      (simp add: registrations_of_def group_candidates_by_mc_pub_key_def comp_def cs(2))
qed

lemma demo_epoch: "offset_data_epoch 5 = Inr 3"
  by (simp add: offset_data_epoch_def checked_sub_def DATA_MC_EPOCH_OFFSET_def)

lemma demo_mc_epoch:
  "mc_epoch_for_next_ariadne_cidp (ariadne_api_of demo_chain_state :: unit ariadne_api) 50 demo_epoch_config 555 =
     (Ret (Inr 5) :: ((unit, unit candidate_error) ariadne_idp_error + _) exec)"
  by (simp add: mc_epoch_for_next_ariadne_cidp_def ariadne_api_of_def demo_chain_state_def get_next_unset_epoch_number_def
      empty_smc_state_def default_committee_info_def exec_div_def timestamp_to_mainchain_epoch_def epochs_passed_def demo_epoch_config_def
      checked_sub_def try_narrow_def saturating_add_def)

lemma demo_run:
  "\<exists>data c'. ariadne_idp_new (cached_data_source demo_cache_env (demo_cs_env\<lparr>order_groups := id\<rparr>) (view_db demo_author :: (datum, unit) candidate_db))
     (ariadne_api_of demo_chain_state :: unit ariadne_api) 50 demo_epoch_config 555 4 demo_cache = (Ret (Inr (Some data)), c') \<and>
     map cr_stake_pool_public_key (asi_registered_candidates data) = [replicate 32 1, replicate 32 2]"
proof -
  define c :: "(((mc_epoch_number \<times> bytes \<times> bytes) \<times> ariadne_parameters) list, ((mc_epoch_number \<times> bytes) \<times> candidate_registrations list) list) candidates_cache"
    where "c = \<lparr>parameters_cache = [((5, [1], [2]), \<lparr>ap_d_parameter = \<lparr>num_permissioned_candidates = 0, num_registered_candidates = 2\<rparr>,
    ap_permissioned_candidates = None\<rparr>)], registrations_cache = [], highest_seen_stable_epoch = Some 3\<rparr>"
  obtain xs where xs: "get_candidates (demo_cs_env\<lparr>order_groups := id\<rparr>) (view_db demo_author :: (datum, unit) candidate_db) 5 [97] c = (Ret (Inr xs), c)"
    "map cr_stake_pool_public_key xs = [replicate 32 1, replicate 32 2]" using demo_candidates [of c] by (elim exE conjE)
  have utf8: "valid_utf8 [97]" by (simp add: valid_utf8.simps utf8_head_def)
  have params: "ds_ariadne_parameters (cached_data_source demo_cache_env (demo_cs_env\<lparr>order_groups := id\<rparr>) (view_db demo_author :: (datum, unit) candidate_db)) 5 [1] [2] demo_cache =
      (Ret (Inr \<lparr>ap_d_parameter = \<lparr>num_permissioned_candidates = 0, num_registered_candidates = 2\<rparr>, ap_permissioned_candidates = None\<rparr>), c)"
    by (simp add: cached_data_source_def can_use_caching_for_request_def io_bind_def io_lift_def get_epoch_of_data_storage_def demo_epoch
        demo_cache_env_def demo_stable_epoch get_ariadne_parameters_with_caching_def demo_parameters assoc_lru_def c_def)
  have cands: "ds_candidates (cached_data_source demo_cache_env (demo_cs_env\<lparr>order_groups := id\<rparr>) (view_db demo_author :: (datum, unit) candidate_db)) 5 [97] c =
      (Ret (Inr xs), c\<lparr>registrations_cache := [((5, [97]), xs)]\<rparr>)"
    using xs(1)
    by (simp add: cached_data_source_def can_use_caching_for_request_def io_bind_def io_lift_def get_epoch_of_data_storage_def demo_epoch
        demo_cache_env_def get_candidates_with_caching_def address_to_string_def utf8 assoc_lru_def c_def)
  have nonce: "ds_epoch_nonce (cached_data_source demo_cache_env (demo_cs_env\<lparr>order_groups := id\<rparr>) (view_db demo_author :: (datum, unit) candidate_db)) 5 c' =
      (Ret (Inr (Some [9])), c')" for c'
    by (simp add: cached_data_source_def io_lift_def cand_get_epoch_nonce_def get_epoch_of_data_storage_def demo_epoch get_epoch_nonce_def
        view_db_def demo_author_def demo_view_def)
  have de: "ds_data_epoch (cached_data_source demo_cache_env (demo_cs_env\<lparr>order_groups := id\<rparr>) (view_db demo_author :: (datum, unit) candidate_db)) 5 c' =
      (Ret (Inr 3), c')" for c'
    by (simp add: cached_data_source_def io_lift_def get_epoch_of_data_storage_def demo_epoch)
  have scripts: "aapi_main_chain_scripts (ariadne_api_of demo_chain_state :: unit ariadne_api) =
      Inr \<lparr>committee_candidate_address = [97], d_parameter_policy_id = [1], permissioned_candidates_policy_id = [2]\<rparr>"
    by (simp add: ariadne_api_of_def demo_chain_state_def)
  show ?thesis
    by (simp add: ariadne_idp_new_def demo_mc_epoch io_bind_def io_lift_def io_map_err_def de scripts
        authority_selection_inputs_from_mc_data_def params cands nonce xs(2))
qed


end
