(* ===== verification/Governed_Map_Source.thy ===== *)
theory Governed_Map_Source
  imports Governed_Map Candidate_Source
begin

text \<open>
  The Db-Sync data sources of the Governed Map, \<open>governed_map/mod.rs\<close> of \<open>toolkit/data-sources/db-sync/src\<close> with their
  queries in \<open>db_model.rs\<close>: the one that compares two states and the one that caches changes. They meet the contract
  of \<open>Governed_Map\<close> for a map in which a key has one unspent output at a time.

  A row is an output joined with its datum, its token and the transactions that create and spend it, as the database has it.
  Positions are pairs of block number and index of the transaction in the block. \<open>ORDER BY\<close> leaves the order of rows
  with equal keys open: here they are in the order of the table, which is arbitrary. Both configurations of the database
  give the same rows. Locks are never poisoned, since no code panics while it holds one.
\<close>

section \<open>Queries\<close>

type_synonym chain_position = "u32 \<times> u32"

record 'pd gm_row =
  gr_address :: bytes
  gr_policy :: bytes
  gr_name :: bytes
  gr_datum :: 'pd
  gr_created :: chain_position
  gr_spent :: "chain_position option"

type_synonym ('pd, 'e) gm_db = "'e + 'pd gm_row list"

datatype governed_map_action = GmSpend | GmCreate

record 'pd datum_change =
  dc_datum :: 'pd
  dc_block_no :: u32
  dc_block_index :: u32
  dc_action :: governed_map_action

definition of_asset :: "bytes \<Rightarrow> bytes \<Rightarrow> 'pd gm_row \<Rightarrow> bool" where
  "of_asset address policy r \<longleftrightarrow> gr_address r = address \<and> gr_policy r = policy \<and> gr_name r = []"

definition live_at :: "u32 \<Rightarrow> 'pd gm_row \<Rightarrow> bool" where
  "live_at block r \<longleftrightarrow> fst (gr_created r) \<le> block \<and> (case gr_spent r of None \<Rightarrow> True | Some p \<Rightarrow> fst p > block)"

definition get_datums_at_address_with_token ::
  "('pd, 'e) gm_db \<Rightarrow> bytes \<Rightarrow> u32 \<Rightarrow> bytes \<Rightarrow> 'e block_source_error + 'pd list" where
  "get_datums_at_address_with_token db address block policy =
     try_bind (map_err BlockSqlxError db) (\<lambda>rows.
       Inr (map gr_datum (sort_key gr_created (filter (\<lambda>r. of_asset address policy r \<and> live_at block r) rows))))"

definition in_range :: "u32 option \<Rightarrow> u32 \<Rightarrow> u32 \<Rightarrow> bool" where
  "in_range after to n \<longleftrightarrow> (case after of None \<Rightarrow> True | Some a \<Rightarrow> a < n) \<and> n \<le> to"

definition created_change :: "'pd gm_row \<Rightarrow> 'pd datum_change" where
  "created_change r = \<lparr>dc_datum = gr_datum r, dc_block_no = fst (gr_created r), dc_block_index = snd (gr_created r), dc_action = GmCreate\<rparr>"

definition spent_change :: "'pd gm_row \<Rightarrow> 'pd datum_change option" where
  "spent_change r = map_option (\<lambda>(b, i). \<lparr>dc_datum = gr_datum r, dc_block_no = b, dc_block_index = i, dc_action = GmSpend\<rparr>) (gr_spent r)"

definition change_order :: "'pd datum_change \<Rightarrow> u32 \<times> u32 \<times> int" where
  "change_order c = (dc_block_no c, dc_block_index c, case dc_action c of GmSpend \<Rightarrow> -1 | GmCreate \<Rightarrow> 1)"

definition get_governed_map_changes ::
  "('pd, 'e) gm_db \<Rightarrow> bytes \<Rightarrow> u32 option \<Rightarrow> u32 \<Rightarrow> bytes \<Rightarrow> 'e block_source_error + 'pd datum_change list" where
  "get_governed_map_changes db address after_block to_block policy =
     try_bind (map_err BlockSqlxError db) (\<lambda>rows.
       let outputs = filter (of_asset address policy) rows
       in Inr (sort_key change_order (remdups (filter (\<lambda>c. in_range after_block to_block (dc_block_no c))
            (map created_change outputs @ List.map_filter spent_change outputs)))))"

section \<open>The data source without a cache\<close>

definition gm_datum :: "'pd csl \<Rightarrow> 'pd \<Rightarrow> governed_map_datum option exec" where
  "gm_datum C datum = exec_map ok (governed_map_datum_try_from valid_utf8 C datum)"

fun collect_entries :: "'pd csl \<Rightarrow> 'pd list \<Rightarrow> (bytes, bytes) btree_map \<Rightarrow> (bytes, bytes) btree_map exec" where
  "collect_entries C [] mappings = Ret mappings"
| "collect_entries C (datum # entries) mappings =
     exec_bind (gm_datum C datum) (\<lambda>d. collect_entries C entries
       (case d of Some d \<Rightarrow> btm_insert (gmd_key d) (gmd_value d) mappings | None \<Rightarrow> mappings))"

definition get_mappings_entries ::
  "'pd csl \<Rightarrow> 'e block_db \<Rightarrow> ('pd, 'e) gm_db \<Rightarrow> bytes \<Rightarrow> main_chain_scripts_v1 \<Rightarrow>
   ('e block_source_error + (bytes, bytes) btree_map) exec" where
  "get_mappings_entries C blocks db hash scripts =
     (case db_get_block_by_hash blocks hash of
        Inl e \<Rightarrow> Ret (Inl e)
      | Inr None \<Rightarrow> Ret (Inl ExpectedDataNotFound)
      | Inr (Some block) \<Rightarrow>
          exec_bind (address_to_string (gm_validator_address scripts)) (\<lambda>address.
          case get_datums_at_address_with_token db address (block_no block) (gm_asset_policy_id scripts) of
            Inl e \<Rightarrow> Ret (Inl e)
          | Inr entries \<Rightarrow> exec_map Inr (collect_entries C entries [])))"

definition changes_between :: "(bytes, bytes) btree_map \<Rightarrow> (bytes, bytes) btree_map \<Rightarrow> (bytes \<times> bytes option) list" where
  "changes_between previous_mappings current_mappings =
     map (\<lambda>(key, val). (key, Some val)) (filter (\<lambda>(key, val). map_of previous_mappings key \<noteq> Some val) current_mappings) @
     map (\<lambda>(key, _). (key, None)) (filter (\<lambda>(key, _). map_of current_mappings key = None) previous_mappings)"

definition plain_get_mapping_changes ::
  "'pd csl \<Rightarrow> 'e block_db \<Rightarrow> ('pd, 'e) gm_db \<Rightarrow> bytes option \<Rightarrow> bytes \<Rightarrow> main_chain_scripts_v1 \<Rightarrow>
   ('e block_source_error + (bytes \<times> bytes option) list) exec" where
  "plain_get_mapping_changes C blocks db since_mc_block up_to_mc_block scripts =
     exec_bind (get_mappings_entries C blocks db up_to_mc_block scripts) (\<lambda>current.
     case current of
       Inl e \<Rightarrow> Ret (Inl e)
     | Inr current_mappings \<Rightarrow>
         (case since_mc_block of
            None \<Rightarrow> Ret (Inr (map (\<lambda>(key, val). (key, Some val)) current_mappings))
          | Some since_mc_block \<Rightarrow>
              exec_map (\<lambda>previous. try_bind previous (\<lambda>previous_mappings. Inr (changes_between previous_mappings current_mappings)))
                (get_mappings_entries C blocks db since_mc_block scripts)))"

section \<open>The data source with a cache\<close>

record gm_change =
  gc_block_no :: u32
  gc_key :: bytes
  gc_value :: "bytes option"

record gm_cache =
  gmc_highest :: "u32 option"
  gmc_lowest :: "u32 option"
  gmc_changes :: "gm_change list"
  gmc_address :: "bytes option"
  gmc_policy :: "bytes option"

definition gm_cache_default :: gm_cache where
  "gm_cache_default = \<lparr>gmc_highest = None, gmc_lowest = None, gmc_changes = [], gmc_address = None, gmc_policy = None\<rparr>"

definition filter_changes_in_range :: "gm_change list \<Rightarrow> u32 option \<Rightarrow> u32 \<Rightarrow> (bytes \<times> bytes option) list" where
  "filter_changes_in_range changes since_block up_to_block =
     map (\<lambda>c. (gc_key c, gc_value c)) (filter (\<lambda>c. in_range since_block up_to_block (gc_block_no c)) changes)"

definition get_changes_in_range :: "gm_cache \<Rightarrow> u32 option \<Rightarrow> u32 \<Rightarrow> (bytes \<times> bytes option) list option" where
  "get_changes_in_range cache since_block up_to_block =
     (case gmc_highest cache of
        None \<Rightarrow> None
      | Some highest_block_number \<Rightarrow>
          (case gmc_lowest cache of
             None \<Rightarrow> None
           | Some lowest_block_number \<Rightarrow>
               if highest_block_number < up_to_block \<or> (case since_block of Some b \<Rightarrow> b < lowest_block_number | None \<Rightarrow> False)
               then None
               else Some (filter_changes_in_range (gmc_changes cache) since_block up_to_block)))"

definition gm_cache_update :: "gm_change list \<Rightarrow> gm_cache \<Rightarrow> gm_cache" where
  "gm_cache_update changes cache =
     (let (lowest, highest) = (case map gc_block_no changes of [] \<Rightarrow> (0, 0) | b # bs \<Rightarrow> (fold min bs b, fold max bs b))
      in cache\<lparr>gmc_changes := changes, gmc_lowest := Some lowest, gmc_highest := Some highest\<rparr>)"

definition gm_cache_set_scripts :: "main_chain_scripts_v1 \<Rightarrow> gm_cache \<Rightarrow> gm_cache" where
  "gm_cache_set_scripts scripts cache =
     (if gmc_address cache \<noteq> Some (gm_validator_address scripts) \<or> gmc_policy cache \<noteq> Some (gm_asset_policy_id scripts)
      then cache\<lparr>gmc_changes := [], gmc_highest := None, gmc_lowest := None,
        gmc_address := Some (gm_validator_address scripts), gmc_policy := Some (gm_asset_policy_id scripts)\<rparr>
      else cache)"

fun decode_changes :: "'pd csl \<Rightarrow> 'pd datum_change list \<Rightarrow> gm_change list exec" where
  "decode_changes C [] = Ret []"
| "decode_changes C (c # cs) =
     exec_bind (gm_datum C (dc_datum c)) (\<lambda>d. exec_map (\<lambda>changes.
       case d of
         None \<Rightarrow> changes
       | Some d \<Rightarrow> \<lparr>gc_block_no = dc_block_no c, gc_key = gmd_key d,
           gc_value = (case dc_action c of GmSpend \<Rightarrow> None | GmCreate \<Rightarrow> Some (gmd_value d))\<rparr> # changes) (decode_changes C cs))"

definition get_changes_in_range_to_cache ::
  "'pd csl \<Rightarrow> ('pd, 'e) gm_db \<Rightarrow> u32 option \<Rightarrow> u32 \<Rightarrow> main_chain_scripts_v1 \<Rightarrow> ('e block_source_error + gm_change list) exec" where
  "get_changes_in_range_to_cache C db since_block up_to_block scripts =
     exec_bind (address_to_string (gm_validator_address scripts)) (\<lambda>address.
     case get_governed_map_changes db address since_block up_to_block (gm_asset_policy_id scripts) of
       Inl e \<Rightarrow> Ret (Inl e)
     | Inr changes \<Rightarrow> exec_map Inr (decode_changes C changes))"

text \<open>The state of the source: its own cache and the block source it shares with others.\<close>

record gm_source_state =
  gms_cache :: gm_cache
  gms_blocks :: blocks_cache

definition io_blocks :: "(blocks_cache, 'e, 'a) io \<Rightarrow> (gm_source_state, 'e, 'a) io" where
  "io_blocks m s = (case m (gms_blocks s) of (r, b) \<Rightarrow> (r, s\<lparr>gms_blocks := b\<rparr>))"

definition max_search_block :: "u16 \<Rightarrow> u32 option \<Rightarrow> u32 \<Rightarrow> mainchain_block option \<Rightarrow> u32" where
  "max_search_block cache_size since_block_number up_to_block_number stable_block =
     (let latest_stable_block = (case stable_block of Some block \<Rightarrow> mb_number block | None \<Rightarrow> up_to_block_number);
          since_block_plus = saturating_add (case since_block_number of Some n \<Rightarrow> n | None \<Rightarrow> 0) (ucast cache_size)
      in min latest_stable_block (max up_to_block_number since_block_plus))"

definition since_number :: "'e block_db \<Rightarrow> bytes option \<Rightarrow> 'e block_source_error + u32 option" where
  "since_number blocks since_mc_block =
     (case since_mc_block of
        None \<Rightarrow> Inr None
      | Some hash \<Rightarrow> try_bind (db_get_block_by_hash blocks hash) (\<lambda>b.
          try_bind (ok_or b ExpectedDataNotFound) (\<lambda>b. Inr (Some (block_no b)))))"

definition gm_cached_changes ::
  "block_source_config \<Rightarrow> u16 \<Rightarrow> 'pd csl \<Rightarrow> 'e block_db \<Rightarrow> ('pd, 'e) gm_db \<Rightarrow> bytes option \<Rightarrow> bytes \<Rightarrow> main_chain_scripts_v1 \<Rightarrow>
   (gm_source_state, 'e block_source_error, (bytes \<times> bytes option) list) io" where
  "gm_cached_changes cfg cache_size C blocks db since_mc_block up_to_mc_block scripts s =
     io_bind (io_lift (Ret (since_number blocks since_mc_block))) (\<lambda>since_block_number.
     io_bind (io_blocks (bs_get_block_by_hash blocks up_to_mc_block)) (\<lambda>up_to.
     io_bind (io_lift (Ret (ok_or up_to ExpectedDataNotFound))) (\<lambda>up_to_block s.
     case get_changes_in_range (gms_cache s) since_block_number (mb_number up_to_block) of
       Some cached_changes \<Rightarrow> (Ret (Inr cached_changes), s)
     | None \<Rightarrow>
         io_bind (io_lift (get_latest_block_info blocks)) (\<lambda>latest.
         io_bind (get_latest_stable_block_for cfg blocks (mb_timestamp latest)) (\<lambda>stable_block.
         io_bind (io_lift (get_changes_in_range_to_cache C db since_block_number
             (max_search_block cache_size since_block_number (mb_number up_to_block) stable_block) scripts)) (\<lambda>changes s.
         (Ret (Inr (filter_changes_in_range changes since_block_number (mb_number up_to_block))),
          s\<lparr>gms_cache := gm_cache_update changes (gms_cache s)\<rparr>)))) s)))
       (s\<lparr>gms_cache := gm_cache_set_scripts scripts (gms_cache s)\<rparr>)"

section \<open>The map on the ledger\<close>

definition gm_entry :: "'pd csl \<Rightarrow> 'pd \<Rightarrow> (bytes \<times> bytes) option" where
  "gm_entry C datum = (case gm_datum C datum of Ret (Some d) \<Rightarrow> Some (gmd_key d, gmd_value d) | _ \<Rightarrow> None)"

definition cardano_map :: "'pd csl \<Rightarrow> 'pd gm_row list \<Rightarrow> main_chain_scripts_v1 \<Rightarrow> u32 \<Rightarrow> (bytes \<rightharpoonup> bytes)" where
  "cardano_map C rows scripts block =
     fold (\<lambda>(k, v) m. m(k \<mapsto> v)) (List.map_filter (\<lambda>r. gm_entry C (gr_datum r)) (sort_key gr_created
       (filter (\<lambda>r. of_asset (gm_validator_address scripts) (gm_asset_policy_id scripts) r \<and> live_at block r) rows))) Map.empty"

text \<open>Outputs are spent after they are created, and the outputs with one key have disjoint lifetimes.\<close>

definition disjoint_lives :: "'pd gm_row \<Rightarrow> 'pd gm_row \<Rightarrow> bool" where
  "disjoint_lives r r' \<longleftrightarrow> (\<exists>q. gr_spent r = Some q \<and> q \<le> gr_created r') \<or> (\<exists>q. gr_spent r' = Some q \<and> q \<le> gr_created r)"

definition one_output_per_key :: "'pd csl \<Rightarrow> 'pd gm_row list \<Rightarrow> main_chain_scripts_v1 \<Rightarrow> bool" where
  "one_output_per_key C rows scripts \<longleftrightarrow>
     (\<forall>r \<in> set rows. \<forall>q. gr_spent r = Some q \<longrightarrow> gr_created r < q) \<and>
     (\<forall>r \<in> set rows. \<forall>r' \<in> set rows.
        of_asset (gm_validator_address scripts) (gm_asset_policy_id scripts) r \<and>
        of_asset (gm_validator_address scripts) (gm_asset_policy_id scripts) r' \<and> r \<noteq> r' \<and>
        gm_entry C (gr_datum r) \<noteq> None \<and> map_option fst (gm_entry C (gr_datum r)) = map_option fst (gm_entry C (gr_datum r')) \<longrightarrow>
        disjoint_lives r r')"

definition has_entry :: "'pd csl \<Rightarrow> 'pd gm_row list \<Rightarrow> main_chain_scripts_v1 \<Rightarrow> bytes \<Rightarrow> bytes \<Rightarrow> 'pd gm_row \<Rightarrow> bool" where
  "has_entry C rows scripts k v r \<longleftrightarrow> r \<in> set rows \<and> of_asset (gm_validator_address scripts) (gm_asset_policy_id scripts) r \<and>
     gm_entry C (gr_datum r) = Some (k, v)"

lemma has_entry_disjoint:
  assumes "one_output_per_key C rows scripts" "has_entry C rows scripts k v r" "has_entry C rows scripts k v' r'" "r \<noteq> r'"
  shows "disjoint_lives r r'"
proof -
  have "gm_entry C (gr_datum r) \<noteq> None" "map_option fst (gm_entry C (gr_datum r)) = map_option fst (gm_entry C (gr_datum r'))"
    using assms(2,3) by (simp_all add: has_entry_def)
  then show ?thesis using assms unfolding one_output_per_key_def has_entry_def by blast
qed

lemma has_entry_order: "one_output_per_key C rows scripts \<Longrightarrow> has_entry C rows scripts k v r \<Longrightarrow> gr_spent r = Some q \<Longrightarrow> gr_created r < q"
  unfolding one_output_per_key_def has_entry_def by blast

lemma live_not_disjoint:
  assumes "live_at n r" "live_at n r'"
  shows "\<not> disjoint_lives r r'"
  using assms by (auto simp: live_at_def disjoint_lives_def less_eq_prod_def split: option.splits)

lemma fold_single_valued:
  assumes "\<And>k v v'. (k, v) \<in> set kvs \<Longrightarrow> (k, v') \<in> set kvs \<Longrightarrow> v = v'"
  shows "fold (\<lambda>(k, v) m. m(k \<mapsto> v)) kvs Map.empty k = Some v \<longleftrightarrow> (k, v) \<in> set kvs"
proof -
  have "fold (\<lambda>(k, v) m. m(k \<mapsto> v)) kvs Map.empty = map_of (rev kvs)" by (simp add: fold_upd_snoc)
  moreover have "map_of (rev kvs) k = Some v" if "(k, v) \<in> set kvs"
  proof -
    have "k \<in> fst ` set (rev kvs)" using that by force
    then obtain v' where "map_of (rev kvs) k = Some v'" by (cases "map_of (rev kvs) k") (auto simp: map_of_eq_None_iff)
    moreover from this have "(k, v') \<in> set kvs" by (auto dest: map_of_SomeD)
    ultimately show ?thesis using assms that by blast
  qed
  ultimately show ?thesis by (auto dest: map_of_SomeD)
qed

lemma cardano_map_at:
  assumes "\<And>k v v'. \<exists>r. has_entry C rows scripts k v r \<and> live_at n r \<Longrightarrow> \<exists>r. has_entry C rows scripts k v' r \<and> live_at n r \<Longrightarrow> v = v'"
  shows "cardano_map C rows scripts n k = Some v \<longleftrightarrow> (\<exists>r. has_entry C rows scripts k v r \<and> live_at n r)"
proof -
  let ?kvs = "List.map_filter (\<lambda>r. gm_entry C (gr_datum r)) (sort_key gr_created
       (filter (\<lambda>r. of_asset (gm_validator_address scripts) (gm_asset_policy_id scripts) r \<and> live_at n r) rows))"
  have mem: "(k, v) \<in> set ?kvs \<longleftrightarrow> (\<exists>r. has_entry C rows scripts k v r \<and> live_at n r)" for k v
    by (auto simp: List.map_filter_def has_entry_def image_iff)
  show ?thesis unfolding cardano_map_def using mem assms by (subst fold_single_valued) blast+
qed

lemma cardano_map_iff:
  assumes "one_output_per_key C rows scripts"
  shows "cardano_map C rows scripts n k = Some v \<longleftrightarrow> (\<exists>r. has_entry C rows scripts k v r \<and> live_at n r)"
proof (rule cardano_map_at)
  fix k v v' assume "\<exists>r. has_entry C rows scripts k v r \<and> live_at n r" "\<exists>r. has_entry C rows scripts k v' r \<and> live_at n r"
  then obtain r r' where r: "has_entry C rows scripts k v r" "live_at n r" "has_entry C rows scripts k v' r'" "live_at n r'" by blast
  then have "r = r'" using has_entry_disjoint [OF assms r(1,3)] live_not_disjoint [OF r(2,4)] by blast
  then show "v = v'" using r(1,3) by (simp add: has_entry_def)
qed

section \<open>Changes applied to the map\<close>

definition change_set :: "'pd gm_row list \<Rightarrow> main_chain_scripts_v1 \<Rightarrow> u32 option \<Rightarrow> u32 \<Rightarrow> 'pd datum_change set" where
  "change_set rows scripts after to = {c. \<exists>r \<in> set rows. of_asset (gm_validator_address scripts) (gm_asset_policy_id scripts) r \<and>
     (c = created_change r \<or> Some c = spent_change r) \<and> in_range after to (dc_block_no c)}"

definition change_entry :: "'pd csl \<Rightarrow> 'pd datum_change \<Rightarrow> (bytes \<times> bytes option) option" where
  "change_entry C c = map_option (\<lambda>(k, v). (k, case dc_action c of GmSpend \<Rightarrow> None | GmCreate \<Rightarrow> Some v)) (gm_entry C (dc_datum c))"

definition ordered_changes :: "'pd gm_row list \<Rightarrow> main_chain_scripts_v1 \<Rightarrow> u32 option \<Rightarrow> u32 \<Rightarrow> 'pd datum_change list \<Rightarrow> bool" where
  "ordered_changes rows scripts after to ds \<longleftrightarrow> set ds = change_set rows scripts after to \<and> sorted (map change_order ds)"

lemma fold_last_update:
  assumes "(k, w) \<in> set kvs" 
  obtains us vs w' where "kvs = us @ (k, w') # vs" "k \<notin> fst ` set vs" "fold (\<lambda>(k, v) m. m(k := v)) kvs m k = w'"
proof -
  obtain us x vs where x: "kvs = us @ x # vs" "fst x = k" "\<forall>y \<in> set vs. fst y \<noteq> k"
    using split_list_last_prop [of kvs "\<lambda>x. fst x = k"] assms by force
  have keep: "k \<notin> fst ` set vs \<Longrightarrow> fold (\<lambda>(k, v) m. m(k := v)) vs m k = m k" for m
    by (induction vs arbitrary: m) auto
  show thesis using that [of us "snd x" vs] x keep by (cases x) auto
qed

lemma fold_no_update: "k \<notin> fst ` set kvs \<Longrightarrow> fold (\<lambda>(k, v) m. m(k := v)) kvs m k = m k"
  by (induction kvs arbitrary: m) auto

lemma map_filter_split:
  assumes "List.map_filter f xs = us @ y # vs"
  shows "\<exists>as x bs. xs = as @ x # bs \<and> f x = Some y \<and> List.map_filter f bs = vs"
  using assms
proof (induction xs arbitrary: us)
  case (Cons a xs)
  show ?case
  proof (cases "f a = None \<or> us \<noteq> []")
    case True
    then obtain us' where "List.map_filter f xs = us' @ y # vs"
      using Cons.prems by (cases "f a"; cases us) (auto simp: List.map_filter_simps)
    then obtain as x bs where "xs = as @ x # bs" "f x = Some y" "List.map_filter f bs = vs" using Cons.IH by blast
    then have "a # xs = (a # as) @ x # bs \<and> f x = Some y \<and> List.map_filter f bs = vs" by simp
    then show ?thesis by blast
  next
    case False
    then have "a # xs = [] @ a # xs \<and> f a = Some y \<and> List.map_filter f xs = vs"
      using Cons.prems by (auto simp: List.map_filter_simps)
    then show ?thesis by blast
  qed
qed (simp add: List.map_filter_simps)

lemma change_order_simps:
  "change_order (created_change r) \<le> change_order (created_change r') \<longleftrightarrow> gr_created r \<le> gr_created r'"
  "gr_spent r' = Some q' \<Longrightarrow> spent_change r' = Some c' \<Longrightarrow> change_order (created_change r) \<le> change_order c' \<longleftrightarrow> gr_created r < q'"
  "gr_spent r' = Some q' \<Longrightarrow> spent_change r' = Some c' \<Longrightarrow> change_order c' \<le> change_order (created_change r) \<longleftrightarrow> q' \<le> gr_created r"
  by (auto simp: change_order_def created_change_def spent_change_def less_eq_prod_def less_prod_def split: prod.splits)

lemma change_entry_created: "change_entry C (created_change r) = map_option (\<lambda>(k, v). (k, Some v)) (gm_entry C (gr_datum r))"
  by (simp add: change_entry_def created_change_def)

lemma change_entry_spent: "spent_change r = Some c \<Longrightarrow> change_entry C c = map_option (\<lambda>(k, v). (k, None)) (gm_entry C (gr_datum r))"
  by (auto simp: change_entry_def spent_change_def)

lemma spent_changeD: "spent_change r = Some c \<Longrightarrow> \<exists>q. gr_spent r = Some q \<and> dc_block_no c = fst q"
  by (auto simp: spent_change_def)

lemma ordered_changes_apply:
  fixes rows :: "'pd gm_row list"
  assumes key: "one_output_per_key C rows scripts" and ord: "ordered_changes rows scripts (Some a) b ds" and "a \<le> b"
  shows "fold (\<lambda>(k, v) m. m(k := v)) (List.map_filter (change_entry C) ds) (cardano_map C rows scripts a) = cardano_map C rows scripts b"
    (is "fold ?upd ?kvs ?m = ?m'")
proof
  fix k
  let ?has = "has_entry C rows scripts k"
  have created: "created_change r \<in> set ds" if "?has v r" "a < fst (gr_created r)" "fst (gr_created r) \<le> b" for v r
    using that ord by (auto simp: ordered_changes_def change_set_def has_entry_def in_range_def created_change_def)
  have spent: "\<exists>c \<in> set ds. spent_change r = Some c" if "?has v r" "gr_spent r = Some q" "a < fst q" "fst q \<le> b" for v r q
    using that ord unfolding ordered_changes_def change_set_def has_entry_def in_range_def spent_change_def
    by (cases q) force
  have from_row: "\<exists>v r. ?has v r \<and> (c = created_change r \<and> w = Some v \<or> Some c = spent_change r \<and> w = None)"
    if mem: "c \<in> set ds" and entry: "change_entry C c = Some (k, w)" for c w
  proof -
    obtain r where r: "r \<in> set rows" "of_asset (gm_validator_address scripts) (gm_asset_policy_id scripts) r"
      "c = created_change r \<or> Some c = spent_change r"
      using mem ord by (auto simp: ordered_changes_def change_set_def)
    obtain v where v: "gm_entry C (gr_datum r) = Some (k, v)"
      using r(3) entry change_entry_created [of C r] change_entry_spent [of r c C]
      by (cases "gm_entry C (gr_datum r)") (auto dest: sym)
    have "c = created_change r \<and> w = Some v \<or> Some c = spent_change r \<and> w = None"
      using r(3) entry v change_entry_created [of C r] change_entry_spent [of r c C] by auto
    moreover have "?has v r" using r(1,2) v by (simp add: has_entry_def)
    ultimately show ?thesis by blast
  qed
  show "fold ?upd ?kvs ?m k = ?m' k"
  proof (cases "k \<in> fst ` set ?kvs")
    case False
    have none: "c \<notin> set ds" if "change_entry C c = Some (k, w)" for c w
      using False that by (force simp: List.map_filter_def)
    have "live_at a r \<longleftrightarrow> live_at b r" if r: "?has v r" for v r
    proof -
      have "created_change r \<notin> set ds" using r by (intro none) (simp add: change_entry_created has_entry_def)
      then have c: "fst (gr_created r) \<le> a \<longleftrightarrow> fst (gr_created r) \<le> b"
        using created [OF r] assms(3) by (meson not_le order_trans)
      have "\<not> (\<exists>c \<in> set ds. spent_change r = Some c)"
      proof
        assume "\<exists>c \<in> set ds. spent_change r = Some c"
        then obtain c where "c \<in> set ds" "change_entry C c = Some (k, None)"
          using r change_entry_spent [of r _ C] by (auto simp: has_entry_def)
        then show False using none by blast
      qed
      then have "a < fst q \<longleftrightarrow> b < fst q" if "gr_spent r = Some q" for q
        using spent [OF r that] assms(3) by (meson not_le order.strict_trans1)
      then show ?thesis using c by (auto simp: live_at_def split: option.splits)
    qed
    then have "?m k = Some v \<longleftrightarrow> ?m' k = Some v" for v unfolding cardano_map_iff [OF key] by blast
    then have "?m k = ?m' k" by (metis option.exhaust)
    then show ?thesis using fold_no_update [OF False] by metis
  next
    case True
    then obtain w where "(k, w) \<in> set ?kvs" by force
    then obtain us w vs where w: "?kvs = us @ (k, w) # vs" "k \<notin> fst ` set vs" "fold ?upd ?kvs ?m k = w" by (rule fold_last_update)
    obtain as c bs where c: "ds = as @ c # bs" "change_entry C c = Some (k, w)" "List.map_filter (change_entry C) bs = vs"
      using map_filter_split [OF w(1)] by blast
    have last: "change_order c' \<le> change_order c" if "c' \<in> set ds" "change_entry C c' = Some (k, w')" for c' w'
    proof -
      have "c' \<notin> set bs" using that(2) w(2) c(3) by (force simp: List.map_filter_def)
      then show ?thesis using that(1) ord c(1) by (auto simp: ordered_changes_def sorted_append)
    qed
    obtain v r where r: "?has v r" and alt: "c = created_change r \<and> w = Some v \<or> Some c = spent_change r \<and> w = None"
      using from_row [of c w] c by auto
    have range: "a < dc_block_no c" "dc_block_no c \<le> b"
      using c(1) ord by (auto simp: ordered_changes_def change_set_def in_range_def)
    from alt show ?thesis unfolding w(3)
    proof
      assume "c = created_change r \<and> w = Some v"
      then have cr: "c = created_change r" "w = Some v" "a < fst (gr_created r)" "fst (gr_created r) \<le> b"
        using range by (auto simp: created_change_def)
      have "b < fst q" if q: "gr_spent r = Some q" for q
      proof (rule ccontr)
        assume "\<not> b < fst q"
        have later: "gr_created r < q" using has_entry_order [OF key r q] .
        then have "a < fst q" using cr(3) by (auto simp: less_prod_def)
        then obtain c' where c': "c' \<in> set ds" "spent_change r = Some c'" using spent [OF r q] \<open>\<not> b < fst q\<close> by (auto simp: not_less)
        have "change_entry C c' = Some (k, None)" using change_entry_spent [OF c'(2), of C] r by (simp add: has_entry_def)
        from last [OF c'(1) this] have "q \<le> gr_created r" unfolding cr(1) using change_order_simps(3) [OF q c'(2)] by blast
        then show False using later by simp
      qed
      then have "live_at b r" using cr(4) by (auto simp: live_at_def split: option.splits)
      then have "?m' k = Some v" unfolding cardano_map_iff [OF key] using r by blast
      then show "w = ?m' k" using cr(2) by simp
    next
      assume "Some c = spent_change r \<and> w = None"
      then have sp: "spent_change r = Some c" "w = None" by simp_all
      obtain q where q: "gr_spent r = Some q" "dc_block_no c = fst q" using spent_changeD [OF sp(1)] by blast
      have "\<not> (?has v' r' \<and> live_at b r')" for v' r'
      proof
        assume r': "?has v' r' \<and> live_at b r'"
        have "r \<noteq> r'" using r' q range by (auto simp: live_at_def)
        then consider "q \<le> gr_created r'" | q' where "gr_spent r' = Some q'" "q' \<le> gr_created r"
          using has_entry_disjoint [OF key r, of v' r'] r' q(1) by (auto simp: disjoint_lives_def)
        then show False
        proof cases
          case 1
          then have "a < fst (gr_created r')" using range(1) q(2) by (auto simp: less_eq_prod_def)
          then have "created_change r' \<in> set ds" using created [of v' r'] r' by (auto simp: live_at_def split: option.splits)
          from last [OF this, of "Some v'"] have "change_order (created_change r') \<le> change_order c"
            using r' by (simp add: change_entry_created has_entry_def)
          then show False using 1 change_order_simps(2) [OF q(1) sp(1), of r'] by simp
        next
          case 2
          have "gr_created r < q" by (rule has_entry_order [OF key r q(1)])
          with 2(2) have "q' < q" by simp
          then show False using r' 2(1) range(2) q(2) by (auto simp: live_at_def less_prod_def)
        qed
      qed
      then have "?m' k \<noteq> Some v'" for v' unfolding cardano_map_iff [OF key] by blast
      then show "w = ?m' k" using sp(2) by (cases "?m' k") auto
    qed
  qed
qed

end
