(* ===== verification/Governed_Map_Nodes.thy ===== *)
theory Governed_Map_Nodes
  imports Governed_Map_Source
begin

text \<open>
  Nodes that follow the main chain with the cached data source of the Governed Map: every node has its own view of the
  main chain and a cache left by earlier requests. The pallet of a chain verified by such nodes holds the map of the ledger.
\<close>

section \<open>Answers of the database\<close>

lemma collect_entries_Ret:
  "collect_entries C ds m = Ret m' \<Longrightarrow> btm_ok m \<Longrightarrow>
     btm_ok m' \<and> map_of m' = fold (\<lambda>(k, v) m. m(k \<mapsto> v)) (List.map_filter (gm_entry C) ds) (map_of m)"
proof (induction ds arbitrary: m)
  case (Cons d ds)
  then obtain e where e: "gm_datum C d = Ret e" by (cases "gm_datum C d") auto
  show ?case using Cons e by (cases e) (simp_all add: List.map_filter_simps gm_entry_def)
qed (simp add: List.map_filter_simps)

lemma map_filter_map: "List.map_filter f (map g xs) = List.map_filter (\<lambda>x. f (g x)) xs"
  by (induction xs) (auto simp: List.map_filter_simps split: option.splits)

lemma get_mappings_entries_Inr:
  assumes "get_mappings_entries C (Inr blocks) (Inr rows) hash scripts = Ret (Inr m)"
  obtains b where "find (\<lambda>b. block_hash b = hash) blocks = Some b" "btm_ok m" "map_of m = cardano_map C rows scripts (block_no b)"
proof -
  obtain b where b: "find (\<lambda>b. block_hash b = hash) blocks = Some b"
    using assms by (auto simp: get_mappings_entries_def db_get_block_by_hash_def split: option.splits)
  then have "collect_entries C (map gr_datum (sort_key gr_created (filter (\<lambda>r. of_asset (gm_validator_address scripts) (gm_asset_policy_id scripts) r \<and>
      live_at (block_no b) r) rows))) [] = Ret m"
    using assms by (auto simp: get_mappings_entries_def db_get_block_by_hash_def address_to_string_def get_datums_at_address_with_token_def
        exec_map_Ret_iff split: if_splits)
  from collect_entries_Ret [OF this] show thesis
    using that [OF b] by (simp add: cardano_map_def map_filter_map)
qed

lemma governed_map_changes_ordered:
  assumes "get_governed_map_changes (Inr rows) (gm_validator_address scripts) after to (gm_asset_policy_id scripts) = Inr ds"
  shows "ordered_changes rows scripts after to ds"
proof -
  let ?of = "of_asset (gm_validator_address scripts) (gm_asset_policy_id scripts)"
  have mem: "c \<in> set ds \<longleftrightarrow> in_range after to (dc_block_no c) \<and>
      ((\<exists>r \<in> set rows. ?of r \<and> c = created_change r) \<or> (\<exists>r \<in> set rows. ?of r \<and> spent_change r = Some c))" for c
    using assms by (auto simp: get_governed_map_changes_def Let_def in_map_filter)
  have "set ds = change_set rows scripts after to" unfolding change_set_def set_eq_iff mem mem_Collect_eq by metis
  moreover have "sorted (map change_order ds)" using assms by (auto simp: get_governed_map_changes_def Let_def)
  ultimately show ?thesis by (simp add: ordered_changes_def)
qed

lemma decode_changes_Ret:
  assumes "decode_changes C ds = Ret cs"
  shows "map (\<lambda>c. (gc_key c, gc_value c)) cs = List.map_filter (change_entry C) ds"
    and "decode_changes C (filter (\<lambda>c. P (dc_block_no c)) ds) = Ret (filter (\<lambda>c. P (gc_block_no c)) cs)"
    and "\<forall>c \<in> set cs. \<exists>d \<in> set ds. gc_block_no c = dc_block_no d"
proof -
  have "map (\<lambda>c. (gc_key c, gc_value c)) cs = List.map_filter (change_entry C) ds \<and>
      decode_changes C (filter (\<lambda>c. P (dc_block_no c)) ds) = Ret (filter (\<lambda>c. P (gc_block_no c)) cs) \<and>
      (\<forall>c \<in> set cs. \<exists>d \<in> set ds. gc_block_no c = dc_block_no d)"
    using assms
  proof (induction ds arbitrary: cs)
    case (Cons d ds)
    then obtain e where e: "gm_datum C (dc_datum d) = Ret e" by (cases "gm_datum C (dc_datum d)") auto
    with Cons.prems obtain cs' where cs': "decode_changes C ds = Ret cs'" by (auto simp: exec_map_Ret_iff)
    show ?case using Cons.IH [OF cs'] Cons.prems e cs'
      by (cases e) (auto simp: List.map_filter_simps change_entry_def gm_entry_def)
  qed (simp add: List.map_filter_simps)
  then show "map (\<lambda>c. (gc_key c, gc_value c)) cs = List.map_filter (change_entry C) ds"
    and "decode_changes C (filter (\<lambda>c. P (dc_block_no c)) ds) = Ret (filter (\<lambda>c. P (gc_block_no c)) cs)"
    and "\<forall>c \<in> set cs. \<exists>d \<in> set ds. gc_block_no c = dc_block_no d" by blast+
qed

lemma ordered_changes_filter:
  assumes "ordered_changes rows scripts after to ds" and "\<And>n. in_range after' to' n \<Longrightarrow> in_range after to n"
  shows "ordered_changes rows scripts after' to' (filter (\<lambda>c. in_range after' to' (dc_block_no c)) ds)"
  using assms unfolding ordered_changes_def
  by (auto simp: change_set_def sorted_filter)

section \<open>Views of the ledger\<close>

definition cut_row :: "u32 \<Rightarrow> 'pd gm_row \<Rightarrow> 'pd gm_row" where
  "cut_row n r = r\<lparr>gr_spent := (case gr_spent r of None \<Rightarrow> None | Some q \<Rightarrow> if fst q \<le> n then Some q else None)\<rparr>"

definition ledger_view :: "u32 \<Rightarrow> 'pd gm_row list \<Rightarrow> 'pd gm_row list \<Rightarrow> bool" where
  "ledger_view n V W \<longleftrightarrow>
     cut_row n ` {r \<in> set V. fst (gr_created r) \<le> n} = cut_row n ` {r \<in> set W. fst (gr_created r) \<le> n} \<and>
     (\<forall>r \<in> set V \<union> set W. \<forall>q. gr_spent r = Some q \<longrightarrow> gr_created r < q)"

lemma ledger_view_sym: "ledger_view n V W \<Longrightarrow> ledger_view n W V"
  by (auto simp: ledger_view_def)

lemma ledger_view_row:
  assumes "ledger_view n V W" "r \<in> set V" "fst (gr_created r) \<le> n"
  obtains r' where "r' \<in> set W" "cut_row n r' = cut_row n r"
  using assms unfolding ledger_view_def by (metis (mono_tags, lifting) imageE imageI mem_Collect_eq)

lemma cut_row_same:
  assumes "cut_row n r' = cut_row n r"
  shows "gr_address r' = gr_address r" "gr_policy r' = gr_policy r" "gr_name r' = gr_name r" "gr_datum r' = gr_datum r"
    "gr_created r' = gr_created r" "fst q \<le> n \<Longrightarrow> gr_spent r' = Some q \<longleftrightarrow> gr_spent r = Some q"
  using assms by (cases r; cases r'; auto simp: cut_row_def split: option.splits if_splits)+

lemma change_set_view_sub:
  assumes "ledger_view n V W" "to \<le> n"
  shows "change_set V scripts after to \<subseteq> change_set W scripts after to"
proof
  fix c assume "c \<in> change_set V scripts after to"
  then obtain r where r: "r \<in> set V" "of_asset (gm_validator_address scripts) (gm_asset_policy_id scripts) r"
    "c = created_change r \<or> Some c = spent_change r" and range: "in_range after to (dc_block_no c)" by (auto simp: change_set_def)
  have early: "dc_block_no c \<le> n" using range assms(2) by (auto simp: in_range_def)
  have created: "fst (gr_created r) \<le> n"
    using r(3)
  proof
    assume "Some c = spent_change r"
    then obtain q where q: "gr_spent r = Some q" "dc_block_no c = fst q" using spent_changeD by metis
    then have "gr_created r < q" using assms(1) r(1) unfolding ledger_view_def by blast
    then show ?thesis using early q(2) by (auto simp: less_prod_def)
  qed (use early in \<open>simp add: created_change_def\<close>)
  obtain r' where r': "r' \<in> set W" "cut_row n r' = cut_row n r" using ledger_view_row [OF assms(1) r(1) created] .
  note same = cut_row_same [OF r'(2)]
  have "c = created_change r' \<or> Some c = spent_change r'"
    using r(3)
  proof
    assume "Some c = spent_change r"
    then obtain q where q: "gr_spent r = Some q" "dc_block_no c = fst q" using spent_changeD by metis
    then have "gr_spent r' = Some q" using same(6) early by simp
    then show ?thesis using \<open>Some c = spent_change r\<close> q(1) same(4) by (simp add: spent_change_def)
  qed (simp add: created_change_def same)
  moreover have "of_asset (gm_validator_address scripts) (gm_asset_policy_id scripts) r'"
    using r(2) same(1,2,3) by (simp add: of_asset_def)
  ultimately show "c \<in> change_set W scripts after to" using r'(1) range unfolding change_set_def by blast
qed

lemma change_set_view: "ledger_view n V W \<Longrightarrow> to \<le> n \<Longrightarrow> change_set W scripts after to = change_set V scripts after to"
  using change_set_view_sub [of n V W] change_set_view_sub [OF ledger_view_sym, of n V W] by blast

lemma live_view_sub:
  assumes "ledger_view n V W" "has_entry C V scripts k v r" "live_at n r"
  shows "\<exists>r'. has_entry C W scripts k v r' \<and> live_at n r'"
proof -
  have "fst (gr_created r) \<le> n" using assms(3) by (simp add: live_at_def)
  then obtain r' where r': "r' \<in> set W" "cut_row n r' = cut_row n r"
    using ledger_view_row [OF assms(1)] assms(2) by (auto simp: has_entry_def)
  note same = cut_row_same [OF r'(2)]
  have "n < fst q" if "gr_spent r' = Some q" for q
    using that same(6) [of q] assms(3) by (cases "fst q \<le> n") (auto simp: live_at_def)
  then have "live_at n r'" using assms(3) same(5) by (auto simp: live_at_def split: option.splits)
  moreover have "has_entry C W scripts k v r'" using assms(2) r'(1) same by (simp add: has_entry_def of_asset_def)
  ultimately show ?thesis by blast
qed

lemma cardano_map_view:
  assumes "one_output_per_key C V scripts" "ledger_view n V W"
  shows "cardano_map C W scripts n = cardano_map C V scripts n"
proof -
  have eq: "(\<exists>r. has_entry C W scripts k v r \<and> live_at n r) \<longleftrightarrow> (\<exists>r. has_entry C V scripts k v r \<and> live_at n r)" for k v
    using live_view_sub [OF assms(2)] live_view_sub [OF ledger_view_sym [OF assms(2)]] by blast
  have "cardano_map C W scripts n k = Some v \<longleftrightarrow> cardano_map C V scripts n k = Some v" for k v
  proof (subst cardano_map_at)
    fix k v v' assume "\<exists>r. has_entry C W scripts k v r \<and> live_at n r" "\<exists>r. has_entry C W scripts k v' r \<and> live_at n r"
    then have "cardano_map C V scripts n k = Some v" "cardano_map C V scripts n k = Some v'"
      unfolding cardano_map_iff [OF assms(1)] eq by blast+
    then show "v = v'" by simp
  qed (simp only: cardano_map_iff [OF assms(1)] eq)
  then show ?thesis by (intro ext) (metis option.exhaust)
qed

section \<open>The cache\<close>

definition gm_cache_ok :: "'pd csl \<Rightarrow> 'pd gm_row list \<Rightarrow> gm_cache \<Rightarrow> bool" where
  "gm_cache_ok C V c \<longleftrightarrow> gmc_highest c = None \<or>
     (\<exists>scripts since to ds l h. gmc_address c = Some (gm_validator_address scripts) \<and> gmc_policy c = Some (gm_asset_policy_id scripts) \<and>
        ordered_changes V scripts since to ds \<and> decode_changes C ds = Ret (gmc_changes c) \<and>
        gmc_lowest c = Some l \<and> gmc_highest c = Some h \<and>
        (gmc_changes c = [] \<and> h = 0 \<or> h \<le> to \<and> (\<forall>a. since = Some a \<longrightarrow> a < l)))"

lemma fold_min_max_in:
  "fold min bs b \<in> set (b # bs)" "fold max bs b \<in> set (b # bs)" for b :: "'a::linorder"
  by (induction bs arbitrary: b) (auto simp: min_def max_def)

lemma gm_cache_update_ok:
  assumes "ordered_changes V scripts since to ds" "decode_changes C ds = Ret cs"
    and "gmc_address c = Some (gm_validator_address scripts)" "gmc_policy c = Some (gm_asset_policy_id scripts)"
  shows "gm_cache_ok C V (gm_cache_update cs c)"
proof (cases "map gc_block_no cs")
  case Nil
  then show ?thesis using assms unfolding gm_cache_ok_def gm_cache_update_def by (simp add: Let_def) blast
next
  case (Cons b bs)
  have range: "in_range since to (gc_block_no x)" if "x \<in> set cs" for x
    using decode_changes_Ret(3) [OF assms(2)] that assms(1) by (auto simp: ordered_changes_def change_set_def)
  have "\<forall>n \<in> set (b # bs). in_range since to n" using range by (auto simp flip: Cons)
  then have "in_range since to (fold min bs b)" "in_range since to (fold max bs b)" using fold_min_max_in by blast+
  then have "fold max bs b \<le> to \<and> (\<forall>a. since = Some a \<longrightarrow> a < fold min bs b)" by (auto simp: in_range_def)
  then show ?thesis using assms unfolding gm_cache_ok_def gm_cache_update_def Cons by (simp add: Let_def) blast
qed

lemma gm_cache_set_scripts_ok: "gm_cache_ok C V c \<Longrightarrow> gm_cache_ok C V (gm_cache_set_scripts scripts c)"
proof -
  assume ok: "gm_cache_ok C V c"
  have "gm_cache_set_scripts scripts c = c \<or> gmc_highest (gm_cache_set_scripts scripts c) = None" by (simp add: gm_cache_set_scripts_def)
  then show ?thesis
  proof
    assume "gm_cache_set_scripts scripts c = c"
    then show ?thesis using ok by (simp only:)
  qed (simp add: gm_cache_ok_def)
qed

lemma gm_cache_set_scripts_simps [simp]:
  "gmc_address (gm_cache_set_scripts scripts c) = Some (gm_validator_address scripts)"
  "gmc_policy (gm_cache_set_scripts scripts c) = Some (gm_asset_policy_id scripts)"
  by (simp_all add: gm_cache_set_scripts_def)

lemma same_scripts:
  "gm_validator_address s = gm_validator_address s' \<Longrightarrow> gm_asset_policy_id s = gm_asset_policy_id s' \<Longrightarrow> s = (s' :: main_chain_scripts_v1)"
  by simp

lemma decoded_changes_apply:
  assumes "one_output_per_key C V scripts" "ordered_changes V scripts since to ds" "decode_changes C ds = Ret cs" "a \<le> b"
    and "\<And>n. in_range (Some a) b n \<Longrightarrow> in_range since to n"
  shows "fold (\<lambda>(k, v) m. m(k := v)) (filter_changes_in_range cs (Some a) b) (cardano_map C V scripts a) = cardano_map C V scripts b"
proof -
  let ?ds = "filter (\<lambda>c. in_range (Some a) b (dc_block_no c)) ds"
  have "ordered_changes V scripts (Some a) b ?ds" by (rule ordered_changes_filter [OF assms(2,5)])
  moreover have "filter_changes_in_range cs (Some a) b = List.map_filter (change_entry C) ?ds"
    unfolding filter_changes_in_range_def by (rule decode_changes_Ret(1) [OF decode_changes_Ret(2) [OF assms(3)]])
  ultimately show ?thesis using ordered_changes_apply [OF assms(1) _ assms(4)] by simp
qed

lemma served_changes_ok:
  assumes "gm_cache_ok C V c" "gmc_address c = Some (gm_validator_address scripts)" "gmc_policy c = Some (gm_asset_policy_id scripts)"
    and "one_output_per_key C V scripts" "a \<le> b" and served: "get_changes_in_range c (Some a) b = Some kvs"
  shows "fold (\<lambda>(k, v) m. m(k := v)) kvs (cardano_map C V scripts a) = cardano_map C V scripts b"
proof -
  obtain l h where lh: "gmc_lowest c = Some l" "gmc_highest c = Some h" "b \<le> h" "l \<le> a"
    and kvs: "kvs = filter_changes_in_range (gmc_changes c) (Some a) b"
    using served by (auto simp: get_changes_in_range_def split: option.splits if_splits)
  from assms(1) lh(1,2) obtain scripts' since to ds where
    sc: "gmc_address c = Some (gm_validator_address scripts')" "gmc_policy c = Some (gm_asset_policy_id scripts')"
    and ds: "ordered_changes V scripts' since to ds" "decode_changes C ds = Ret (gmc_changes c)"
    and bounds: "gmc_changes c = [] \<and> h = 0 \<or> h \<le> to \<and> (\<forall>a. since = Some a \<longrightarrow> a < l)"
    unfolding gm_cache_ok_def by auto
  have "scripts' = scripts" using sc assms(2,3) by (intro same_scripts) simp_all
  note ds = ds [unfolded this]
  from bounds show ?thesis
  proof
    assume "gmc_changes c = [] \<and> h = 0"
    then have "kvs = []" "a = b" using kvs lh(3) assms(5) by (simp_all add: filter_changes_in_range_def)
    then show ?thesis by simp
  next
    assume "h \<le> to \<and> (\<forall>a. since = Some a \<longrightarrow> a < l)"
    then have "in_range (Some a) b n \<Longrightarrow> in_range since to n" for n
      using lh(3,4) by (auto simp: in_range_def split: option.splits)
    then show ?thesis unfolding kvs by (rule decoded_changes_apply [OF assms(4) ds assms(5)])
  qed
qed

section \<open>A request\<close>

text \<open>The block source takes the time of the latest block, which is in seconds, for milliseconds. As long as no block of the
  main chain is that old, there is no stable block at this time, and the search ends at the requested block.\<close>

definition seconds_before :: "block_source_config \<Rightarrow> db_block list \<Rightarrow> bool" where
  "seconds_before cfg blocks \<longleftrightarrow> (\<forall>b \<in> set blocks. block_time (last blocks) div 1000 - min_slot_boundary cfg < block_time b)"

lemma no_stable_block_at_seconds:
  assumes chain: "chain_ok blocks" and "seconds_before cfg blocks"
    and run: "get_latest_stable_block_for cfg (Inr blocks :: 'e block_db) (mb_timestamp (to_mainchain_block (last blocks))) s = (Ret (Inr stable_block), s')"
  shows "stable_block = None \<and> s' = s"
proof -
  define ts where "ts = mb_timestamp (to_mainchain_block (last blocks))"
  have "last blocks \<in> set blocks" using chain by (simp add: chain_ok_def)
  then have "0 \<le> block_time (last blocks)" using chain by (simp add: chain_ok_def)
  then have early: "uint ts \<le> block_time (last blocks) div 1000"
    by (simp add: ts_def to_mainchain_block_def uint_word_of_int zmod_le_nonneg_dividend)
  have none: "db_get_highest_block (Inr blocks :: 'e block_db) n lo_time lo (max_allowed_block_time cfg (uint ts)) hi = Inr None" for n lo_time lo hi
  proof -
    have "\<not> block_time b \<le> uint ts - min_slot_boundary cfg" if "b \<in> set blocks" for b
      using assms(2) that early by (auto simp: seconds_before_def)
    then have "filter (\<lambda>b. P b \<and> block_time b \<le> uint ts - min_slot_boundary cfg) blocks = []" for P by (auto simp: filter_empty_conv)
    from this [of "\<lambda>b. block_no b \<le> n \<and> lo \<le> block_slot_no b \<and> block_slot_no b \<le> hi \<and> lo_time \<le> block_time b"]
    show ?thesis by (simp add: db_get_highest_block_def max_allowed_block_time_def)
  qed
  from run show ?thesis
    unfolding ts_def [symmetric]
    by (auto simp: get_latest_stable_block_for_def run_simps get_latest_block_def none Let_def
        timestamp_to_db_type_def io_some_block_def split: if_splits)
qed

text \<open>Blocks of the final main chain by their hash; what a node sees of them and of the ledger.\<close>

definition node_view ::
  "block_source_config \<Rightarrow> 'pd gm_row list \<Rightarrow> (bytes \<rightharpoonup> u32) \<Rightarrow> db_block list \<Rightarrow> 'pd gm_row list \<Rightarrow> blocks_cache \<Rightarrow> bool" where
  "node_view cfg V num blocks W cache \<longleftrightarrow> chain_ok blocks \<and> blocks_cache_ok cfg blocks cache \<and> seconds_before cfg blocks \<and>
     (\<forall>b \<in> set blocks. \<forall>n. num (block_hash b) = Some n \<longrightarrow> block_no b = n \<and> ledger_view n V W)"

lemma node_view_find:
  assumes "node_view cfg V num blocks W cache" "find (\<lambda>b. block_hash b = h) blocks = Some b" "num h = Some n"
  shows "block_no b = n" "ledger_view n V W"
proof -
  have "b \<in> set blocks" "block_hash b = h" using assms(2) by (auto simp: find_Some_iff)
  then show "block_no b = n" "ledger_view n V W" using assms(1,3) by (auto simp: node_view_def)
qed

lemma latest_stable_block_state: "snd (get_latest_stable_block_for cfg db ts s) = s"
  by (auto simp: get_latest_stable_block_for_def get_latest_block_def io_some_block_def io_bind_def io_lift_def Let_def
      split: exec.splits sum.splits prod.splits option.splits)

lemma gm_fetch:
  assumes view: "ledger_view n V W" and run: "get_changes_in_range_to_cache C (Inr W :: ('pd, 'e) gm_db) since n scripts = Ret (Inr cs)"
    and c: "gmc_address c = Some (gm_validator_address scripts)" "gmc_policy c = Some (gm_asset_policy_id scripts)"
  shows "gm_cache_ok C V (gm_cache_update cs c)"
    and "since = Some m \<Longrightarrow> m \<le> n \<Longrightarrow> one_output_per_key C V scripts \<Longrightarrow>
      fold (\<lambda>(k, v) f. f(k := v)) (filter_changes_in_range cs since n) (cardano_map C V scripts m) = cardano_map C V scripts n"
proof -
  obtain ds where ds: "get_governed_map_changes (Inr W :: ('pd, 'e) gm_db) (gm_validator_address scripts) since n (gm_asset_policy_id scripts) = Inr ds"
    "decode_changes C ds = Ret cs"
    using run by (auto simp: get_changes_in_range_to_cache_def address_to_string_def exec_map_Ret_iff split: if_splits sum.splits)
  have ord: "ordered_changes V scripts since n ds"
    using governed_map_changes_ordered [OF ds(1)] change_set_view [OF view, of n] by (simp add: ordered_changes_def)
  show "gm_cache_ok C V (gm_cache_update cs c)" by (rule gm_cache_update_ok [OF ord ds(2) c])
  show "fold (\<lambda>(k, v) f. f(k := v)) (filter_changes_in_range cs since n) (cardano_map C V scripts m) = cardano_map C V scripts n"
    if "since = Some m" "m \<le> n" "one_output_per_key C V scripts"
    using decoded_changes_apply [OF that(3) ord ds(2) that(2)] that(1) by simp
qed

lemma gm_request:
  fixes W :: "'pd gm_row list"
  assumes view: "node_view cfg V num blocks W (gms_blocks s)" and ok: "gm_cache_ok C V (gms_cache s)" and n: "num h = Some n"
    and run: "gm_cached_changes cfg sz C (Inr blocks :: 'e block_db) (Inr W :: ('pd, 'e) gm_db) p h scripts s = (r, s')"
  shows "gm_cache_ok C V (gms_cache s')"
    and "r = Ret (Inr kvs) \<Longrightarrow> p = Some q \<Longrightarrow> num q = Some m \<Longrightarrow> m \<le> n \<Longrightarrow> one_output_per_key C V scripts \<Longrightarrow>
      fold (\<lambda>(k, v) f. f(k := v)) kvs (cardano_map C V scripts m) = cardano_map C V scripts n"
proof -
  define s1 where "s1 = s\<lparr>gms_cache := gm_cache_set_scripts scripts (gms_cache s)\<rparr>"
  have s1: "gm_cache_ok C V (gms_cache s1)" "gmc_address (gms_cache s1) = Some (gm_validator_address scripts)"
    "gmc_policy (gms_cache s1) = Some (gm_asset_policy_id scripts)"
    using ok by (simp_all add: s1_def gm_cache_set_scripts_ok)
  have chain: "chain_ok blocks" and cache: "blocks_cache_ok cfg blocks (gms_blocks s1)" and secs: "seconds_before cfg blocks"
    using view by (auto simp: node_view_def s1_def)
  have lookup: "io_blocks (bs_get_block_by_hash (Inr blocks :: 'e block_db) h) s1 = (Ret (Inr (known_block blocks h)), s1)"
    by (simp add: io_blocks_def block_by_hash_answer [OF chain cache])
  have latest: "get_latest_block_info (Inr blocks :: 'e block_db) = Ret (Inr (to_mainchain_block (last blocks)))"
  proof -
    have "last blocks \<in> set blocks" using chain by (simp add: chain_ok_def)
    then have "0 \<le> block_time (last blocks)" using chain by (simp add: chain_ok_def)
    then show ?thesis
      by (simp add: get_latest_block_info_def db_get_latest_block_info_def chain_highest [OF chain] mainchain_block_of_Ret)
  qed
  have miss: "gm_cache_ok C V (gms_cache s') \<and> (r = Ret (Inr kvs) \<longrightarrow> p = Some q \<longrightarrow> num q = Some m \<longrightarrow> m \<le> n \<longrightarrow> one_output_per_key C V scripts \<longrightarrow>
      fold (\<lambda>(k, v) f. f(k := v)) kvs (cardano_map C V scripts m) = cardano_map C V scripts n)"
  proof (cases "since_number (Inr blocks :: 'e block_db) p")
    case (Inl e)
    then have "s' = s1 \<and> r = Ret (Inl e)" using run by (simp add: gm_cached_changes_def io_bind_def io_lift_def s1_def)
    then show ?thesis using s1(1) by simp
  next
    case (Inr since)
    note since = this
    show ?thesis
    proof (cases "find (\<lambda>b. block_hash b = h) blocks")
      case None
      then have "s' = s1 \<and> r = Ret (Inl ExpectedDataNotFound)"
        using run lookup since by (simp add: gm_cached_changes_def io_bind_def io_lift_def s1_def known_block_def)
      then show ?thesis using s1(1) by simp
    next
      case (Some b)
      have b: "block_no b = n" "ledger_view n V W" using node_view_find [OF view Some n] by simp_all
      have m: "since = Some m" if pq: "p = Some q" and qm: "num q = Some m"
      proof -
        obtain b' where b': "find (\<lambda>b. block_hash b = q) blocks = Some b'" "since = Some (block_no b')"
          using since pq by (auto simp: since_number_def db_get_block_by_hash_def split: option.splits)
        then show ?thesis using node_view_find(1) [OF view b'(1) qm] by simp
      qed
      show ?thesis
      proof (cases "get_changes_in_range (gms_cache s1) since n")
        case (Some served)
        then have "s' = s1 \<and> r = Ret (Inr served)"
          using run lookup since \<open>find _ blocks = Some b\<close> b(1)
          by (simp add: gm_cached_changes_def io_bind_def io_lift_def s1_def known_block_def)
        then show ?thesis using s1(1) served_changes_ok [OF s1] Some m by auto
      next
        case None
        obtain x s2 where st: "get_latest_stable_block_for cfg (Inr blocks :: 'e block_db) (mb_timestamp (to_mainchain_block (last blocks))) s1 = (x, s2)"
          by fastforce
        have s2: "s2 = s1" using latest_stable_block_state [of cfg "Inr blocks :: 'e block_db" _ s1] st by (metis snd_conv)
        have rest: "(case x of Panic \<Rightarrow> (Panic, s1) | Ret (Inl e) \<Rightarrow> (Ret (Inl e), s1)
            | Ret (Inr stable_block) \<Rightarrow> io_bind (io_lift (get_changes_in_range_to_cache C (Inr W) since (max_search_block sz since n stable_block) scripts)) (\<lambda>changes s.
                (Ret (Inr (filter_changes_in_range changes since n)), s\<lparr>gms_cache := gm_cache_update changes (gms_cache s)\<rparr>)) s1) = (r, s')"
          using run lookup since \<open>find _ blocks = Some b\<close> b(1) None st s2 latest
          unfolding gm_cached_changes_def s1_def [symmetric]
          by (simp add: io_bind_def [of "io_lift _"] io_bind_def [of "io_blocks _"] io_bind_def [of "get_latest_stable_block_for _ _ _"]
              io_lift_def known_block_def)
        show ?thesis
        proof (cases "\<exists>y. x = Ret (Inr y)")
          case False
          then have "s' = s1 \<and> r \<noteq> Ret (Inr kvs)" using rest by (cases x) (auto split: sum.splits)
          then show ?thesis using s1(1) by simp
        next
          case True
          then have x: "x = Ret (Inr None)" using no_stable_block_at_seconds [OF chain secs, of s1] st by auto
          have search: "max_search_block sz since n None = n" by (simp add: max_search_block_def Let_def min_def max_def)
          show ?thesis
          proof (cases "\<exists>cs. get_changes_in_range_to_cache C (Inr W :: ('pd, 'e) gm_db) since n scripts = Ret (Inr cs)")
            case True
            then obtain cs where cs: "get_changes_in_range_to_cache C (Inr W :: ('pd, 'e) gm_db) since n scripts = Ret (Inr cs)" by blast
            have "s' = s1\<lparr>gms_cache := gm_cache_update cs (gms_cache s1)\<rparr>" "r = Ret (Inr (filter_changes_in_range cs since n))"
              using rest by (auto simp: x search cs io_bind_def io_lift_def)
            then show ?thesis using gm_fetch [OF b(2) cs s1(2,3)] m by auto
          next
            case False
            then have "s' = s1 \<and> r \<noteq> Ret (Inr kvs)" using rest by (auto simp: x search io_bind_def io_lift_def split: exec.splits sum.splits)
            then show ?thesis using s1(1) by simp
          qed
        qed
      qed
    qed
  qed
  then show "gm_cache_ok C V (gms_cache s')"
    and "r = Ret (Inr kvs) \<Longrightarrow> p = Some q \<Longrightarrow> num q = Some m \<Longrightarrow> m \<le> n \<Longrightarrow> one_output_per_key C V scripts \<Longrightarrow>
      fold (\<lambda>(k, v) f. f(k := v)) kvs (cardano_map C V scripts m) = cardano_map C V scripts n" by blast+
qed

section \<open>Nodes and their sources\<close>

text \<open>The states of a source: it starts with an empty cache, shares the block cache with other sources, and answers requests
  for blocks of the final main chain under changing views.\<close>

inductive gm_history ::
  "block_source_config \<Rightarrow> u16 \<Rightarrow> 'pd csl \<Rightarrow> 'pd gm_row list \<Rightarrow> (bytes \<rightharpoonup> u32) \<Rightarrow> 'e itself \<Rightarrow> gm_source_state \<Rightarrow> bool"
  for cfg sz C V num and T :: "'e itself" where
  started: "gm_history cfg sz C V num T \<lparr>gms_cache = gm_cache_default, gms_blocks = cache\<rparr>"
| shared: "gm_history cfg sz C V num T s \<Longrightarrow> gm_history cfg sz C V num T (s\<lparr>gms_blocks := cache\<rparr>)"
| asked: "gm_history cfg sz C V num T s \<Longrightarrow> node_view cfg V num blocks W (gms_blocks s) \<Longrightarrow> num h = Some n \<Longrightarrow>
    gm_history cfg sz C V num T (snd (gm_cached_changes cfg sz C (Inr blocks :: 'e block_db) (Inr W) p h scripts s))"

lemma gm_history_cache: "gm_history cfg sz C V num T s \<Longrightarrow> gm_cache_ok C V (gms_cache s)"
proof (induction rule: gm_history.induct)
  case (asked s blocks W h n p scripts)
  then show ?case by (metis gm_request(1) prod.collapse)
qed (simp_all add: gm_cache_ok_def gm_cache_default_def)

definition to_answer :: "('e + 'a) exec \<Rightarrow> unit + 'a" where
  "to_answer r = (case r of Ret (Inr a) \<Rightarrow> Inr a | _ \<Rightarrow> Inl ())"

definition gm_node_source ::
  "block_source_config \<Rightarrow> u16 \<Rightarrow> 'pd csl \<Rightarrow> 'e block_db \<Rightarrow> ('pd, 'e) gm_db \<Rightarrow> gm_source_state \<Rightarrow> (bytes, unit) gm_data_source" where
  "gm_node_source cfg sz C blocks W s = \<lparr>
     get_state_at_block = (\<lambda>h scripts. to_answer (get_mappings_entries C blocks W h scripts)),
     get_mapping_changes = (\<lambda>p h scripts. to_answer (fst (gm_cached_changes cfg sz C blocks W p h scripts s)))\<rparr>"

definition gm_sources ::
  "block_source_config \<Rightarrow> u16 \<Rightarrow> 'pd csl \<Rightarrow> 'pd gm_row list \<Rightarrow> (bytes \<rightharpoonup> u32) \<Rightarrow> 'e itself \<Rightarrow> (bytes, unit) gm_data_source set" where
  "gm_sources cfg sz C V num T = {gm_node_source cfg sz C (Inr blocks :: 'e block_db) (Inr W) s | blocks W s.
     gm_history cfg sz C V num T s \<and> node_view cfg V num blocks W (gms_blocks s)}"

definition ascends :: "(bytes \<rightharpoonup> u32) \<Rightarrow> bytes option \<Rightarrow> bytes \<Rightarrow> bool" where
  "ascends num p h \<longleftrightarrow> (\<exists>n. num h = Some n \<and> (\<forall>q. p = Some q \<longrightarrow> (\<exists>m. num q = Some m \<and> m \<le> n)))"

definition ledger_map :: "'pd csl \<Rightarrow> 'pd gm_row list \<Rightarrow> (bytes \<rightharpoonup> u32) \<Rightarrow> main_chain_scripts_v1 \<Rightarrow> bytes \<Rightarrow> (bytes \<rightharpoonup> bytes)" where
  "ledger_map C V num scripts h = (case num h of Some n \<Rightarrow> cardano_map C V scripts n | None \<Rightarrow> Map.empty)"

lemma to_answer_Inr [simp]: "to_answer r = Inr a \<longleftrightarrow> r = Ret (Inr a)"
  by (auto simp: to_answer_def split: exec.splits sum.splits)

lemma gm_sources_ok:
  assumes keys: "\<And>scripts. one_output_per_key C V scripts" and ds: "ds \<in> gm_sources cfg sz C V num (T :: 'e itself)"
  shows "gm_source_ok (ascends num) (ledger_map C V num) ds"
proof -
  obtain blocks W s where ds: "ds = gm_node_source cfg sz C (Inr blocks :: 'e block_db) (Inr W) s"
    and hist: "gm_history cfg sz C V num T s" and view: "node_view cfg V num blocks W (gms_blocks s)"
    using ds by (auto simp: gm_sources_def)
  have state: "btm_ok m \<and> map_of m = ledger_map C V num scripts h"
    if asc: "ascends num p h" and run: "get_mappings_entries C (Inr blocks :: 'e block_db) (Inr W) h scripts = Ret (Inr m)" for p h scripts m
  proof -
    obtain n where n: "num h = Some n" using asc by (auto simp: ascends_def)
    from run show ?thesis
    proof (rule get_mappings_entries_Inr)
      fix b assume b: "find (\<lambda>b. block_hash b = h) blocks = Some b" "btm_ok m" "map_of m = cardano_map C W scripts (block_no b)"
      then show ?thesis using node_view_find [OF view b(1) n] cardano_map_view [OF keys] by (simp add: ledger_map_def n)
    qed
  qed
  have changes: "fold (\<lambda>(k, v) m. m(k := v)) kvs (ledger_map C V num scripts q) = ledger_map C V num scripts h"
    if asc: "ascends num (Some q) h" and ret: "fst (gm_cached_changes cfg sz C (Inr blocks :: 'e block_db) (Inr W) (Some q) h scripts s) = Ret (Inr kvs)"
    for q h scripts kvs
  proof -
    obtain n m where n: "num h = Some n" "num q = Some m" "m \<le> n" using asc by (auto simp: ascends_def)
    obtain r s' where run: "gm_cached_changes cfg sz C (Inr blocks :: 'e block_db) (Inr W) (Some q) h scripts s = (r, s')" by fastforce
    have "r = Ret (Inr kvs)" using ret run by simp
    from gm_request(2) [OF view gm_history_cache [OF hist] n(1) run this refl n(2,3) keys] show ?thesis
      by (simp add: ledger_map_def n)
  qed
  show ?thesis unfolding gm_source_ok_def ds gm_node_source_def using state changes by simp
qed

section \<open>Properties\<close>

text \<open>C17: The Governed Map of a chain follows the ledger of the main chain, whatever caches and views the verifying nodes have: when the
  outputs that hold one key have disjoint lifetimes and the references of the chain ascend, an initialised pallet maps a key to a value
  exactly if the ledger has an output, unspent at the block referenced last, under the configured scripts, whose datum is that pair.\<close>

theorem governed_map_follows_ledger:
  assumes "\<forall>scripts. one_output_per_key C V scripts"
    and "gm_run cfg (gm_sources bcfg sz C V num (T :: 'e itself)) (ascends num) n mc (st, h)" and "gm_initialized st"
  shows "\<exists>scripts b m. gm_main_chain_scripts st = Some scripts \<and> mc = Some b \<and> num b = Some m \<and>
    (\<forall>key v. get_key_value key st = Some v \<longleftrightarrow>
      (\<exists>r \<in> set V. of_asset (gm_validator_address scripts) (gm_asset_policy_id scripts) r \<and> live_at m r \<and>
         gm_entry C (gr_datum r) = Some (key, v)))"
proof -
  have keys: "one_output_per_key C V scripts" for scripts using assms(1) by blast
  have "gm_inv (ledger_map C V num) n mc (fst (st, h))"
    by (rule gm_run_inv [OF _ assms(2)]) (rule gm_sources_ok [OF keys])
  then obtain scripts b where inv: "gm_main_chain_scripts st = Some scripts" "mc = Some b" "gm_mapping st = ledger_map C V num scripts b"
    using assms(3) by (auto simp: gm_inv_def)
  obtain m where m: "num b = Some m"
    using assms(2) unfolding inv(2)
  proof cases
    case (block n parent st h ds idp calls r origin s1 extrinsics)
    then show ?thesis using that by (auto simp: ascends_def)
  qed
  have "get_key_value key st = Some v \<longleftrightarrow> (\<exists>r. has_entry C V scripts key v r \<and> live_at m r)" for key v
    by (simp add: get_key_value_def inv(3) ledger_map_def m cardano_map_iff [OF keys])
  then show ?thesis using inv(1,2) m by (auto simp: has_entry_def)
qed

definition entry_row :: "'pd csl \<Rightarrow> main_chain_scripts_v1 \<Rightarrow> bytes \<Rightarrow> bytes \<Rightarrow> chain_position \<Rightarrow> chain_position option \<Rightarrow> 'pd gm_row" where
  "entry_row C scripts k v created spent = \<lparr>gr_address = gm_validator_address scripts, gr_policy = gm_asset_policy_id scripts, gr_name = [],
     gr_datum = governed_map_datum_to_plutus_data C \<lparr>gmd_key = k, gmd_value = v\<rparr>, gr_created = created, gr_spent = spent\<rparr>"

lemma entry_row_simps [simp]:
  "of_asset (gm_validator_address scripts) (gm_asset_policy_id scripts) (entry_row C scripts k v p q)"
  "gr_created (entry_row C scripts k v p q) = p" "gr_spent (entry_row C scripts k v p q) = q"
  "live_at n (entry_row C scripts k v p q) \<longleftrightarrow> fst p \<le> n \<and> (case q of None \<Rightarrow> True | Some q \<Rightarrow> n < fst q)"
  by (simp_all add: entry_row_def of_asset_def live_at_def)

lemma gm_datum_entry_row:
  assumes "csl_ok C" "valid_utf8 k"
  shows "gm_datum C (gr_datum (entry_row C scripts k v p q)) = Ret (Some \<lparr>gmd_key = k, gmd_value = v\<rparr>)"
  using assms(2)
  by (simp add: gm_datum_def entry_row_def governed_map_datum_try_from_def governed_map_datum_to_plutus_data_def csl_simps [OF assms(1)] pl_get_def)

text \<open>C18: A key held by two outputs is lost by the cached source. When two unspent outputs hold the same entry and one of them is spent,
  the map on the ledger does not change, which is what the source without a cache reports; the cached source reports that the
  key is deleted.\<close>

theorem governed_map_duplicate_key_lost:
  assumes "csl_ok C" and "valid_utf8 k" and "valid_utf8 (gm_validator_address scripts)"
    and "fst p1 \<le> a" and "fst p2 \<le> a" and "a < fst q" and "fst q \<le> b"
    and "rows = [entry_row C scripts k v p1 (Some q), entry_row C scripts k v p2 None]"
  shows "get_changes_in_range_to_cache C (Inr rows :: ('pd, 'e) gm_db) (Some a) b scripts =
      Ret (Inr [\<lparr>gc_block_no = fst q, gc_key = k, gc_value = None\<rparr>]) \<and>
    cardano_map C rows scripts a = [k \<mapsto> v] \<and> cardano_map C rows scripts b = [k \<mapsto> v]"
proof (intro conjI)
  have entry: "gm_datum C (gr_datum (entry_row C scripts k v p q)) = Ret (Some \<lparr>gmd_key = k, gmd_value = v\<rparr>)" for p q
    by (rule gm_datum_entry_row [OF assms(1,2)])
  have entry': "gm_entry C (gr_datum (entry_row C scripts k v p q)) = Some (k, v)" for p q
    by (simp add: gm_entry_def entry)
  have "get_governed_map_changes (Inr rows :: ('pd, 'e) gm_db) (gm_validator_address scripts) (Some a) b (gm_asset_policy_id scripts) =
      Inr [\<lparr>dc_datum = gr_datum (entry_row C scripts k v p1 (Some q)), dc_block_no = fst q, dc_block_index = snd q, dc_action = GmSpend\<rparr>]"
  proof -
    have "\<not> a < fst p1" "\<not> a < fst p2" using assms(4,5) by simp_all
    then show ?thesis using assms(6,7)
      by (cases q) (simp add: assms(8) get_governed_map_changes_def created_change_def spent_change_def in_range_def)
  qed
  then show "get_changes_in_range_to_cache C (Inr rows :: ('pd, 'e) gm_db) (Some a) b scripts =
      Ret (Inr [\<lparr>gc_block_no = fst q, gc_key = k, gc_value = None\<rparr>])"
    using assms(3) by (simp add: get_changes_in_range_to_cache_def address_to_string_def entry)
  have "fst p1 \<le> b" "fst p2 \<le> b" using assms(4-7) by auto
  then show "cardano_map C rows scripts a = [k \<mapsto> v]" "cardano_map C rows scripts b = [k \<mapsto> v]"
    using assms(4-7) by (simp_all add: assms(8) cardano_map_def entry')
qed

section \<open>An example\<close>

definition gmx_scripts :: main_chain_scripts_v1 where
  "gmx_scripts = \<lparr>gm_validator_address = [97], gm_asset_policy_id = [8]\<rparr>"

definition gmx_ledger :: "datum gm_row list" where
  "gmx_ledger = [entry_row datum_csl gmx_scripts [107] [1] (1, 0) (Some (2, 0)), entry_row datum_csl gmx_scripts [107] [2] (2, 0) None]"

definition gmx_block :: "u32 \<Rightarrow> u8 \<Rightarrow> int \<Rightarrow> db_block" where
  "gmx_block n h t = \<lparr>block_no = n, block_hash = [h], block_epoch_no = 0, block_slot_no = 0, block_time = t\<rparr>"

definition gmx_blocks :: "db_block list" where
  "gmx_blocks = [gmx_block 1 1 5000, gmx_block 2 2 6000]"

definition gmx_num :: "bytes \<rightharpoonup> u32" where
  "gmx_num = [[1] \<mapsto> 1, [2] \<mapsto> 2]"

definition gmx_config :: block_source_config where
  "gmx_config = \<lparr>security_parameter = 0, min_slot_boundary = 0, max_slot_boundary = 0,
     bs_epoch_config = \<lparr>epoch_duration_millis = 100000, slot_duration_millis = 1000, first_epoch_timestamp_millis = 0,
       first_epoch_number = 0, first_slot_number = 0\<rparr>,
     block_stability_margin = 0, blocks_cache_size = 0, date_time_in_range = (\<lambda>_. True)\<rparr>"

abbreviation gmx_state :: gm_source_state where
  "gmx_state \<equiv> \<lparr>gms_cache = gm_cache_default, gms_blocks = []\<rparr>"

abbreviation gmx_source :: "(bytes, unit) gm_data_source" where
  "gmx_source \<equiv> gm_node_source gmx_config 10 datum_csl (Inr gmx_blocks :: unit block_db) (Inr gmx_ledger) gmx_state"

lemma gmx_utf8: "valid_utf8 [107]" "valid_utf8 (gm_validator_address gmx_scripts)"
  by (simp_all add: valid_utf8.simps utf8_head_def gmx_scripts_def)

lemma gmx_keys: "one_output_per_key datum_csl gmx_ledger scripts"
  by (auto simp: one_output_per_key_def gmx_ledger_def disjoint_lives_def)

lemma gmx_view: "node_view gmx_config gmx_ledger gmx_num gmx_blocks gmx_ledger []"
  by (auto simp: node_view_def chain_ok_def gmx_blocks_def gmx_block_def blocks_cache_ok_def seconds_before_def gmx_config_def gmx_num_def
      ledger_view_def gmx_ledger_def)

lemma gmx_source_in: "gmx_source \<in> gm_sources gmx_config 10 datum_csl gmx_ledger gmx_num TYPE(unit)"
  unfolding gm_sources_def using gmx_view gm_history.started [of gmx_config 10 datum_csl gmx_ledger gmx_num "TYPE(unit)" "[]"] by force

lemma gmx_first: "get_state_at_block gmx_source [1] gmx_scripts = Inr [([107], [1])]"
  by (simp add: gm_node_source_def get_mappings_entries_def db_get_block_by_hash_def gmx_blocks_def gmx_block_def gmx_ledger_def
      address_to_string_def gmx_utf8 get_datums_at_address_with_token_def gm_datum_entry_row [OF datum_csl_ok] word_le_nat_alt)

lemma gmx_second: "get_mapping_changes gmx_source (Some [1]) [2] gmx_scripts = Inr [([107], None), ([107], Some [2])]"
proof -
  have stable_block: "get_latest_stable_block_for gmx_config (Inr gmx_blocks :: unit block_db) 6 s = (Ret (Inr None), s)" for s :: gm_source_state
    by (simp add: get_latest_stable_block_for_def get_latest_block_info_def db_get_latest_block_info_def gmx_blocks_def gmx_block_def gmx_config_def
        timestamp_to_db_type_def io_bind_def io_lift_def mainchain_block_of_def get_latest_block_def date_time_to_slot_def
        min_block_allowed_time_def max_allowed_block_time_def timestamp_to_mainchain_slot_number_def db_get_highest_block_def io_some_block_def
        saturating_sub_def checked_sub_def exec_div_def Let_def)
  have "get_governed_map_changes (Inr gmx_ledger :: (datum, unit) gm_db) (gm_validator_address gmx_scripts) (Some 1) 2 (gm_asset_policy_id gmx_scripts) =
      Inr [\<lparr>dc_datum = gr_datum (entry_row datum_csl gmx_scripts [107] [1] (1, 0) (Some (2, 0))), dc_block_no = 2, dc_block_index = 0, dc_action = GmSpend\<rparr>,
        \<lparr>dc_datum = gr_datum (entry_row datum_csl gmx_scripts [107] [2] (2, 0) None), dc_block_no = 2, dc_block_index = 0, dc_action = GmCreate\<rparr>]"
    by (simp add: get_governed_map_changes_def gmx_ledger_def created_change_def spent_change_def in_range_def change_order_def less_eq_prod_def)
  then have "get_changes_in_range_to_cache datum_csl (Inr gmx_ledger :: (datum, unit) gm_db) (Some 1) 2 gmx_scripts =
      Ret (Inr [\<lparr>gc_block_no = 2, gc_key = [107], gc_value = None\<rparr>, \<lparr>gc_block_no = 2, gc_key = [107], gc_value = Some [2]\<rparr>])"
    by (simp add: get_changes_in_range_to_cache_def address_to_string_def gmx_utf8 gm_datum_entry_row [OF datum_csl_ok])
  then show ?thesis
    using stable_block
    by (simp add: gm_node_source_def gm_cached_changes_def io_bind_def io_lift_def since_number_def db_get_block_by_hash_def gmx_blocks_def gmx_block_def
        io_blocks_def bs_get_block_by_hash_def find_by_hash_def io_some_block_def mainchain_block_of_def gm_cache_default_def gm_cache_set_scripts_def
        get_changes_in_range_def get_latest_block_info_def db_get_latest_block_info_def max_search_block_def filter_changes_in_range_def in_range_def)
qed

lemma gmx_step:
  assumes "gm_run demo_gm_config S follows n parent (st, h)" "ds \<in> S" "follows parent mc"
    and "gm_idp_new (gm_api_of st) mc parent ds = Inr (GmActiveV1 raw)"
    and "gm_create_inherent demo_gm_config st (Inr (Some raw)) = Ret (Some (RegisterChanges raw))"
    and "gm_inherents demo_gm_config (Suc n) True [RegisterChanges raw] (st, h) = Inr s1"
  shows "gm_run demo_gm_config S follows (Suc n) (Some mc) s1"
proof -
  have "verify_inherents (gm_check_inherent demo_gm_config) gm_is_inherent gm_is_inherent_required st (Inr (Some raw)) [RegisterChanges raw]"
    by (rule gm.honest_block_accepted [OF TrueI]) (simp only: honest_calls_def assms(5) exec_map.simps option.case)
  from gm_run.block [OF assms(1-4), where calls = "[RegisterChanges raw]" and r = "Some (RegisterChanges raw)" and origin = True
      and ?s1.0 = s1 and extrinsics = "[]"] this assms(5,6)
  show ?thesis by simp
qed

definition gmx_end :: gm_state where
  "gmx_end = \<lparr>gm_initialized = True, last_update_block = Some 2, gm_mapping = [[107] \<mapsto> [2]], gm_main_chain_scripts = Some gmx_scripts\<rparr>"

lemma gmx_run:
  "\<exists>h. gm_run demo_gm_config (gm_sources gmx_config 10 datum_csl gmx_ledger gmx_num TYPE(unit)) (ascends gmx_num) 2 (Some [2]) (gmx_end, h)"
proof -
  define S where "S = gm_sources gmx_config 10 datum_csl gmx_ledger gmx_num TYPE(unit)"
  define st0 where "st0 = gm_genesis_build (Some gmx_scripts) gm_empty"
  define st1 where "st1 = st0\<lparr>last_update_block := Some 1, gm_initialized := True, gm_mapping := [[107] \<mapsto> [1]]\<rparr>"
  have ds: "gmx_source \<in> S" unfolding S_def by (rule gmx_source_in)
  note simps = gm_idp_new_def gm_idp_new_v1_def gm_api_of_def st0_def st1_def gm_genesis_build_def gm_empty_def gm_diff_def
    gm_create_inherent_iff demo_gm_config_def bound_key_def bound_value_def try_insert_def register_changes_def register_change_def ensure_def
  have "gm_run demo_gm_config S (ascends gmx_num) 0 None (st0, [])" unfolding st0_def by (rule gm_run.genesis)
  then have "gm_run demo_gm_config S (ascends gmx_num) (Suc 0) (Some [1]) (st1, [([107], Some [1], None)])"
    by (rule gmx_step [OF _ ds, where raw = "[([107], Some [1])]"]) (simp_all add: simps gmx_first ascends_def gmx_num_def)
  then have "gm_run demo_gm_config S (ascends gmx_num) (Suc (Suc 0)) (Some [2]) (gmx_end, [([107], Some [1], None), ([107], Some [2], Some [1])])"
    by (rule gmx_step [OF _ ds, where raw = "[([107], Some [2])]"]) (simp_all add: simps gmx_second ascends_def gmx_num_def gmx_end_def)
  then show ?thesis unfolding S_def numeral_2_eq_2 by blast
qed

theorem governed_map_follows_ledger_witness:
  "\<exists>r \<in> set gmx_ledger. live_at 2 r \<and> gm_entry datum_csl (gr_datum r) = Some ([107], [2])"
proof -
  obtain h where run: "gm_run demo_gm_config (gm_sources gmx_config 10 datum_csl gmx_ledger gmx_num TYPE(unit)) (ascends gmx_num) 2 (Some [2]) (gmx_end, h)"
    using gmx_run by blast
  have "gm_initialized gmx_end" "get_key_value [107] gmx_end = Some [2]" "gmx_num [2] = Some 2"
    by (simp_all add: gmx_end_def get_key_value_def gmx_num_def)
  then show ?thesis using governed_map_follows_ledger [OF _ run] gmx_keys by auto
qed

theorem governed_map_duplicate_key_lost_witness:
  "get_changes_in_range_to_cache datum_csl (Inr [entry_row datum_csl gmx_scripts [107] [1] (1, 0) (Some (5, 0)),
      entry_row datum_csl gmx_scripts [107] [1] (2, 0) None] :: (datum, unit) gm_db) (Some 3) 6 gmx_scripts =
     Ret (Inr [\<lparr>gc_block_no = 5, gc_key = [107], gc_value = None\<rparr>])"
  using governed_map_duplicate_key_lost [where ?'e = unit, OF datum_csl_ok gmx_utf8 _ _ _ _ refl, of "(1, 0)" 3 "(2, 0)" "(5, 0)" 6 "[1]"]
  by simp

end
