(* ===== verification/Committee_Query.thy ===== *)
theory Committee_Query
  imports Session_Support Candidate_Agreement
begin

text \<open>
  The committee queries of a node, \<open>toolkit/committee-selection/query/src\<close>: the search for a block of a
  given epoch (\<open>block_search.rs\<close>), the committee of an epoch (\<open>lib.rs\<close>), and the candidates and their
  registrations with the reasons why some are not valid (\<open>get_registrations.rs\<close>, \<open>types\<close>).

  The client is the record \<open>query_client\<close>, a snapshot of the node's headers and of the runtime
  interfaces at each block hash; the runtime's own side of those interfaces is \<open>api_current_committee\<close>
  and the four definitions after it. \<open>to_hex\<close> of \<open>sp_core\<close>, the SS58 text of the account of a public key
  and the bytes of an authority id are the record \<open>query_env\<close>. A \<open>HashMap\<close> is a partial function; its
  keys are UTF-8 bytes or hexadecimal text. The search is a loop over 32-bit block numbers whose sum may
  wrap; it is defined without a bound, with \<open>None\<close> for a search that does not return.
\<close>

section \<open>The client\<close>

datatype 'x api_error = UnknownBlock u32 | CouldNotFindBlock | ClientError 'x

datatype ('x, 'd) query_error =
    ApiFailed "'x api_error"
  | NotInArchiveMode 'x
  | OnlyGenesisExists
  | EarlierThanInitialEpoch u64
  | CommitteeUnknown u64
  | NextCommitteeUnknown u64
  | DataSourceFailed 'd

record ('hash, 'x, 'id, 'keys) query_client =
  qc_genesis_hash :: 'hash
  qc_best_number :: u32
  qc_best_hash :: 'hash
  qc_hash :: "u32 \<Rightarrow> 'x + 'hash option"
  qc_status_epoch :: "'hash \<Rightarrow> 'x + u64"
  qc_api_version :: "'hash \<Rightarrow> 'x + u32 option"
  qc_current_committee_before_version_2 :: "'hash \<Rightarrow> 'x + u64 \<times> ('id, 'keys) committee_member list"
  qc_current_committee :: "'hash \<Rightarrow> 'x + u64 \<times> ('id, 'keys) committee_member list"
  qc_next_committee_before_version_2 :: "'hash \<Rightarrow> 'x + (u64 \<times> ('id, 'keys) committee_member list) option"
  qc_next_committee :: "'hash \<Rightarrow> 'x + (u64 \<times> ('id, 'keys) committee_member list) option"
  qc_main_chain_scripts :: "'hash \<Rightarrow> 'x + main_chain_scripts"
  qc_validate_registered :: "'hash \<Rightarrow> bytes \<Rightarrow> registration_data \<Rightarrow> 'x + registration_data_error option"
  qc_validate_stake :: "'hash \<Rightarrow> u64 option \<Rightarrow> 'x + stake_error option"
  qc_validate_permissioned :: "'hash \<Rightarrow> permissioned_candidate_data \<Rightarrow> 'x + permissioned_candidate_data_error option"

record 'id query_env =
  qe_to_hex :: "bytes \<Rightarrow> string"
  qe_account_ss58 :: "bytes \<Rightarrow> string"
  qe_as_ref :: "'id \<Rightarrow> bytes"

section \<open>Block search\<close>

definition get_epoch_of_block :: "('hash, 'x, 'id, 'keys) query_client \<Rightarrow> u32 \<Rightarrow> 'x api_error + u64" where
  "get_epoch_of_block C block_number =
     try_bind (map_err ClientError (qc_hash C block_number)) (\<lambda>found.
     try_bind (ok_or found (UnknownBlock block_number)) (\<lambda>block_hash.
       map_err ClientError (qc_status_epoch C block_hash)))"

definition hash_of_found :: "('hash, 'x, 'id, 'keys) query_client \<Rightarrow> u32 \<Rightarrow> ('x api_error + 'hash) exec" where
  "hash_of_found C middle =
     (case qc_hash C middle of Inl x \<Rightarrow> Ret (Inl (ClientError x)) | Inr h \<Rightarrow> exec_map Inr (expect h))"

partial_function (option) search_epoch ::
  "('hash, 'x, 'id, 'keys) query_client \<Rightarrow> u64 \<Rightarrow> u32 \<Rightarrow> u32 \<Rightarrow> ('x api_error + 'hash) exec option" where
  "search_epoch C epoch left right =
     (if left \<le> right then
        (let middle = (left + right) div 2 in
         case get_epoch_of_block C middle of
           Inl x \<Rightarrow> Some (Ret (Inl x))
         | Inr block_epoch \<Rightarrow>
             if block_epoch < epoch then search_epoch C epoch (middle + 1) right
             else if epoch < block_epoch then search_epoch C epoch left (middle - 1)
             else Some (hash_of_found C middle))
      else Some (Ret (Inl CouldNotFindBlock)))"

definition find_any_block_in_epoch ::
  "('hash, 'x, 'id, 'keys) query_client \<Rightarrow> u64 \<Rightarrow> ('x api_error + 'hash) exec option" where
  "find_any_block_in_epoch C epoch = search_epoch C epoch 1 (qc_best_number C)"

section \<open>The committee of an epoch\<close>

record get_committee_response =
  gcr_sidechain_epoch :: u64
  gcr_committee :: "string list"

definition response_committee_member :: "'id query_env \<Rightarrow> 'id \<Rightarrow> string" where
  "response_committee_member Q a = qe_to_hex Q (qe_as_ref Q a)"

definition get_committee_response_new :: "'id query_env \<Rightarrow> u64 \<Rightarrow> ('id, 'keys) committee_member list \<Rightarrow> get_committee_response" where
  "get_committee_response_new Q sidechain_epoch committee =
     \<lparr>gcr_sidechain_epoch = sidechain_epoch,
      gcr_committee = map (\<lambda>m. response_committee_member Q (authority_id m)) committee\<rparr>"

definition get_committee_response_legacy :: "'id query_env \<Rightarrow> u64 \<Rightarrow> 'id list \<Rightarrow> get_committee_response" where
  "get_committee_response_legacy Q sidechain_epoch committee =
     \<lparr>gcr_sidechain_epoch = sidechain_epoch, gcr_committee = map (response_committee_member Q) committee\<rparr>"

definition api_err :: "'x + 'a \<Rightarrow> ('x, 'd) query_error + 'a" where
  "api_err = map_err (\<lambda>x. ApiFailed (ClientError x))"

definition validator_management_api_version ::
  "('hash, 'x, 'id, 'keys) query_client \<Rightarrow> 'hash \<Rightarrow> ('x, 'd) query_error + u32" where
  "validator_management_api_version C block =
     try_bind (api_err (qc_api_version C block)) (\<lambda>v. Inr (case v of Some n \<Rightarrow> n | None \<Rightarrow> 1))"

definition get_current_committee_versioned ::
  "'id query_env \<Rightarrow> ('hash, 'x, 'id, 'keys) query_client \<Rightarrow> 'hash \<Rightarrow> ('x, 'd) query_error + get_committee_response" where
  "get_current_committee_versioned Q C block =
     try_bind (validator_management_api_version C block) (\<lambda>version.
       if version < 2 then
         try_bind (api_err (qc_current_committee_before_version_2 C block)) (\<lambda>(epoch, authorities).
           Inr (get_committee_response_legacy Q epoch (map authority_id authorities)))
       else
         try_bind (api_err (qc_current_committee C block)) (\<lambda>(epoch, authority_data).
           Inr (get_committee_response_new Q epoch authority_data)))"

definition get_next_committee_versioned ::
  "'id query_env \<Rightarrow> ('hash, 'x, 'id, 'keys) query_client \<Rightarrow> 'hash \<Rightarrow> ('x, 'd) query_error + get_committee_response option" where
  "get_next_committee_versioned Q C block =
     try_bind (validator_management_api_version C block) (\<lambda>version.
       if version < 2 then
         try_bind (api_err (qc_next_committee_before_version_2 C block)) (\<lambda>r.
           Inr (map_option (\<lambda>(epoch, authorities). get_committee_response_legacy Q epoch (map authority_id authorities)) r))
       else
         try_bind (api_err (qc_next_committee C block)) (\<lambda>r.
           Inr (map_option (\<lambda>(epoch, authority_data). get_committee_response_new Q epoch authority_data) r)))"

definition get_first_epoch :: "('hash, 'x, 'id, 'keys) query_client \<Rightarrow> ('x, 'd) query_error + u64" where
  "get_first_epoch C =
     try_bind (map_err NotInArchiveMode (qc_hash C 1)) (\<lambda>found.
     try_bind (ok_or found OnlyGenesisExists) (\<lambda>second_block.
       api_err (qc_status_epoch C second_block)))"

definition committee_in_known_range ::
  "'id query_env \<Rightarrow> ('hash, 'x, 'id, 'keys) query_client \<Rightarrow> u64 \<Rightarrow> u64 \<Rightarrow>
   (('x, 'd) query_error + get_committee_response) exec option" where
  "committee_in_known_range Q C epoch_number epoch_of_latest_block =
     (if epoch_of_latest_block + 1 < epoch_number then Some (Ret (Inl (CommitteeUnknown epoch_number)))
      else if epoch_number = epoch_of_latest_block + 1 then
        Some (Ret (try_bind (get_next_committee_versioned Q C (qc_best_hash C)) (\<lambda>r.
          ok_or r (NextCommitteeUnknown epoch_number))))
      else
        map_option (exec_map (\<lambda>r. try_bind (map_err ApiFailed r) (get_current_committee_versioned Q C)))
          (find_any_block_in_epoch C epoch_number))"

definition get_epoch_committee ::
  "'id query_env \<Rightarrow> ('hash, 'x, 'id, 'keys) query_client \<Rightarrow> u64 \<Rightarrow>
   (('x, 'd) query_error + get_committee_response) exec option" where
  "get_epoch_committee Q C epoch_number =
     (if epoch_number = 0 then
        Some (Ret (try_bind (get_current_committee_versioned Q C (qc_genesis_hash C))
          (\<lambda>genesis_committee. Inr (genesis_committee\<lparr>gcr_sidechain_epoch := 0\<rparr>))))
      else
        case try_bind (get_first_epoch C) (\<lambda>first_epoch.
          try_bind (ensure (first_epoch \<le> epoch_number) (EarlierThanInitialEpoch epoch_number)) (\<lambda>_.
            map_err ApiFailed (get_epoch_of_block C (qc_best_number C)))) of
          Inl x \<Rightarrow> Some (Ret (Inl x))
        | Inr epoch_of_latest_block \<Rightarrow> committee_in_known_range Q C epoch_number epoch_of_latest_block)"

section \<open>Registrations\<close>

datatype registration_error = StakeInvalid stake_error | InvalidRegistrationData registration_data_error

record candidate_registration_entry =
  cre_sidechain_pub_key :: string
  cre_sidechain_account_id :: string
  cre_mainchain_pub_key :: string
  cre_cross_chain_pub_key :: string
  cre_keys :: "bytes \<rightharpoonup> bytes"
  cre_sidechain_signature :: string
  cre_mainchain_signature :: string
  cre_cross_chain_signature :: string
  cre_utxo :: utxo_info
  cre_stake_delegation :: "u64 option"
  cre_is_valid :: bool
  cre_invalid_reasons :: "registration_error option"

type_synonym registrations_response_map = "string \<rightharpoonup> candidate_registration_entry list"

text \<open>The text of a key id that is not UTF-8: the bytes of \<open>"<invalid>"\<close>.\<close>

definition invalid_key_text :: bytes where
  "invalid_key_text = [0x3C, 0x69, 0x6E, 0x76, 0x61, 0x6C, 0x69, 0x64, 0x3E]"

definition keys_to_map :: "candidate_keys \<Rightarrow> bytes \<rightharpoonup> bytes" where
  "keys_to_map keys =
     foldl (\<lambda>m key. m((if valid_utf8 (ck_id key) then ck_id key else invalid_key_text) \<mapsto> ck_bytes key)) Map.empty keys"

definition sidechain_account_ss58 :: "'id query_env \<Rightarrow> bytes \<Rightarrow> bytes + string" where
  "sidechain_account_ss58 Q sidechain_pub_key =
     (if length sidechain_pub_key = 33 then Inr (qe_account_ss58 Q sidechain_pub_key) else Inl sidechain_pub_key)"

definition registration_entry_new ::
  "'id query_env \<Rightarrow> registration_data \<Rightarrow> bytes \<Rightarrow> u64 option \<Rightarrow> registration_data_error option \<Rightarrow>
   candidate_registration_entry" where
  "registration_entry_new Q rd stake_pool_public_key stake_delegation invalid_reasons =
     \<lparr>cre_sidechain_pub_key = qe_to_hex Q (rd_sidechain_pub_key rd),
      cre_sidechain_account_id =
        (case sidechain_account_ss58 Q (rd_sidechain_pub_key rd) of
           Inr text \<Rightarrow> text | Inl _ \<Rightarrow> ''Invalid Sidechain Public Key. Could not decode...''),
      cre_mainchain_pub_key = qe_to_hex Q stake_pool_public_key,
      cre_cross_chain_pub_key = qe_to_hex Q (rd_cross_chain_pub_key rd),
      cre_keys = keys_to_map (rd_keys rd),
      cre_sidechain_signature = qe_to_hex Q (rd_sidechain_signature rd),
      cre_mainchain_signature = qe_to_hex Q (rd_mainchain_signature rd),
      cre_cross_chain_signature = qe_to_hex Q (rd_cross_chain_signature rd),
      cre_utxo = rd_utxo_info rd,
      cre_stake_delegation = stake_delegation,
      cre_is_valid = (invalid_reasons = None),
      cre_invalid_reasons = map_option InvalidRegistrationData invalid_reasons\<rparr>"

text \<open>\<open>Iterator::rposition\<close>: the index of the last element that satisfies the predicate.\<close>

fun rposition :: "('a \<Rightarrow> bool) \<Rightarrow> 'a list \<Rightarrow> nat option" where
  "rposition P [] = None"
| "rposition P (x # xs) =
     (case rposition P xs of Some i \<Rightarrow> Some (Suc i) | None \<Rightarrow> if P x then Some 0 else None)"

definition mark_first :: "stake_error \<Rightarrow> candidate_registration_entry list \<Rightarrow> candidate_registration_entry list" where
  "mark_first err entries =
     (case entries of
        [] \<Rightarrow> []
      | first # rest \<Rightarrow>
          if cre_is_valid first
          then first\<lparr>cre_is_valid := False, cre_invalid_reasons := Some (StakeInvalid err)\<rparr> # rest
          else entries)"

definition candidate_entries ::
  "'id query_env \<Rightarrow> (bytes \<Rightarrow> registration_data \<Rightarrow> 'x + registration_data_error option) \<Rightarrow>
   (u64 option \<Rightarrow> 'x + stake_error option) \<Rightarrow> candidate_registrations \<Rightarrow> 'x + candidate_registration_entry list" where
  "candidate_entries Q registration_data_validation stake_validation candidate =
     try_bind (traverse_sum (\<lambda>rd.
         try_bind (registration_data_validation (cr_stake_pool_public_key candidate) rd) (\<lambda>validation_result.
           Inr (registration_entry_new Q rd (cr_stake_pool_public_key candidate) (cr_stake_delegation candidate)
             validation_result))) (cr_registrations candidate)) (\<lambda>registration_entries.
     let registration_entries = sort_key (\<lambda>entry. ordering_key (cre_utxo entry)) registration_entries;
         latest_valid_or_zero = (case rposition cre_is_valid registration_entries of Some i \<Rightarrow> i | None \<Rightarrow> 0);
         registration_entries = drop latest_valid_or_zero registration_entries
     in try_bind (stake_validation (cr_stake_delegation candidate)) (\<lambda>stake_result.
        Inr (case stake_result of Some err \<Rightarrow> mark_first err registration_entries | None \<Rightarrow> registration_entries)))"

fun registrations_into_map ::
  "'id query_env \<Rightarrow> (bytes \<Rightarrow> registration_data \<Rightarrow> 'x + registration_data_error option) \<Rightarrow>
   (u64 option \<Rightarrow> 'x + stake_error option) \<Rightarrow> candidate_registrations list \<Rightarrow> registrations_response_map \<Rightarrow>
   'x + registrations_response_map" where
  "registrations_into_map Q vr vs [] m = Inr m"
| "registrations_into_map Q vr vs (candidate # candidates) m =
     try_bind (candidate_entries Q vr vs candidate) (\<lambda>entries.
       registrations_into_map Q vr vs candidates (m(qe_to_hex Q (cr_stake_pool_public_key candidate) \<mapsto> entries)))"

definition get_registrations_response_map ::
  "'id query_env \<Rightarrow> candidate_registrations list \<Rightarrow> (bytes \<Rightarrow> registration_data \<Rightarrow> 'x + registration_data_error option) \<Rightarrow>
   (u64 option \<Rightarrow> 'x + stake_error option) \<Rightarrow> 'x + registrations_response_map" where
  "get_registrations_response_map Q candidates registration_data_validation stake_validation =
     registrations_into_map Q registration_data_validation stake_validation candidates Map.empty"

definition candidates_registrations_for_epoch ::
  "'id query_env \<Rightarrow> ('hash, 'x, 'id, 'keys) query_client \<Rightarrow> ('s, 'd) candidate_source \<Rightarrow> mc_epoch_number \<Rightarrow> bytes \<Rightarrow>
   ('s, ('x, 'd) query_error, registrations_response_map) io" where
  "candidates_registrations_for_epoch Q C ds mc_epoch committee_candidate_addr =
     io_bind (io_map_err DataSourceFailed (ds_candidates ds mc_epoch committee_candidate_addr)) (\<lambda>candidates.
       io_lift (Ret (api_err (get_registrations_response_map Q candidates
         (qc_validate_registered C (qc_best_hash C)) (qc_validate_stake C (qc_best_hash C))))))"

definition get_registrations ::
  "'id query_env \<Rightarrow> ('hash, 'x, 'id, 'keys) query_client \<Rightarrow> ('s, 'd) candidate_source \<Rightarrow> mc_epoch_number \<Rightarrow> bytes \<Rightarrow>
   ('s, ('x, 'd) query_error, candidate_registration_entry list) io" where
  "get_registrations Q C ds mc_epoch_number mc_public_key =
     io_bind (io_lift (Ret (api_err (qc_main_chain_scripts C (qc_best_hash C))))) (\<lambda>scripts.
     io_bind (candidates_registrations_for_epoch Q C ds mc_epoch_number (committee_candidate_address scripts))
       (\<lambda>registrations_map. io_lift (Ret (Inr (case registrations_map (qe_to_hex Q mc_public_key) of
          Some entries \<Rightarrow> entries | None \<Rightarrow> [])))))"

section \<open>Ariadne parameters\<close>

record permissioned_candidate_response =
  pcr_sidechain_public_key :: bytes
  pcr_keys :: "bytes \<rightharpoonup> bytes"
  pcr_is_valid :: bool
  pcr_invalid_reasons :: "permissioned_candidate_data_error option"

record ariadne_parameters_response =
  apr_d_parameter :: d_parameter
  apr_permissioned_candidates :: "permissioned_candidate_response list option"
  apr_candidate_registrations :: registrations_response_map

definition permissioned_response_new ::
  "permissioned_candidate_data \<Rightarrow> permissioned_candidate_data_error option \<Rightarrow> permissioned_candidate_response" where
  "permissioned_response_new data invalid_reasons =
     \<lparr>pcr_sidechain_public_key = pcd_sidechain_public_key data, pcr_keys = keys_to_map (pcd_keys data),
      pcr_is_valid = (invalid_reasons = None), pcr_invalid_reasons = invalid_reasons\<rparr>"

definition query_ariadne_parameters ::
  "'id query_env \<Rightarrow> ('hash, 'x, 'id, 'keys) query_client \<Rightarrow> ('s, 'd) candidate_source \<Rightarrow> mc_epoch_number \<Rightarrow>
   ('s, ('x, 'd) query_error, ariadne_parameters_response) io" where
  "query_ariadne_parameters Q C ds epoch_number =
     io_bind (io_lift (Ret (api_err (qc_main_chain_scripts C (qc_best_hash C))))) (\<lambda>scripts.
     io_bind (io_map_err DataSourceFailed (ds_ariadne_parameters ds epoch_number (d_parameter_policy_id scripts)
         (permissioned_candidates_policy_id scripts))) (\<lambda>parameters.
     io_bind (candidates_registrations_for_epoch Q C ds epoch_number (committee_candidate_address scripts))
       (\<lambda>candidate_registrations.
     io_bind (io_lift (Ret (case ap_permissioned_candidates parameters of
         None \<Rightarrow> Inr None
       | Some candidates \<Rightarrow>
           try_bind (traverse_sum (\<lambda>candidate.
             try_bind (api_err (qc_validate_permissioned C (qc_best_hash C) candidate)) (\<lambda>validation_result.
               Inr (permissioned_response_new candidate validation_result))) candidates) (\<lambda>cs. Inr (Some cs)))))
       (\<lambda>permissioned_candidates.
     io_lift (Ret (Inr \<lparr>apr_d_parameter = ap_d_parameter parameters,
       apr_permissioned_candidates = permissioned_candidates,
       apr_candidate_registrations = candidate_registrations\<rparr>))))))"

section \<open>The runtime's side\<close>

fun result_err :: "'e + 'a \<Rightarrow> 'e option" where
  "result_err (Inl e) = Some e"
| "result_err (Inr x) = None"

definition api_current_committee :: "('acc, 'id, 'keys) smc_state \<Rightarrow> u64 \<times> ('id, 'keys) committee_member list" where
  "api_current_committee st = as_pair (current_committee st)"

definition api_next_committee :: "('acc, 'id, 'keys) smc_state \<Rightarrow> (u64 \<times> ('id, 'keys) committee_member list) option" where
  "api_next_committee st = map_option as_pair (next_committee_st st)"

definition api_validate_registered_candidate_data ::
  "('id, 'keys) candidate_env \<Rightarrow> utxo_id \<Rightarrow> bytes \<Rightarrow> registration_data \<Rightarrow> registration_data_error option" where
  "api_validate_registered_candidate_data E genesis_utxo stake_pool_public_key rd =
     result_err (validate_registration_data E stake_pool_public_key rd genesis_utxo)"

definition api_validate_stake :: "u64 option \<Rightarrow> stake_error option" where
  "api_validate_stake stake = result_err (validate_stake stake)"

definition api_validate_permissioned_candidate_data ::
  "('id, 'keys) candidate_env \<Rightarrow> permissioned_candidate_data \<Rightarrow> permissioned_candidate_data_error option" where
  "api_validate_permissioned_candidate_data E candidate = result_err (validate_permissioned_candidate_data E candidate)"

section \<open>The search returns\<close>

lemma unat_middle:
  fixes left right :: u32
  assumes "left \<le> right" and "unat right < 2 ^ 31"
  shows "unat ((left + right) div 2) = (unat left + unat right) div 2"
proof -
  have "unat left \<le> unat right" using assms(1) by (simp add: word_le_nat_alt)
  then have "unat (left + right) = unat left + unat right"
    using assms(2) by (intro unat_add_no_overflow) simp
  then show ?thesis by (simp add: unat_div)
qed

lemma middle_bounds:
  fixes left right :: u32
  assumes "left \<le> right" and "unat right < 2 ^ 31" and "0 < left"
  defines "middle \<equiv> (left + right) div 2"
  shows "left \<le> middle" and "middle \<le> right" and "unat (middle + 1) = unat middle + 1"
    and "unat (middle - 1) = unat middle - 1" and "0 < middle" and "0 < middle + 1"
proof -
  have lr: "unat left \<le> unat right" using assms(1) by (simp add: word_le_nat_alt)
  have l: "0 < unat left" using assms(3) by (simp add: word_less_nat_alt)
  have m: "unat middle = (unat left + unat right) div 2"
    unfolding middle_def by (rule unat_middle [OF assms(1,2)])
  show lm: "left \<le> middle" and "middle \<le> right" using lr by (simp_all add: word_le_nat_alt m)
  have mb: "unat middle < 2 ^ 31" using lr assms(2) by (simp add: m)
  then show s: "unat (middle + 1) = unat middle + 1"
    using unat_add_no_overflow [of middle 1] by simp
  show pos: "0 < middle" using lm l by (simp add: word_le_nat_alt word_less_nat_alt)
  then have "1 \<le> middle" by (simp add: word_le_nat_alt word_less_nat_alt)
  then show "unat (middle - 1) = unat middle - 1" using unat_sub_le [of 1 middle] by simp
  show "0 < middle + 1" using s by (simp add: word_less_nat_alt)
qed

lemma search_epoch_returns:
  assumes "unat right < 2 ^ 31" and "0 < left"
  shows "\<exists>r. search_epoch C epoch left right = Some r"
  using assms
proof (induction "unat right + 1 - unat left" arbitrary: left right rule: less_induct)
  case less
  show ?case
  proof (cases "left \<le> right")
    case False
    then show ?thesis by (subst search_epoch.simps) simp
  next
    case True
    let ?m = "(left + right) div 2"
    note b = middle_bounds [OF True less.prems]
    have m: "unat left \<le> unat ?m" "unat ?m \<le> unat right" using b(1,2) by (simp_all add: word_le_nat_alt)
    have m0: "0 < unat ?m" using b(5) by (simp add: word_less_nat_alt)
    have up: "\<exists>r. search_epoch C epoch (?m + 1) right = Some r"
      using m less.prems(1) by (intro less.hyps b(6)) (simp_all only: b(3))
    have down: "\<exists>r. search_epoch C epoch left (?m - 1) = Some r"
      using m m0 less.prems by (intro less.hyps) (simp_all only: b(4))
    show ?thesis
      using up down True by (subst search_epoch.simps) (simp add: Let_def split: sum.split)
  qed
qed

text \<open>Beyond that bound the sum of the two ends may wrap around, and the search may not return.\<close>

lemma search_epoch_wraps:
  assumes "get_epoch_of_block C 0 = Inr e0" and "e0 < epoch"
  shows "search_epoch C epoch 1 (- 1) = None"
proof -
  have "False" if "search_epoch C epoch 1 (- 1) = Some y" for y
  proof -
    have "\<not> (D = C \<and> e = epoch \<and> l = 1 \<and> r = - 1)" if "search_epoch D e l r = Some z" for D e l r z
      using that
    proof (rule search_epoch.raw_induct [rotated])
      fix search_epoch :: "('b, 'a, 'c, 'd) query_client \<Rightarrow> u64 \<Rightarrow> u32 \<Rightarrow> u32 \<Rightarrow> ('a api_error + 'b) exec option"
      fix D e l r z
      assume ih: "\<And>D e l r z. search_epoch D e l r = Some z \<Longrightarrow> \<not> (D = C \<and> e = epoch \<and> l = 1 \<and> r = - 1)"
        and "(if l \<le> r then let middle = (l + r) div 2 in
           case get_epoch_of_block D middle of Inl x \<Rightarrow> Some (Ret (Inl x))
           | Inr block_epoch \<Rightarrow>
               if block_epoch < e then search_epoch D e (middle + 1) r
               else if e < block_epoch then search_epoch D e l (middle - 1)
               else Some (hash_of_found D middle)
          else Some (Ret (Inl CouldNotFindBlock))) = Some z"
      then show "\<not> (D = C \<and> e = epoch \<and> l = 1 \<and> r = - 1)"
        using assms ih [of C epoch 1 "- 1" z] by (auto simp: Let_def)
    qed
    with that show False by blast
  qed
  then show ?thesis by (cases "search_epoch C epoch 1 (- 1)") auto
qed

section \<open>The search finds a block\<close>

text \<open>A node that keeps every block: \<open>hsh\<close> and \<open>ep\<close> are the hash and the epoch of each block number, and
  epochs do not decrease along the chain.\<close>

definition archive_client ::
  "('hash, 'x, 'id, 'keys) query_client \<Rightarrow> (u32 \<Rightarrow> 'hash) \<Rightarrow> (u32 \<Rightarrow> u64) \<Rightarrow> bool" where
  "archive_client C hsh ep \<longleftrightarrow>
     0 < qc_best_number C \<and> unat (qc_best_number C) < 2 ^ 31 \<and>
     qc_genesis_hash C = hsh 0 \<and> qc_best_hash C = hsh (qc_best_number C) \<and>
     (\<forall>n \<le> qc_best_number C. qc_hash C n = Inr (Some (hsh n))) \<and>
     (\<forall>n \<le> qc_best_number C. 0 < n \<longrightarrow> qc_status_epoch C (hsh n) = Inr (ep n)) \<and>
     (\<forall>m n. 0 < m \<longrightarrow> m \<le> n \<longrightarrow> n \<le> qc_best_number C \<longrightarrow> ep m \<le> ep n)"

definition in_epoch :: "('hash, 'x, 'id, 'keys) query_client \<Rightarrow> (u32 \<Rightarrow> u64) \<Rightarrow> u64 \<Rightarrow> u32 \<Rightarrow> bool" where
  "in_epoch C ep e n \<longleftrightarrow> 0 < n \<and> n \<le> qc_best_number C \<and> ep n = e"

lemma archive_clientD:
  assumes "archive_client C hsh ep"
  shows "0 < qc_best_number C" and "unat (qc_best_number C) < 2 ^ 31" and "qc_best_hash C = hsh (qc_best_number C)"
    and "n \<le> qc_best_number C \<Longrightarrow> qc_hash C n = Inr (Some (hsh n))"
    and "0 < n \<Longrightarrow> n \<le> qc_best_number C \<Longrightarrow> qc_status_epoch C (hsh n) = Inr (ep n)"
    and "0 < m \<Longrightarrow> m \<le> n \<Longrightarrow> n \<le> qc_best_number C \<Longrightarrow> ep m \<le> ep n"
  using assms by (auto simp: archive_client_def)

lemma archive_epoch_of_block:
  assumes "archive_client C hsh ep" and "0 < n" and "n \<le> qc_best_number C"
  shows "get_epoch_of_block C n = Inr (ep n)" and "hash_of_found C n = Ret (Inr (hsh n))"
  using archive_clientD(4) [OF assms(1,3)] archive_clientD(5) [OF assms]
  by (simp_all add: get_epoch_of_block_def hash_of_found_def)

lemma search_epoch_finds:
  assumes ac: "archive_client C hsh ep" and "0 < left" and "right \<le> qc_best_number C"
    and "\<And>n. in_epoch C ep e n \<Longrightarrow> left \<le> n \<and> n \<le> right"
  shows "(\<exists>n. in_epoch C ep e n \<and> search_epoch C e left right = Some (Ret (Inr (hsh n)))) \<or>
    (\<nexists>n. in_epoch C ep e n) \<and> search_epoch C e left right = Some (Ret (Inl CouldNotFindBlock))"
  using assms(2-)
proof (induction "unat right + 1 - unat left" arbitrary: left right rule: less_induct)
  case less
  show ?case
  proof (cases "left \<le> right")
    case False
    then have "search_epoch C e left right = Some (Ret (Inl CouldNotFindBlock))"
      by (subst search_epoch.simps) simp
    moreover have "\<nexists>n. in_epoch C ep e n" using less.prems(3) False by force
    ultimately show ?thesis by blast
  next
    case True
    let ?m = "(left + right) div 2"
    have rb: "unat right < 2 ^ 31"
      using archive_clientD(2) [OF ac] less.prems(2) by (simp add: word_le_nat_alt)
    note b = middle_bounds [OF True rb less.prems(1)]
    have m: "unat left \<le> unat ?m" "unat ?m \<le> unat right" using b(1,2) by (simp_all add: word_le_nat_alt)
    have m0: "0 < unat ?m" using b(5) by (simp add: word_less_nat_alt)
    have mbest: "?m \<le> qc_best_number C" using b(2) less.prems(2) by (rule order_trans)
    note em = archive_epoch_of_block [OF ac b(5) mbest]
    have step: "search_epoch C e left right =
        (if ep ?m < e then search_epoch C e (?m + 1) right
         else if e < ep ?m then search_epoch C e left (?m - 1) else Some (Ret (Inr (hsh ?m))))"
      by (subst search_epoch.simps) (simp add: Let_def True em)
    consider "ep ?m < e" | "e < ep ?m" | "ep ?m = e" by (meson linorder_less_linear)
    then show ?thesis
    proof cases
      case 1
      have "?m + 1 \<le> n \<and> n \<le> right" if n: "in_epoch C ep e n" for n
      proof -
        have "\<not> n \<le> ?m"
          using archive_clientD(6) [OF ac, of n ?m] n 1 mbest by (auto simp: in_epoch_def)
        then have "unat ?m < unat n" by (simp add: word_le_nat_alt)
        then have "?m + 1 \<le> n" unfolding word_le_nat_alt b(3) by simp
        then show ?thesis using less.prems(3) [OF n] by simp
      qed
      note range = this
      have "unat right + 1 - unat (?m + 1) < unat right + 1 - unat left" using m unfolding b(3) by simp
      from less.hyps [OF this b(6) less.prems(2) range] show ?thesis unfolding step using 1 by simp
    next
      case 2
      have "left \<le> n \<and> n \<le> ?m - 1" if n: "in_epoch C ep e n" for n
      proof -
        have "\<not> ?m \<le> n"
          using archive_clientD(6) [OF ac b(5), of n] n 2 by (auto simp: in_epoch_def)
        then have "unat n < unat ?m" by (simp add: word_le_nat_alt)
        then have "n \<le> ?m - 1" unfolding word_le_nat_alt b(4) by simp
        then show ?thesis using less.prems(3) [OF n] by simp
      qed
      note range = this
      have best: "?m - 1 \<le> qc_best_number C"
        using mbest unfolding word_le_nat_alt b(4) by simp
      have "unat (?m - 1) + 1 - unat left < unat right + 1 - unat left" using m m0 unfolding b(4) by linarith
      note found = less.hyps [OF this less.prems(1) best range]
      have "\<not> ep ?m < e" using 2 by simp
      with 2 found show ?thesis unfolding step by simp
    next
      case 3
      then show ?thesis using b(5) mbest unfolding step by (auto simp: in_epoch_def)
    qed
  qed
qed

section \<open>The committee of an epoch is found\<close>

text \<open>The runtime at every block answers from its pallet's state, with a current version of the interface.\<close>

definition serves_committees ::
  "('hash, 'x, 'id, 'keys) query_client \<Rightarrow> (u32 \<Rightarrow> 'hash) \<Rightarrow> (u32 \<Rightarrow> ('acc, 'id, 'keys) smc_state) \<Rightarrow> bool" where
  "serves_committees C hsh st \<longleftrightarrow>
     (\<forall>n \<le> qc_best_number C. (\<exists>v \<ge> 2. qc_api_version C (hsh n) = Inr (Some v)) \<and>
        qc_current_committee C (hsh n) = Inr (api_current_committee (st n)) \<and>
        qc_next_committee C (hsh n) = Inr (api_next_committee (st n)))"

definition committee_response :: "'id query_env \<Rightarrow> ('id, 'keys) committee_info \<Rightarrow> get_committee_response" where
  "committee_response Q ci = get_committee_response_new Q (ci_epoch ci) (ci_committee ci)"

lemma committee_response_epoch [simp]: "gcr_sidechain_epoch (committee_response Q ci) = ci_epoch ci"
  by (simp add: committee_response_def get_committee_response_new_def)

lemma versioned_committees:
  assumes "serves_committees C hsh st" and "n \<le> qc_best_number C"
  shows "get_current_committee_versioned Q C (hsh n) = Inr (committee_response Q (current_committee (st n)))"
    and "get_next_committee_versioned Q C (hsh n) = Inr (map_option (committee_response Q) (next_committee_st (st n)))"
proof -
  obtain v where v: "2 \<le> v" "qc_api_version C (hsh n) = Inr (Some v)"
    and c: "qc_current_committee C (hsh n) = Inr (api_current_committee (st n))"
    and nx: "qc_next_committee C (hsh n) = Inr (api_next_committee (st n))"
    using assms by (auto simp: serves_committees_def)
  have "\<not> v < 2" using v(1) by simp
  then show "get_current_committee_versioned Q C (hsh n) = Inr (committee_response Q (current_committee (st n)))"
    and "get_next_committee_versioned Q C (hsh n) = Inr (map_option (committee_response Q) (next_committee_st (st n)))"
    by (simp_all add: get_current_committee_versioned_def get_next_committee_versioned_def
        validator_management_api_version_def api_err_def v(2) c nx api_current_committee_def api_next_committee_def
        as_pair_def committee_response_def [abs_def] option.map_comp o_def)
qed

lemma find_any_block_archive:
  assumes "archive_client C hsh ep"
  obtains (found) n where "in_epoch C ep e n" and "find_any_block_in_epoch C e = Some (Ret (Inr (hsh n)))"
  | (missing) "\<nexists>n. in_epoch C ep e n" and "find_any_block_in_epoch C e = Some (Ret (Inl CouldNotFindBlock))"
proof -
  have "1 \<le> n \<and> n \<le> qc_best_number C" if "in_epoch C ep e n" for n
    using that by (simp add: in_epoch_def word_le_nat_alt word_less_nat_alt)
  then have "(\<exists>n. in_epoch C ep e n \<and> search_epoch C e 1 (qc_best_number C) = Some (Ret (Inr (hsh n)))) \<or>
      (\<nexists>n. in_epoch C ep e n) \<and> search_epoch C e 1 (qc_best_number C) = Some (Ret (Inl CouldNotFindBlock))"
    by (intro search_epoch_finds [OF assms]) simp_all
  then show thesis
    using found missing unfolding find_any_block_in_epoch_def by blast
qed

lemma first_epoch_archive:
  assumes ac: "archive_client C hsh ep"
  shows "get_first_epoch C = Inr (ep 1)"
proof -
  have one: "(1 :: u32) \<le> qc_best_number C"
    using archive_clientD(1) [OF ac] by (simp add: word_le_nat_alt word_less_nat_alt)
  then show ?thesis
    using archive_clientD(4) [OF ac one] archive_clientD(5) [OF ac _ one]
    by (simp add: get_first_epoch_def api_err_def)
qed

text \<open>The cases of a query for an epoch other than 0.\<close>

lemma get_epoch_committee_archive:
  assumes ac: "archive_client C hsh ep" and "e \<noteq> 0"
  shows "get_epoch_committee Q C e =
    (if e < ep 1 then Some (Ret (Inl (EarlierThanInitialEpoch e)))
     else committee_in_known_range Q C e (ep (qc_best_number C)))"
proof -
  have "get_epoch_of_block C (qc_best_number C) = Inr (ep (qc_best_number C))"
    by (rule archive_epoch_of_block(1) [OF ac archive_clientD(1) [OF ac]]) simp
  then show ?thesis using assms(2) by (auto simp: get_epoch_committee_def ensure_def first_epoch_archive [OF ac])
qed

lemma in_epoch_bounds:
  assumes ac: "archive_client C hsh ep" and "in_epoch C ep e n"
  shows "ep 1 \<le> e" and "e \<le> ep (qc_best_number C)"
proof -
  have n: "0 < n" "n \<le> qc_best_number C" "ep n = e" using assms(2) by (simp_all add: in_epoch_def)
  then have "1 \<le> n" by (simp add: word_le_nat_alt word_less_nat_alt)
  then show "ep 1 \<le> e" using archive_clientD(6) [OF ac, of 1 n] n by simp
  show "e \<le> ep (qc_best_number C)" using archive_clientD(6) [OF ac n(1,2)] n(3) by simp
qed

lemma unat_next_epoch:
  fixes x :: u64
  assumes "x \<noteq> - 1"
  shows "unat (x + 1) = unat x + 1"
proof -
  have "unat (- 1 :: u64) = 2 ^ 64 - 1" by (simp add: unsigned_minus_1_eq_mask mask_eq_exp_minus_1)
  then have "unat x \<noteq> 2 ^ 64 - 1" using assms by (metis word_unat_eq_iff)
  moreover have "unat x < 2 ^ 64" using unsigned_less [of x, where ?'a = nat] by simp
  ultimately show ?thesis using unat_add_no_overflow [of x 1] by simp
qed

lemma known_range_archive:
  fixes C :: "('hash, 'x, 'id, 'keys) query_client"
  assumes ac: "archive_client C hsh ep" and sv: "serves_committees C hsh st"
    and top: "ep (qc_best_number C) \<noteq> - 1"
  shows "\<exists>r :: ('x, 'd) query_error + get_committee_response. committee_in_known_range Q C e (ep (qc_best_number C)) = Some (Ret r) \<and>
      (case r of
         Inr answer \<Rightarrow> (\<exists>n. in_epoch C ep e n \<and> answer = committee_response Q (current_committee (st n))) \<or>
           (\<exists>ci. e = ep (qc_best_number C) + 1 \<and> next_committee_st (st (qc_best_number C)) = Some ci \<and>
              answer = committee_response Q ci)
       | Inl _ \<Rightarrow> (\<nexists>n. in_epoch C ep e n) \<and>
           \<not> (e = ep (qc_best_number C) + 1 \<and> next_committee_st (st (qc_best_number C)) \<noteq> None))"
proof -
  let ?top = "ep (qc_best_number C)"
  have le_next: "x < ?top + 1" if "x \<le> ?top" for x
    using that unat_next_epoch [OF top] by (simp add: word_le_nat_alt word_less_nat_alt)
  have below: "\<nexists>n. in_epoch C ep e n" if "\<not> e < ?top + 1"
    using in_epoch_bounds(2) [OF ac] le_next that by blast
  have best: "qc_best_hash C = hsh (qc_best_number C)" by (rule archive_clientD(3) [OF ac])
  note nx = versioned_committees(2) [OF sv order_refl, of Q, folded best]
  show ?thesis
  proof (rule linorder_cases [of e "?top + 1"])
    assume "?top + 1 < e"
    then show ?thesis using below by (auto simp: committee_in_known_range_def)
  next
    assume "e = ?top + 1"
    then show ?thesis
      using below by (cases "next_committee_st (st (qc_best_number C))") (simp_all add: committee_in_known_range_def nx)
  next
    assume less: "e < ?top + 1"
    then have known: "committee_in_known_range Q C e ?top =
        map_option (exec_map (\<lambda>r. try_bind (map_err ApiFailed r) (get_current_committee_versioned Q C)))
          (find_any_block_in_epoch C e)"
      by (auto simp: committee_in_known_range_def)
    show ?thesis
      using ac
    proof (cases rule: find_any_block_archive [where e = e])
      case (found n)
      have "n \<le> qc_best_number C" using found(1) by (simp add: in_epoch_def)
      note current = versioned_committees(1) [OF sv this]
      from found show ?thesis by (auto simp: known current)
    next
      case missing
      then show ?thesis using less by (auto simp: known)
    qed
  qed
qed

lemma genesis_epoch_committee:
  assumes "archive_client C hsh ep" and "serves_committees C hsh st"
  shows "get_epoch_committee Q C 0 =
    Some (Ret (Inr ((committee_response Q (current_committee (st 0)))\<lparr>gcr_sidechain_epoch := 0\<rparr>)))"
proof -
  have "qc_genesis_hash C = hsh 0" using assms(1) by (simp add: archive_client_def)
  then show ?thesis by (simp add: get_epoch_committee_def versioned_committees(1) [OF assms(2)])
qed

lemma before_first_epoch:
  assumes ac: "archive_client C hsh ep" and top: "ep (qc_best_number C) \<noteq> - 1" and "e < ep 1"
  shows "\<not> in_epoch C ep e n" and "e \<noteq> ep (qc_best_number C) + 1"
proof -
  show "\<not> in_epoch C ep e n" using in_epoch_bounds(1) [OF ac, of e n] assms(3) by auto
  have "(1 :: u32) \<le> qc_best_number C"
    using archive_clientD(1) [OF ac] by (simp add: word_le_nat_alt word_less_nat_alt)
  then have "ep 1 \<le> ep (qc_best_number C)" by (intro archive_clientD(6) [OF ac]) simp_all
  then show "e \<noteq> ep (qc_best_number C) + 1"
    using assms(3) unat_next_epoch [OF top] by (auto simp: word_le_nat_alt word_less_nat_alt)
qed

section \<open>Registrations shown and registrations used\<close>

lemma rposition_None: "rposition P xs = None \<longleftrightarrow> (\<forall>x \<in> set xs. \<not> P x)"
  by (induction xs) (auto split: option.splits)

lemma rposition_Some:
  "rposition P xs = Some i \<Longrightarrow> \<exists>ys x zs. xs = ys @ x # zs \<and> length ys = i \<and> P x \<and> (\<forall>z \<in> set zs. \<not> P z)"
proof (induction xs arbitrary: i)
  case (Cons a xs)
  show ?case
  proof (cases "rposition P xs")
    case None
    then have "\<forall>x \<in> set xs. \<not> P x" by (simp add: rposition_None)
    then show ?thesis using Cons.prems None by (auto split: if_splits intro!: exI [of _ "[]"])
  next
    case (Some j)
    from Cons.IH [OF this] obtain ys x zs
      where "xs = ys @ x # zs" "length ys = j" "P x" "\<forall>z \<in> set zs. \<not> P z" by blast
    then show ?thesis using Cons.prems Some by (intro exI [of _ "a # ys"]) auto
  qed
qed simp

lemma insort_key_map: "insort_key k (f x) (map f xs) = map f (insort_key (\<lambda>a. k (f a)) x xs)"
  by (induction xs) auto

lemma sort_key_map: "sort_key k (map f xs) = map f (sort_key (\<lambda>a. k (f a)) xs)"
  by (induction xs) (simp_all add: insort_key_map)

lemma last_insort_key:
  "sorted (map k xs) \<Longrightarrow> xs \<noteq> [] \<Longrightarrow> last (insort_key k x xs) = (if k (last xs) < k x then x else last xs)"
proof (induction xs)
  case (Cons y ys)
  then show ?case by (cases ys) (auto simp: insort_not_Nil dest: order_trans)
qed simp

lemma max_by_key_Cons:
  "max_by_key k (x # xs) =
     Some (case max_by_key k xs of None \<Rightarrow> x | Some m \<Rightarrow> if k x \<le> k m then m else x)"
proof (cases xs)
  case (Cons y ys)
  let ?f = "\<lambda>best y. if k best \<le> k y then y else best"
  have "foldl ?f (?f a y) ys = ?f a (foldl ?f y ys)" for a
    by (induction ys arbitrary: a y) auto
  then show ?thesis by (simp add: Cons)
qed simp

lemma max_by_key_last: "xs \<noteq> [] \<Longrightarrow> max_by_key k xs = Some (last (sort_key k xs))"
proof (induction xs)
  case (Cons x xs)
  show ?case
  proof (cases "xs = []")
    case False
    moreover have "sort_key k xs \<noteq> []" using False by (metis length_0_conv length_sort)
    ultimately show ?thesis using Cons.IH unfolding max_by_key_Cons by (auto simp: last_insort_key)
  qed simp
qed simp

abbreviation rd_key :: "registration_data \<Rightarrow> u32 \<times> u32 \<times> u16" where
  "rd_key rd \<equiv> ordering_key (rd_utxo_info rd)"

definition shown_entry ::
  "'id query_env \<Rightarrow> ('id, 'keys) candidate_env \<Rightarrow> utxo_id \<Rightarrow> candidate_registrations \<Rightarrow> registration_data \<Rightarrow>
   candidate_registration_entry" where
  "shown_entry Q E g cr rd = registration_entry_new Q rd (cr_stake_pool_public_key cr) (cr_stake_delegation cr)
     (api_validate_registered_candidate_data E g (cr_stake_pool_public_key cr) rd)"

lemma api_validate_registered_None:
  "api_validate_registered_candidate_data E g pool rd = None \<longleftrightarrow> registration_valid E pool g rd"
proof (cases "validate_registration_data E pool rd g")
  case (Inl x)
  then have "\<not> registration_valid E pool g rd" by (auto elim: validate_registration_data_valid)
  then show ?thesis by (simp add: api_validate_registered_candidate_data_def Inl)
next
  case (Inr y)
  then obtain pk keys where "validate_registration_data E pool rd g = Inr (pk, keys)" by (cases y) simp
  then have "registration_valid E pool g rd" by (simp add: validate_registration_data_Inr)
  then show ?thesis by (simp add: api_validate_registered_candidate_data_def Inr)
qed

lemma shown_entry_simps [simp]:
  "cre_is_valid (shown_entry Q E g cr rd) \<longleftrightarrow> registration_valid E (cr_stake_pool_public_key cr) g rd"
  "cre_utxo (shown_entry Q E g cr rd) = rd_utxo_info rd"
  by (simp_all add: shown_entry_def registration_entry_new_def api_validate_registered_None)

lemma api_validate_stake_None: "api_validate_stake stake = None \<longleftrightarrow> (\<exists>s. stake = Some s \<and> s \<noteq> 0)"
  by (cases stake) (simp_all add: api_validate_stake_def validate_stake_def stake_is_zero_def)

lemma rposition_map: "rposition P (map f xs) = rposition (\<lambda>x. P (f x)) xs"
  by (induction xs) (simp_all split: option.split)

lemma traverse_shown:
  "traverse_sum (\<lambda>rd. Inr (registration_entry_new Q rd (cr_stake_pool_public_key cr) (cr_stake_delegation cr)
     (api_validate_registered_candidate_data E g (cr_stake_pool_public_key cr) rd))) rds =
   Inr (map (shown_entry Q E g cr) rds)"
  by (simp add: traverse_sum_Inr_iff shown_entry_def)

lemma candidate_entries_eq:
  "candidate_entries Q (\<lambda>pk rd. Inr (api_validate_registered_candidate_data E g pk rd)) (\<lambda>s. Inr (api_validate_stake s)) cr =
     Inr (let S = sort_key rd_key (cr_registrations cr);
              kept = map (shown_entry Q E g cr)
                (drop (case rposition (registration_valid E (cr_stake_pool_public_key cr) g) S of Some i \<Rightarrow> i | None \<Rightarrow> 0) S)
          in case api_validate_stake (cr_stake_delegation cr) of Some err \<Rightarrow> mark_first err kept | None \<Rightarrow> kept)"
  by (simp only: candidate_entries_def try_bind.simps traverse_shown Let_def sort_key_map shown_entry_simps
      rposition_map drop_map)

text \<open>What the query shows of a candidate against what the selection takes of it.\<close>

definition shown_matches_selection ::
  "'id query_env \<Rightarrow> ('id, 'keys) candidate_env \<Rightarrow> utxo_id \<Rightarrow> candidate_registrations \<Rightarrow>
   candidate_registration_entry list \<Rightarrow> bool" where
  "shown_matches_selection Q E g cr entries \<longleftrightarrow>
     (case select_latest_valid_candidate E cr g of
        None \<Rightarrow> \<forall>entry \<in> set entries. \<not> cre_is_valid entry
      | Some c \<Rightarrow> \<exists>rd newer. latest_valid E cr g rd \<and> cs_account_id c = account_from_ecdsa E (rd_sidechain_pub_key rd) \<and>
          entries = shown_entry Q E g cr rd # map (shown_entry Q E g cr) newer \<and>
          (\<forall>r \<in> set newer. \<not> registration_valid E (cr_stake_pool_public_key cr) g r \<and> rd_key rd \<le> rd_key r) \<and>
          {r \<in> set (cr_registrations cr). rd_key rd < rd_key r} \<subseteq> set newer)"

lemma mark_first_invalid:
  "\<forall>e \<in> set (tl es). \<not> cre_is_valid e \<Longrightarrow> \<forall>e \<in> set (mark_first err es). \<not> cre_is_valid e"
  by (cases es) (auto simp: mark_first_def)

lemma latest_valid_of_sorted:
  assumes "sort_key rd_key (cr_registrations cr) = older @ rd # newer"
    and "registration_valid E (cr_stake_pool_public_key cr) g rd"
    and "\<forall>r \<in> set newer. \<not> registration_valid E (cr_stake_pool_public_key cr) g r"
  shows "max_by_key rd_key (valid_of E cr g) = Some rd"
proof -
  let ?P = "registration_valid E (cr_stake_pool_public_key cr) g"
  have "sort_key rd_key (valid_of E cr g) = filter ?P (sort_key rd_key (cr_registrations cr))"
    by (simp add: valid_of_def filter_sort)
  also have "\<dots> = filter ?P older @ [rd]" using assms(2,3) by (simp add: assms(1))
  finally have *: "sort_key rd_key (valid_of E cr g) = filter ?P older @ [rd]" .
  then have "valid_of E cr g \<noteq> []" by force
  with * show ?thesis by (simp add: max_by_key_last)
qed

lemma select_latest_cases:
  shows "api_validate_stake (cr_stake_delegation cr) = Some err \<Longrightarrow> select_latest_valid_candidate E cr g = None"
    and "valid_of E cr g = [] \<Longrightarrow> select_latest_valid_candidate E cr g = None"
    and "api_validate_stake (cr_stake_delegation cr) = None \<Longrightarrow> max_by_key rd_key (valid_of E cr g) = Some rd \<Longrightarrow>
      \<exists>c. select_latest_valid_candidate E cr g = Some c \<and> cs_account_id c = account_from_ecdsa E (rd_sidechain_pub_key rd)"
  using api_validate_stake_None [of "cr_stake_delegation cr"]
  by (auto simp: select_latest_valid_candidate_eq split: option.split)

lemma candidate_entries_match:
  "\<exists>entries. candidate_entries Q (\<lambda>pk rd. Inr (api_validate_registered_candidate_data E g pk rd))
       (\<lambda>s. Inr (api_validate_stake s)) cr = Inr entries \<and> shown_matches_selection Q E g cr entries"
proof -
  let ?P = "registration_valid E (cr_stake_pool_public_key cr) g"
  let ?S = "sort_key rd_key (cr_registrations cr)"
  show ?thesis
  proof (cases "rposition ?P ?S")
    case None
    then have invalid: "\<forall>r \<in> set (cr_registrations cr). \<not> ?P r" by (simp add: rposition_None)
    then have sel: "select_latest_valid_candidate E cr g = None"
      by (intro select_latest_cases(2)) (simp add: valid_of_def filter_empty_conv)
    have "\<forall>e \<in> set (map (shown_entry Q E g cr) ?S). \<not> cre_is_valid e" using invalid by simp
    moreover from this have "\<forall>e \<in> set (mark_first err (map (shown_entry Q E g cr) ?S)). \<not> cre_is_valid e" for err
      by (intro mark_first_invalid) (metis list.sel(2) list.set_sel(2))
    ultimately show ?thesis
      unfolding candidate_entries_eq Let_def None shown_matches_selection_def sel
      by (simp split: option.split)
  next
    case (Some i)
    from rposition_Some [OF this] obtain older rd newer where split: "?S = older @ rd # newer" "length older = i"
      and rd: "?P rd" and newer: "\<forall>r \<in> set newer. \<not> ?P r" by blast
    note latest = latest_valid_of_sorted [OF split(1) rd newer]
    let ?kept = "shown_entry Q E g cr rd # map (shown_entry Q E g cr) newer"
    have kept: "map (shown_entry Q E g cr) (drop (case Some i of Some i \<Rightarrow> i | None \<Rightarrow> 0) ?S) = ?kept"
      using split by simp
    show ?thesis
    proof (cases "api_validate_stake (cr_stake_delegation cr)")
      case stake: None
      from select_latest_cases(3) [OF stake latest] obtain c
        where c: "select_latest_valid_candidate E cr g = Some c" "cs_account_id c = account_from_ecdsa E (rd_sidechain_pub_key rd)"
        by blast
      have sorted: "sorted (map rd_key (older @ rd # newer))" unfolding split(1) [symmetric] by simp
      have regs: "set (cr_registrations cr) = set (older @ rd # newer)" using split(1) by (metis set_sort)
      have "rd_key rd \<le> rd_key r" if "r \<in> set newer" for r using sorted that by (auto simp: sorted_append)
      moreover have "r \<in> set newer" if "r \<in> set (cr_registrations cr)" "rd_key rd < rd_key r" for r
        using sorted that unfolding regs by (fastforce simp: sorted_append)
      moreover have "latest_valid E cr g rd" using latest by (simp add: max_by_key_latest_valid)
      ultimately have "shown_matches_selection Q E g cr ?kept"
        unfolding shown_matches_selection_def c(1) option.case using c(2) newer
        by (intro exI [of _ rd] exI [of _ newer]) auto
      then show ?thesis unfolding candidate_entries_eq Some kept stake Let_def by simp
    next
      case (Some err)
      have "\<forall>e \<in> set (mark_first err ?kept). \<not> cre_is_valid e" by (rule mark_first_invalid) (simp add: newer)
      then show ?thesis
        unfolding candidate_entries_eq \<open>rposition ?P ?S = Some i\<close> kept Let_def shown_matches_selection_def
          select_latest_cases(1) [OF Some] Some by simp
    qed
  qed
qed

lemma registrations_into_map_match:
  assumes "distinct (map cr_stake_pool_public_key crs)" and "inj (qe_to_hex Q)"
  shows "\<exists>m'. registrations_into_map Q (\<lambda>pk rd. Inr (api_validate_registered_candidate_data E g pk rd))
      (\<lambda>s. Inr (api_validate_stake s)) crs m = (Inr m' :: 'x + registrations_response_map) \<and>
    (\<forall>cr \<in> set crs. \<exists>entries. m' (qe_to_hex Q (cr_stake_pool_public_key cr)) = Some entries \<and>
       shown_matches_selection Q E g cr entries) \<and>
    (\<forall>k. k \<notin> cr_stake_pool_public_key ` set crs \<longrightarrow> m' (qe_to_hex Q k) = m (qe_to_hex Q k))"
  using assms(1)
proof (induction crs arbitrary: m)
  case (Cons cr crs)
  obtain entries where e: "candidate_entries Q (\<lambda>pk rd. Inr (api_validate_registered_candidate_data E g pk rd))
      (\<lambda>s. Inr (api_validate_stake s)) cr = (Inr entries :: 'x + _)" "shown_matches_selection Q E g cr entries"
    using candidate_entries_match by blast
  let ?m = "m(qe_to_hex Q (cr_stake_pool_public_key cr) \<mapsto> entries)"
  have "distinct (map cr_stake_pool_public_key crs)" using Cons.prems by simp
  from Cons.IH [OF this, of ?m] obtain m'
    where m': "registrations_into_map Q (\<lambda>pk rd. Inr (api_validate_registered_candidate_data E g pk rd))
        (\<lambda>s. Inr (api_validate_stake s)) crs ?m = (Inr m' :: 'x + _)"
      and shown: "\<forall>c \<in> set crs. \<exists>entries. m' (qe_to_hex Q (cr_stake_pool_public_key c)) = Some entries \<and>
         shown_matches_selection Q E g c entries"
      and other: "\<forall>k. k \<notin> cr_stake_pool_public_key ` set crs \<longrightarrow> m' (qe_to_hex Q k) = ?m (qe_to_hex Q k)" by (elim exE conjE)
  have "m' (qe_to_hex Q (cr_stake_pool_public_key cr)) = Some entries"
    using other Cons.prems by (auto simp: image_iff)
  moreover have "m' (qe_to_hex Q k) = m (qe_to_hex Q k)" if "k \<notin> cr_stake_pool_public_key ` set (cr # crs)" for k
    using other that assms(2) by (auto simp: inj_eq)
  ultimately show ?case using m' shown e by auto
qed auto

section \<open>Properties\<close>

text \<open>C39: the binary search for a block of an epoch returns for every client and every epoch, as long as the
  best block number is below 2 to the 31: the interval shrinks in every round, also when block numbers
  have no hash, calls fail or epochs are not ordered.\<close>

theorem find_any_block_returns:
  assumes "unat (qc_best_number C) < 2 ^ 31"
  shows "\<exists>r. find_any_block_in_epoch C epoch = Some r"
  unfolding find_any_block_in_epoch_def by (rule search_epoch_returns [OF assms]) simp

text \<open>C37: the committee query answers for exactly the epochs it can answer. On a node that keeps all blocks and
  whose committee follows the epochs, it always returns without a panic. An answer is for the epoch asked
  for: the members of the committee in the state of a block of that epoch, the stored next committee when
  the epoch is the one after the latest block's, or the genesis committee for epoch 0. It is an error only
  when there is no block of that epoch and no next committee for it.\<close>

theorem epoch_committee_answers:
  fixes C :: "('hash, 'x, 'id, 'keys) query_client"
  assumes "archive_client C hsh ep" and "serves_committees C hsh st"
    and "session_ops_ok ops prov cons" and "chain_reachable cfg ops prov cons kf (height, ep (qc_best_number C), st (qc_best_number C), w)"
    and "\<forall>n. 0 < n \<longrightarrow> n \<le> qc_best_number C \<longrightarrow> ci_epoch (current_committee (st n)) = ep n"
    and "ep (qc_best_number C) \<noteq> - 1"
  shows "\<exists>r :: ('x, 'd) query_error + get_committee_response. get_epoch_committee Q C e = Some (Ret r) \<and>
    (case r of
       Inr answer \<Rightarrow> gcr_sidechain_epoch answer = e \<and>
         (\<exists>ci. gcr_committee answer = map (\<lambda>m. qe_to_hex Q (qe_as_ref Q (authority_id m))) (ci_committee ci) \<and>
            ((\<exists>n. in_epoch C ep e n \<and> ci = current_committee (st n)) \<or>
             (e = ep (qc_best_number C) + 1 \<and> next_committee_st (st (qc_best_number C)) = Some ci) \<or>
             (e = 0 \<and> ci = current_committee (st 0))))
     | Inl _ \<Rightarrow> e \<noteq> 0 \<and> (\<nexists>n. in_epoch C ep e n) \<and>
         \<not> (e = ep (qc_best_number C) + 1 \<and> next_committee_st (st (qc_best_number C)) \<noteq> None))"
proof (cases "e = 0")
  case True
  show ?thesis
    unfolding True genesis_epoch_committee [OF assms(1,2)]
    by (auto simp: committee_response_def get_committee_response_new_def response_committee_member_def)
next
  case False
  let ?top = "qc_best_number C"
  have next_epoch: "ci_epoch ci = ep ?top + 1" if "next_committee_st (st ?top) = Some ci" for ci
    using chain_reachable_inv [OF assms(3,4)] that assms(5) archive_clientD(1) [OF assms(1)]
    by (auto simp: chain_inv_def next_ok_def)
  show ?thesis
  proof (cases "e < ep 1")
    case True
    then show ?thesis
      using before_first_epoch [OF assms(1,6)] False by (simp add: get_epoch_committee_archive [OF assms(1) False])
  next
    case known: False
    obtain r :: "('x, 'd) query_error + get_committee_response"
      where r: "committee_in_known_range Q C e (ep ?top) = Some (Ret r)"
      and cases: "case r of
         Inr answer \<Rightarrow> (\<exists>n. in_epoch C ep e n \<and> answer = committee_response Q (current_committee (st n))) \<or>
           (\<exists>ci. e = ep ?top + 1 \<and> next_committee_st (st ?top) = Some ci \<and> answer = committee_response Q ci)
       | Inl _ \<Rightarrow> (\<nexists>n. in_epoch C ep e n) \<and> \<not> (e = ep ?top + 1 \<and> next_committee_st (st ?top) \<noteq> None)"
      using known_range_archive [where ?'d = 'd, OF assms(1,2,6), of Q e] by (elim exE conjE)
    have "get_epoch_committee Q C e = Some (Ret r)"
      using known r by (simp add: get_epoch_committee_archive [OF assms(1) False])
    moreover have "ci_epoch (current_committee (st n)) = e" if "in_epoch C ep e n" for n
      using assms(5) that by (simp add: in_epoch_def)
    ultimately show ?thesis
      using cases next_epoch False
      by (auto simp: committee_response_def get_committee_response_new_def response_committee_member_def split: sum.splits)
  qed
qed

text \<open>C38: the registrations shown for a stake pool are those the selection uses. With the runtime's validation
  behind the query, when the pool has a candidate, the first entry is valid and is the registration the
  selection takes, and the others are all the newer registrations, none of them valid; when the pool has no
  candidate, no entry is shown as valid. A pool that is no candidate has no entries.\<close>

theorem registrations_query_matches_selection:
  fixes C :: "('hash, 'x, 'id, 'keys) query_client"
  assumes "inj (qe_to_hex Q)" and "qc_main_chain_scripts C (qc_best_hash C) = Inr scripts"
    and "\<forall>pk rd. qc_validate_registered C (qc_best_hash C) pk rd = Inr (api_validate_registered_candidate_data E g pk rd)"
    and "\<forall>s. qc_validate_stake C (qc_best_hash C) s = Inr (api_validate_stake s)"
    and "ds_candidates ds mc_epoch (committee_candidate_address scripts) s = (Ret (Inr crs), s')"
    and "distinct (map cr_stake_pool_public_key crs)"
  shows "(\<forall>cr \<in> set crs. \<exists>entries.
      get_registrations Q C ds mc_epoch (cr_stake_pool_public_key cr) s = (Ret (Inr entries), s') \<and>
      (case select_latest_valid_candidate E cr g of
         None \<Rightarrow> \<forall>entry \<in> set entries. \<not> cre_is_valid entry
       | Some c \<Rightarrow> \<exists>rd newer. latest_valid E cr g rd \<and> cs_account_id c = account_from_ecdsa E (rd_sidechain_pub_key rd) \<and>
           entries = shown_entry Q E g cr rd # map (shown_entry Q E g cr) newer \<and>
           (\<forall>r \<in> set newer. \<not> registration_valid E (cr_stake_pool_public_key cr) g r \<and> rd_key rd \<le> rd_key r) \<and>
           {r \<in> set (cr_registrations cr). rd_key rd < rd_key r} \<subseteq> set newer)) \<and>
    (\<forall>k. k \<notin> cr_stake_pool_public_key ` set crs \<longrightarrow> get_registrations Q C ds mc_epoch k s = (Ret (Inr []), s'))"
proof -
  have validation: "qc_validate_registered C (qc_best_hash C) = (\<lambda>pk rd. Inr (api_validate_registered_candidate_data E g pk rd))"
    "qc_validate_stake C (qc_best_hash C) = (\<lambda>s. Inr (api_validate_stake s))"
    using assms(3,4) by (simp_all add: fun_eq_iff)
  obtain m where m: "get_registrations_response_map Q crs (qc_validate_registered C (qc_best_hash C))
      (qc_validate_stake C (qc_best_hash C)) = Inr m"
    and shown: "\<forall>cr \<in> set crs. \<exists>entries. m (qe_to_hex Q (cr_stake_pool_public_key cr)) = Some entries \<and>
       shown_matches_selection Q E g cr entries"
    and other: "\<forall>k. k \<notin> cr_stake_pool_public_key ` set crs \<longrightarrow> m (qe_to_hex Q k) = Map.empty (qe_to_hex Q k)"
    using registrations_into_map_match [OF assms(6,1), of E g Map.empty]
    unfolding get_registrations_response_map_def validation by (elim exE conjE)
  have run: "get_registrations Q C ds mc_epoch k s =
      (Ret (Inr (case m (qe_to_hex Q k) of Some entries \<Rightarrow> entries | None \<Rightarrow> [])), s')" for k
    by (simp add: get_registrations_def candidates_registrations_for_epoch_def io_bind_def io_lift_def io_map_err_def
        assms(2,5) m api_err_def)
  show ?thesis using shown other unfolding shown_matches_selection_def [symmetric] by (auto simp: run)
qed

section \<open>Witnesses\<close>

text \<open>A node with one block after genesis, in epoch 5, which has stored the committee of epoch 6.\<close>

definition demo_client :: "(u32, unit, nat, nat) query_client" where
  "demo_client = \<lparr>qc_genesis_hash = 0, qc_best_number = 1, qc_best_hash = 1, qc_hash = (\<lambda>n. Inr (Some n)),
     qc_status_epoch = (\<lambda>_. Inr 5), qc_api_version = (\<lambda>_. Inr (Some 3)),
     qc_current_committee_before_version_2 = (\<lambda>_. Inl ()),
     qc_current_committee = (\<lambda>_. Inr (api_current_committee demo_run_state)),
     qc_next_committee_before_version_2 = (\<lambda>_. Inl ()),
     qc_next_committee = (\<lambda>_. Inr (api_next_committee demo_run_state)),
     qc_main_chain_scripts = (\<lambda>_. Inr demo_scripts),
     qc_validate_registered = (\<lambda>_ _ _. Inl ()), qc_validate_stake = (\<lambda>_ _. Inl ()),
     qc_validate_permissioned = (\<lambda>_ _. Inl ())\<rparr>"

definition demo_query_env :: "nat query_env" where
  "demo_query_env = \<lparr>qe_to_hex = to_hex demo_hex, qe_account_ss58 = to_hex demo_hex, qe_as_ref = (\<lambda>n. [of_nat n])\<rparr>"

theorem find_any_block_returns_witness: "\<exists>r. find_any_block_in_epoch demo_client 5 = Some r"
  using find_any_block_returns [of demo_client 5] by (simp add: demo_client_def)

theorem epoch_committee_answers_witness:
  "\<exists>answer. get_epoch_committee demo_query_env demo_client 6 =
     Some (Ret (Inr answer :: (unit, unit) query_error + get_committee_response)) \<and>
   gcr_sidechain_epoch answer = 6 \<and> gcr_committee answer = [to_hex demo_hex [1]]"
proof -
  have best: "qc_best_number demo_client = 1" by (simp add: demo_client_def)
  have "archive_client demo_client (\<lambda>n. n) (\<lambda>_. 5)" by (auto simp: archive_client_def demo_client_def)
  moreover have "serves_committees demo_client (\<lambda>n. n) (\<lambda>_. demo_run_state)"
    by (auto simp: serves_committees_def demo_client_def word_le_nat_alt intro!: exI [of _ 3])
  moreover have "chain_reachable demo_session_config demo_ops demo_prov demo_cons (\<lambda>k. k)
      (1, 5, demo_run_state, demo_session_world)" by (rule demo_first_block_reachable)
  moreover have "ci_epoch (current_committee demo_run_state) = 5" by (simp add: demo_run_state_def)
  ultimately have *: "\<exists>r :: (unit, unit) query_error + get_committee_response.
    get_epoch_committee demo_query_env demo_client 6 = Some (Ret r) \<and>
    (case r of
       Inr answer \<Rightarrow> gcr_sidechain_epoch answer = 6 \<and>
         (\<exists>ci. gcr_committee answer = map (\<lambda>m. qe_to_hex demo_query_env (qe_as_ref demo_query_env (authority_id m))) (ci_committee ci) \<and>
            ((\<exists>n. in_epoch demo_client (\<lambda>_. 5) 6 n \<and> ci = current_committee demo_run_state) \<or>
             (6 = (5 :: u64) + 1 \<and> next_committee_st demo_run_state = Some ci) \<or>
             (6 = (0 :: u64) \<and> ci = current_committee demo_run_state)))
     | Inl _ \<Rightarrow> 6 \<noteq> (0 :: u64) \<and> (\<nexists>n. in_epoch demo_client (\<lambda>_. 5) 6 n) \<and>
         \<not> (6 = (5 :: u64) + 1 \<and> next_committee_st demo_run_state \<noteq> None))"
    by (intro epoch_committee_answers [OF _ _ demo_ops_ok]) simp_all
  have next_ci: "next_committee_st demo_run_state = Some demo_next_ci" by (simp add: demo_run_state_def)
  have no_block: "\<not> in_epoch demo_client (\<lambda>_. 5) 6 n" for n by (simp add: in_epoch_def)
  have members: "map (\<lambda>m. qe_to_hex demo_query_env (qe_as_ref demo_query_env (authority_id m))) (ci_committee demo_next_ci) =
      [to_hex demo_hex [1]]"
    by (simp add: demo_query_env_def demo_next_ci_def authority_id_def)
  show ?thesis
    using *
  proof (elim exE conjE, goal_cases)
    case (1 r)
    then show ?case using next_ci no_block members by (cases r) auto
  qed
qed

text \<open>A pool with two valid registrations and a newer one with a wrong signature, and a query for its
  registrations.\<close>

definition demo_shown :: candidate_registrations where
  "demo_shown = \<lparr>cr_stake_pool_public_key = replicate 32 9,
     cr_registrations = [(demo_registration 8 4)\<lparr>rd_mainchain_signature := []\<rparr>, demo_registration 5 2, demo_registration 3 8],
     cr_stake_delegation = Some 100\<rparr>"

definition demo_shown_client :: "(unit, unit, bytes, bytes) query_client" where
  "demo_shown_client = \<lparr>qc_genesis_hash = (), qc_best_number = 0, qc_best_hash = (), qc_hash = (\<lambda>n. Inr None),
     qc_status_epoch = (\<lambda>_. Inl ()), qc_api_version = (\<lambda>_. Inl ()),
     qc_current_committee_before_version_2 = (\<lambda>_. Inl ()), qc_current_committee = (\<lambda>_. Inl ()),
     qc_next_committee_before_version_2 = (\<lambda>_. Inl ()), qc_next_committee = (\<lambda>_. Inl ()),
     qc_main_chain_scripts = (\<lambda>_. Inr demo_scripts),
     qc_validate_registered = (\<lambda>_ pk rd. Inr (api_validate_registered_candidate_data demo_env (demo_utxo 0) pk rd)),
     qc_validate_stake = (\<lambda>_ s. Inr (api_validate_stake s)),
     qc_validate_permissioned = (\<lambda>_ c. Inr (api_validate_permissioned_candidate_data demo_env c))\<rparr>"

definition demo_shown_source :: "(unit, unit) candidate_source" where
  "demo_shown_source = \<lparr>ds_ariadne_parameters = (\<lambda>_ _ _ s. (Ret (Inl ()), s)),
     ds_candidates = (\<lambda>_ _ s. (Ret (Inr [demo_shown]), s)), ds_epoch_nonce = (\<lambda>_ s. (Ret (Inl ()), s)),
     ds_data_epoch = (\<lambda>_ s. (Ret (Inl ()), s))\<rparr>"

definition demo_shown_env :: "bytes query_env" where
  "demo_shown_env = \<lparr>qe_to_hex = to_hex demo_hex, qe_account_ss58 = to_hex demo_hex, qe_as_ref = id\<rparr>"

lemma demo_hex_inj: "inj (to_hex demo_hex)"
proof (rule injI)
  fix x y assume "to_hex demo_hex x = to_hex demo_hex y"
  moreover have "from_hex demo_hex (to_hex demo_hex z) = Some z" for z
    using demo_hex_ok by (simp add: hex_codec_ok_def)
  ultimately show "x = y" by (metis option.inject)
qed

theorem registrations_query_matches_selection_witness:
  "\<exists>rd newer. get_registrations demo_shown_env demo_shown_client demo_shown_source 5 (replicate 32 9) () =
     (Ret (Inr (shown_entry demo_shown_env demo_env (demo_utxo 0) demo_shown rd #
        map (shown_entry demo_shown_env demo_env (demo_utxo 0) demo_shown) newer) :: (unit, unit) query_error + _), ()) \<and>
   rd = demo_registration 5 2 \<and> newer \<noteq> []"
proof -
  let ?late = "(demo_registration 8 4)\<lparr>rd_mainchain_signature := []\<rparr>"
  let ?first = "demo_registration 5 2"
  have late: "\<not> registration_valid demo_env (replicate 32 9) (demo_utxo 0) ?late"
    by (simp add: registration_valid_def)
  have valid: "valid_of demo_env demo_shown (demo_utxo 0) = [?first, demo_registration 3 8]"
    by (simp add: valid_of_def demo_shown_def demo_registration_valid late)
  have mx: "max_by_key rd_key [?first, demo_registration 3 8] = Some ?first"
    by (simp add: demo_registration_def ordering_key_def demo_utxo_def less_eq_prod_def)
  have stake: "api_validate_stake (cr_stake_delegation demo_shown) = None"
    by (simp add: demo_shown_def api_validate_stake_def validate_stake_def stake_is_zero_def)
  obtain c where c: "select_latest_valid_candidate demo_env demo_shown (demo_utxo 0) = Some c"
    using select_latest_cases(3) [OF stake, of demo_env "demo_utxo 0" ?first] valid mx by auto
  have "inj (qe_to_hex demo_shown_env)" by (simp add: demo_shown_env_def demo_hex_inj)
  moreover have "qc_main_chain_scripts demo_shown_client (qc_best_hash demo_shown_client) = Inr demo_scripts"
    and "\<forall>pk rd. qc_validate_registered demo_shown_client (qc_best_hash demo_shown_client) pk rd =
      Inr (api_validate_registered_candidate_data demo_env (demo_utxo 0) pk rd)"
    and "\<forall>s. qc_validate_stake demo_shown_client (qc_best_hash demo_shown_client) s = Inr (api_validate_stake s)"
    by (simp_all add: demo_shown_client_def)
  moreover have "ds_candidates demo_shown_source 5 (committee_candidate_address demo_scripts) () = (Ret (Inr [demo_shown]), ())"
    by (simp add: demo_shown_source_def)
  moreover have "distinct (map cr_stake_pool_public_key [demo_shown])" by simp
  ultimately have "\<forall>cr \<in> set [demo_shown]. \<exists>entries.
      get_registrations demo_shown_env demo_shown_client demo_shown_source 5 (cr_stake_pool_public_key cr) () =
        (Ret (Inr entries :: (unit, unit) query_error + _), ()) \<and> shown_matches_selection demo_shown_env demo_env (demo_utxo 0) cr entries"
    unfolding shown_matches_selection_def by (rule conjunct1 [OF registrations_query_matches_selection])
  moreover have "cr_stake_pool_public_key demo_shown = replicate 32 9" by (simp add: demo_shown_def)
  ultimately obtain entries where entries: "get_registrations demo_shown_env demo_shown_client demo_shown_source 5 (replicate 32 9) () =
        (Ret (Inr entries :: (unit, unit) query_error + _), ())"
      and matches: "shown_matches_selection demo_shown_env demo_env (demo_utxo 0) demo_shown entries"
    unfolding list.set ball_simps by (elim exE conjE) simp
  from matches obtain rd newer where rd: "latest_valid demo_env demo_shown (demo_utxo 0) rd"
    and run: "entries = shown_entry demo_shown_env demo_env (demo_utxo 0) demo_shown rd #
        map (shown_entry demo_shown_env demo_env (demo_utxo 0) demo_shown) newer"
    and newer: "{r \<in> set (cr_registrations demo_shown). rd_key rd < rd_key r} \<subseteq> set newer"
    unfolding shown_matches_selection_def c option.case by (elim exE conjE)
  have "rd = ?first" using rd valid mx by (simp add: max_by_key_latest_valid [symmetric])
  moreover have "rd_key ?first < rd_key ?late" "?late \<in> set (cr_registrations demo_shown)"
    by (simp_all add: demo_registration_def ordering_key_def less_prod_def demo_shown_def)
  ultimately have "newer \<noteq> []" using newer by auto
  then show ?thesis
    using entries unfolding run \<open>rd = ?first\<close> by (intro exI [of _ ?first] exI [of _ newer]) simp
qed

end
