(* ===== verification/Committee_Migration.thy ===== *)
theory Committee_Migration
  imports Session_Support Sidechain_Pallet
begin

text \<open>
  The storage migrations of the session committee management pallet,
  \<open>toolkit/committee-selection/pallet/src/migrations\<close>: from pairs of id and keys to committee members
  (\<open>v0.rs\<close>, \<open>v1.rs\<close>), and from an old type of authority keys to a new one (\<open>authority_keys.rs\<close>).

  The second migration reads values that were encoded with the old type. The stored values are of an
  arbitrary type \<open>'raw\<close>; SCALE decoding at the old type and encoding at the new one, the conversion of
  keys (\<open>UpgradeAuthorityKeys::upgrade\<close>) and \<open>upgrade_keys\<close> of \<open>pallet_session\<close> are the record \<open>keys_upgrade\<close>.
\<close>

section \<open>From version 0 to version 1\<close>

record ('id, 'keys) legacy_committee_info =
  lci_epoch :: sc_epoch_number
  lci_committee :: "('id \<times> 'keys) list"

definition legacy_default :: "('id, 'keys) legacy_committee_info" where
  "legacy_default = \<lparr>lci_epoch = 0, lci_committee = []\<rparr>"

definition member_from_pair :: "'id \<times> 'keys \<Rightarrow> ('id, 'keys) committee_member" where
  "member_from_pair = (\<lambda>(i, keys). MemberPermissioned i keys)"

definition committee_info_v1 :: "nat \<Rightarrow> ('id, 'keys) legacy_committee_info \<Rightarrow> ('id, 'keys) committee_info" where
  "committee_info_v1 bound v0 =
     \<lparr>ci_epoch = lci_epoch v0, ci_committee = take bound (map member_from_pair (lci_committee v0))\<rparr>"

definition v1_on_runtime_upgrade ::
  "(nat \<Rightarrow> nat \<Rightarrow> fweight) \<Rightarrow> nat \<Rightarrow> ('id, 'keys) legacy_committee_info option \<Rightarrow> ('id, 'keys) legacy_committee_info option \<Rightarrow>
   fweight \<times> ('id, 'keys) committee_info \<times> ('id, 'keys) committee_info option" where
  "v1_on_runtime_upgrade db_weight bound current_v0 next_v0 =
     (let current_v1 = committee_info_v1 bound (case current_v0 of Some c \<Rightarrow> c | None \<Rightarrow> legacy_default) in
      case next_v0 of
        None \<Rightarrow> (db_weight 2 1, current_v1, None)
      | Some next_committee_v0 \<Rightarrow> (db_weight 2 2, current_v1, Some (committee_info_v1 bound next_committee_v0)))"

datatype upgrade_check_error = CurrentEpochChanged | CurrentMembersChanged | NextMissingInV0 | NextMissingInV1
  | NextEpochChanged | NextMembersChanged

definition member_pairs :: "('id, 'keys) committee_info \<Rightarrow> ('id \<times> 'keys) list" where
  "member_pairs ci = map (\<lambda>m. (authority_id m, authority_keys m)) (ci_committee ci)"

definition v1_post_upgrade ::
  "('id, 'keys) legacy_committee_info \<Rightarrow> ('id, 'keys) legacy_committee_info option \<Rightarrow> ('id, 'keys) committee_info \<Rightarrow>
   ('id, 'keys) committee_info option \<Rightarrow> upgrade_check_error + unit" where
  "v1_post_upgrade current_v0 next_v0 current_v1 next_v1 =
     try_bind (ensure (lci_epoch current_v0 = ci_epoch current_v1) CurrentEpochChanged) (\<lambda>_.
     try_bind (ensure (lci_committee current_v0 = member_pairs current_v1) CurrentMembersChanged) (\<lambda>_.
       if next_v0 = None \<and> next_v0 = None then Inr ()
       else
         try_bind (ok_or next_v0 NextMissingInV0) (\<lambda>next_v0.
         try_bind (ok_or next_v1 NextMissingInV1) (\<lambda>next_v1.
         try_bind (ensure (lci_epoch next_v0 = ci_epoch next_v1) NextEpochChanged) (\<lambda>_.
         try_bind (ensure (lci_committee next_v0 = member_pairs next_v1) NextMembersChanged) (\<lambda>_. Inr ()))))))"

section \<open>A new type of authority keys\<close>

record ('raw, 'id, 'old, 'new, 'w) keys_upgrade =
  ku_decode_old :: "'raw \<Rightarrow> ('id, 'old) committee_info option"
  ku_encode :: "('id, 'new) committee_info \<Rightarrow> 'raw"
  ku_upgrade :: "'old \<Rightarrow> 'new"
  ku_session_upgrade_keys :: "('old \<Rightarrow> 'new) \<Rightarrow> 'w \<Rightarrow> 'w"

record ('raw, 'w) keys_storage =
  ks_version :: u32
  ks_current :: "'raw option"
  ks_next :: "'raw option"
  ks_session :: 'w

definition upgrade_bounded_vec ::
  "nat \<Rightarrow> ('old \<Rightarrow> 'new) \<Rightarrow> ('id, 'old) committee_member list \<Rightarrow> ('id, 'new) committee_member list" where
  "upgrade_bounded_vec bound upgrade old = take bound (map (map_authority_keys upgrade) old)"

definition upgrade_committee_info ::
  "nat \<Rightarrow> ('old \<Rightarrow> 'new) \<Rightarrow> ('id, 'old) committee_info \<Rightarrow> ('id, 'new) committee_info" where
  "upgrade_committee_info bound upgrade old =
     \<lparr>ci_epoch = ci_epoch old, ci_committee = upgrade_bounded_vec bound upgrade (ci_committee old)\<rparr>"

text \<open>\<open>StorageValue::translate\<close> of one value followed by \<open>expect\<close>: a stored value that does not decode is an
  error. The flag tells whether there was a value.\<close>

definition translate_committee ::
  "('raw, 'id, 'old, 'new, 'w) keys_upgrade \<Rightarrow> nat \<Rightarrow> 'raw option \<Rightarrow> (bool \<times> 'raw option) exec" where
  "translate_committee K bound slot =
     (case slot of
        None \<Rightarrow> Ret (False, None)
      | Some raw \<Rightarrow> exec_map (\<lambda>old. (True, Some (ku_encode K (upgrade_committee_info bound (ku_upgrade K) old))))
          (expect (ku_decode_old K raw)))"

definition keys_on_runtime_upgrade ::
  "(nat \<Rightarrow> nat \<Rightarrow> fweight) \<Rightarrow> ('raw, 'id, 'old, 'new, 'w) keys_upgrade \<Rightarrow> nat \<Rightarrow> u32 \<Rightarrow> u32 \<Rightarrow> ('raw, 'w) keys_storage \<Rightarrow>
   (fweight \<times> ('raw, 'w) keys_storage) exec" where
  "keys_on_runtime_upgrade db_weight K bound from_version to_version s =
     (let weight = db_weight 1 0 in
      if to_version \<le> ks_version s then Ret (weight, s)
      else if ks_version s \<noteq> from_version then Ret (weight, s)
      else
        exec_bind (translate_committee K bound (ks_current s)) (\<lambda>(had_current, current).
        exec_bind (translate_committee K bound (ks_next s)) (\<lambda>(had_next, next).
          let weight = (if had_current then weight_saturating_add weight (db_weight 1 1) else weight);
              weight = (if had_next then weight_saturating_add weight (db_weight 1 1) else weight)
          in Ret (weight, \<lparr>ks_version = to_version, ks_current = current, ks_next = next,
               ks_session = ku_session_upgrade_keys K (ku_upgrade K) (ks_session s)\<rparr>))))"

section \<open>Lemmas\<close>

text \<open>The documented behaviour of SCALE: what is encoded decodes.\<close>

definition new_codec_ok :: "('raw, 'id, 'old, 'new, 'w) keys_upgrade \<Rightarrow> ('raw \<Rightarrow> ('id, 'new) committee_info option) \<Rightarrow> bool" where
  "new_codec_ok K decode_new \<longleftrightarrow> (\<forall>ci. decode_new (ku_encode K ci) = Some ci)"

lemma upgrade_committee_info_simps [simp]:
  "ci_epoch (upgrade_committee_info bound f ci) = ci_epoch ci"
  "length (ci_committee ci) \<le> bound \<Longrightarrow>
     ci_committee (upgrade_committee_info bound f ci) = map (map_authority_keys f) (ci_committee ci)"
  by (simp_all add: upgrade_committee_info_def upgrade_bounded_vec_def)

lemma map_authority_keys_simps [simp]:
  "authority_id (map_authority_keys f m) = authority_id m"
  "authority_keys (map_authority_keys f m) = f (authority_keys m)"
  by (cases m; simp add: authority_id_def authority_keys_def)+

lemma next_ok_upgrade:
  assumes "next_ok bound ci nxt"
  shows "next_ok bound (upgrade_committee_info bound f ci) (map_option (upgrade_committee_info bound f) nxt)"
  using assms by (cases nxt) (simp_all add: next_ok_def)

lemma member_pairs_v1: "length (lci_committee v0) \<le> bound \<Longrightarrow> member_pairs (committee_info_v1 bound v0) = lci_committee v0"
  by (simp add: member_pairs_def committee_info_v1_def member_from_pair_def authority_id_def authority_keys_def
      case_prod_beta map_idI)

lemma v1_epoch [simp]: "ci_epoch (committee_info_v1 bound v0) = lci_epoch v0"
  by (simp add: committee_info_v1_def)

lemma v1_migration_checked:
  assumes "length (lci_committee c) \<le> bound" and "\<And>n. nxt = Some n \<Longrightarrow> length (lci_committee n) \<le> bound"
  shows "\<exists>w c' nxt'. v1_on_runtime_upgrade db_weight bound (Some c) nxt = (w, c', nxt') \<and> v1_post_upgrade c nxt c' nxt' = Inr ()"
proof (cases nxt)
  case None
  then show ?thesis
    using assms(1) by (simp add: v1_on_runtime_upgrade_def v1_post_upgrade_def ensure_def member_pairs_v1)
next
  case (Some n)
  then show ?thesis
    using assms by (simp add: v1_on_runtime_upgrade_def v1_post_upgrade_def ensure_def member_pairs_v1)
qed

text \<open>The check compares the old next committee with itself, so that it accepts one that was not there before.\<close>

lemma v1_post_upgrade_accepts_new_next:
  "v1_post_upgrade \<lparr>lci_epoch = 1, lci_committee = []\<rparr> None \<lparr>ci_epoch = 1, ci_committee = []\<rparr> (Some ci) = Inr ()"
  by (simp add: v1_post_upgrade_def ensure_def member_pairs_def)

section \<open>Properties\<close>

text \<open>C40: the change of key type keeps the committees and runs once. On storage of the version it is for, with a
  current committee and possibly a next one that decode at the old type, the migration does not panic; both
  decode at the new type afterwards, with the same epochs and the same members in the same order, each with its
  keys converted, within the bound and with the next committee still the one of the following epoch. A second
  run, and a run on storage of any other version, changes nothing.\<close>

theorem keys_upgrade_well_typed:
  fixes K :: "('raw, 'id, 'old, 'new, 'w) keys_upgrade"
  assumes "new_codec_ok K decode_new" and "ks_version s = from_version" and "from_version < to_version"
    and "ks_current s = Some raw" and "ku_decode_old K raw = Some ci"
    and "ks_next s = map_option encode_old nxt" and "\<forall>n. nxt = Some n \<longrightarrow> ku_decode_old K (encode_old n) = Some n"
    and "length (ci_committee ci) \<le> bound" and "next_ok bound ci nxt"
  shows "\<exists>weight s' ci' nxt'. keys_on_runtime_upgrade db_weight K bound from_version to_version s = Ret (weight, s') \<and>
      ks_version s' = to_version \<and> ks_session s' = ku_session_upgrade_keys K (ku_upgrade K) (ks_session s) \<and>
      Option.bind (ks_current s') decode_new = Some ci' \<and> ci_epoch ci' = ci_epoch ci \<and>
      ci_committee ci' = map (map_authority_keys (ku_upgrade K)) (ci_committee ci) \<and>
      map_option decode_new (ks_next s') = map_option Some nxt' \<and>
      map_option ci_committee nxt' = map_option (\<lambda>n. map (map_authority_keys (ku_upgrade K)) (ci_committee n)) nxt \<and>
      next_ok bound ci' nxt' \<and>
      keys_on_runtime_upgrade db_weight K bound from_version to_version s' = Ret (db_weight 1 0, s') \<and>
      (\<forall>t. ks_version t \<noteq> from_version \<longrightarrow>
         keys_on_runtime_upgrade db_weight K bound from_version to_version t = Ret (db_weight 1 0, t))"
proof -
  let ?up = "upgrade_committee_info bound (ku_upgrade K)"
  let ?s' = "\<lparr>ks_version = to_version, ks_current = Some (ku_encode K (?up ci)), ks_next = map_option (\<lambda>n. ku_encode K (?up n)) nxt,
      ks_session = ku_session_upgrade_keys K (ku_upgrade K) (ks_session s)\<rparr>"
  have dec: "decode_new (ku_encode K x) = Some x" for x using assms(1) by (simp add: new_codec_ok_def)
  have "translate_committee K bound (ks_next s) = Ret (nxt \<noteq> None, map_option (\<lambda>n. ku_encode K (?up n)) nxt)"
    using assms(7) by (cases nxt) (simp_all add: translate_committee_def assms(6))
  moreover have "\<not> to_version \<le> from_version" using assms(3) by simp
  ultimately obtain weight where run: "keys_on_runtime_upgrade db_weight K bound from_version to_version s = Ret (weight, ?s')"
    using assms(2) by (simp add: keys_on_runtime_upgrade_def Let_def translate_committee_def assms(4,5))
  have again: "keys_on_runtime_upgrade db_weight K bound from_version to_version ?s' = Ret (db_weight 1 0, ?s')"
    and other: "\<forall>t. ks_version t \<noteq> from_version \<longrightarrow>
      keys_on_runtime_upgrade db_weight K bound from_version to_version t = Ret (db_weight 1 0, t)"
    by (simp_all add: keys_on_runtime_upgrade_def Let_def)
  have bounded: "length (ci_committee n) \<le> bound" if "nxt = Some n" for n using assms(9) that by (simp add: next_ok_def)
  show ?thesis
    using run again other next_ok_upgrade [OF assms(9), of "ku_upgrade K"] assms(8) bounded
    by (intro exI [of _ weight] exI [of _ ?s'] exI [of _ "?up ci"] exI [of _ "map_option ?up nxt"])
       (cases nxt; simp add: dec)
qed

definition demo_keys_upgrade :: "(nat \<times> (nat, bool) committee_info + (nat, nat) committee_info, nat, bool, nat, unit) keys_upgrade" where
  "demo_keys_upgrade = \<lparr>ku_decode_old = (\<lambda>r. case r of Inl (_, ci) \<Rightarrow> Some ci | Inr _ \<Rightarrow> None), ku_encode = Inr,
     ku_upgrade = (\<lambda>b. if b then 1 else 0), ku_session_upgrade_keys = (\<lambda>_ w. w)\<rparr>"

definition demo_old_ci :: "u64 \<Rightarrow> (nat, bool) committee_info" where
  "demo_old_ci e = \<lparr>ci_epoch = e, ci_committee = [MemberPermissioned 7 True, MemberRegistered 8 False [1]]\<rparr>"

theorem keys_upgrade_well_typed_witness:
  "\<exists>weight s'. keys_on_runtime_upgrade (\<lambda>r w. (of_nat r, of_nat w)) demo_keys_upgrade 3 0 1
      \<lparr>ks_version = 0, ks_current = Some (Inl (0, demo_old_ci 5)), ks_next = Some (Inl (0, demo_old_ci 6)), ks_session = ()\<rparr> =
      Ret (weight, s') \<and> ks_version s' = 1 \<and>
    Option.bind (ks_current s') (\<lambda>r. case r of Inr ci \<Rightarrow> Some ci | Inl _ \<Rightarrow> None) =
      Some \<lparr>ci_epoch = 5, ci_committee = [MemberPermissioned 7 1, MemberRegistered 8 0 [1]]\<rparr>"
proof -
  have "new_codec_ok demo_keys_upgrade (\<lambda>r. case r of Inr ci \<Rightarrow> Some ci | Inl _ \<Rightarrow> None)"
    by (simp add: new_codec_ok_def demo_keys_upgrade_def)
  from keys_upgrade_well_typed [OF this, of "\<lparr>ks_version = 0, ks_current = Some (Inl (0, demo_old_ci 5)),
        ks_next = Some (Inl (0, demo_old_ci 6)), ks_session = ()\<rparr>" 0 1 "Inl (0, demo_old_ci 5)" "demo_old_ci 5"
      "\<lambda>n. Inl (0, n)" "Some (demo_old_ci 6)" 3 "\<lambda>r w. (of_nat r, of_nat w)"]
  show ?thesis
    by (auto simp: demo_keys_upgrade_def demo_old_ci_def next_ok_def)
qed

end
