(* ===== verification/Spec2Isabelle.thy ===== *)
theory Spec2Isabelle
  imports Ariadne Mainchain_Epoch Session_Support Governed_Map Bridge_Source Stake_Distribution
    Mc_Hash Producer_Fees Producer_Metadata Address_Assoc Sidechain_Pallet Committee_Nodes Governed_Map_Nodes Committee_Query
    Committee_Migration
begin

text \<open>
  A verification library for the Partner Chains toolkit, the Rust sources under \<open>src/\<close>.

  \<^bold>\<open>The system.\<close> A partner chain is a Substrate chain whose committee, bridge and configuration follow the
  Cardano main chain. Every block refers to a stable main chain block; data sources of the node query a
  Db-Sync database of that chain, inherent data providers turn the answers into inherent data, and pallets of
  the runtime create and check the inherents and keep the state. Author and verifier run the same providers
  on their own database, so that a block is accepted only if both compute the same data.

  \<^bold>\<open>Conventions\<close> (\<open>PC_Prelude\<close>). Integers are words of their width; arithmetic wraps, as in the release
  profile. \<open>Panic\<close> and \<open>Ret\<close> are the outcomes of code that may panic, a \<open>Result\<close> is a sum with the error on the
  left, and \<open>io\<close> threads the state of a source through calls that may fail or panic. A dispatchable that
  fails leaves the storage as it was. Storage is a record, a \<open>Config\<close> trait or a foreign crate is a record of
  functions that the definitions take as an argument, with its documented behaviour as a named predicate
  (\<open>..._ok\<close>); each such predicate is shown to hold of a concrete instance. The iteration order of a hash map
  is an arbitrary permutation. \<open>BTree_Map\<close> models the ordered map of the standard library as its entries in
  order, and \<open>Inherents\<close> the interface of pallets with inherents as a locale, which the committee, Governed Map,
  bridge and participation pallets interpret; \<open>Guarded_Storage\<close> is the contract shared by the metadata and the
  address association pallets.

  \<^bold>\<open>Committee selection.\<close>
  \<^item> \<open>Weighted_Random\<close>, \<open>Ariadne\<close>, \<open>Ariadne_V2\<close>: \<open>weighted_random.rs\<close>, \<open>ariadne.rs\<close> and \<open>ariadne_v2.rs\<close> of
    \<open>toolkit/committee-selection/selection/src\<close>. Each candidate owns as many random points as its weight; version 2
    gives every candidate the floor of its expected seats and fills the committee; the result does not depend on
    the order of the candidates.
  \<^item> \<open>Plutus_Cbor\<close>, \<open>Plutus_Data\<close>, \<open>Text_Forms\<close>, \<open>Domain\<close>, \<open>Mainchain_Epoch\<close>: \<open>toolkit/utils/plutus\<close>, \<open>toolkit/smart-contracts/plutus-data\<close>,
    \<open>toolkit/utils/byte-string-derivation\<close> and \<open>toolkit/sidechain/domain\<close>: encoders with their decoders, and epoch arithmetic.
    Round trips, with the values for which they fail.
  \<^item> \<open>Candidate_Filter\<close>: \<open>filter_invalid_candidates.rs\<close> and \<open>select_authorities.rs\<close> of \<open>authority-selection-inherents\<close>. What a valid
    registration is, what the signed message binds, which registration counts, how the D-parameter sets the seats.
  \<^item> \<open>Candidate_Source\<close>, \<open>Candidate_Agreement\<close>, \<open>Ariadne_Inputs\<close>: \<open>candidates/mod.rs\<close> and \<open>candidates/cached.rs\<close> of
    \<open>toolkit/data-sources/db-sync\<close> and the Ariadne inherent data provider. The locale \<open>selection_source\<close> is what the provider
    needs of a source; the plain and the cached source interpret it.
  \<^item> \<open>Committee_Pallet\<close>, \<open>Session_Support\<close>: the session committee management pallet and its integration with
    \<open>pallet_session\<close>. The step relation \<open>chain_step\<close> has blocks, ends of sessions, calls and steps of the
    environment; its invariant gives that rotation never panics and that epochs of committees are consecutive.
  \<^item> \<open>Committee_Nodes\<close>: author and verifier agree on the committee inherent.
  \<^item> \<open>Committee_Migration\<close>: \<open>pallet/src/migrations\<close> of the committee pallet. The migration to a new type of keys keeps epochs,
    members and the invariant between the two committees, and runs once.
  \<^item> \<open>Committee_Query\<close>: \<open>toolkit/committee-selection/query\<close>. The search for a block of an epoch returns and finds one, the
    committee shown is that of the epoch, and the registration shown as valid is the one selection uses.

  \<^bold>\<open>Main chain reference.\<close> \<open>Block_Source\<close> (\<open>block/mod.rs\<close> of the Db-Sync sources) and \<open>Mc_Hash\<close>
  (\<open>toolkit/sidechain/sidechain-mc-hash\<close> and \<open>block_proposal.rs\<close>): an honest reference is accepted, and accepted
  references are stable and never go back.

  \<^bold>\<open>Data from the main chain.\<close> \<open>Governed_Map\<close>, \<open>Governed_Map_Source\<close>, \<open>Governed_Map_Nodes\<close>: pallet, provider and sources of
  \<open>toolkit/governed-map\<close>; the pallet holds the map of the ledger at the referenced block. \<open>Bridge\<close>, \<open>Bridge_Source\<close>: pallet,
  provider and sources of \<open>toolkit/bridge\<close>; every transfer is handled once, and the cache is invisible. This theory
  composes the bridge with the main chain reference.

  \<^bold>\<open>Block production.\<close> \<open>Production_Log\<close>, \<open>Block_Participation\<close>, \<open>Stake_Distribution\<close>: the log, the participation data built
  from it and the stake distribution it is joined with; blocks are credited once and nodes agree.
  \<open>Producer_Fees\<close>, \<open>Producer_Metadata\<close>, \<open>Address_Assoc\<close>, \<open>Sidechain_Pallet\<close>: the remaining pallets, with a refinement of the
  bounded fee log to the full history, conservation of deposits, authorisation of changes, and epoch handlers
  with the migration of the epoch duration.

  \<^bold>\<open>Bounds.\<close> Loops recurse structurally or have a termination proof; there is no fuel. The block search is the one
  loop that may not return; it is defined without a bound and returns when the best block number is below
  \<open>2 ^ 31\<close>, which keeps the sum of two block numbers within 32 bits. Where a sum or product of stakes could wrap at 128 bits, a bound that
  keeps it from doing so is a hypothesis. Every property with hypotheses has a witness at a concrete input.

  \<^bold>\<open>Not modelled.\<close>
  \<^item> Cryptography, SCALE, minicbor, ChaCha20, the LRU cache and \<open>cardano_serialization_lib\<close>: third-party code, parameters of the model.
  \<^item> SQL: the rows that the joins select are parameters; conditions, orders and limits are modelled. Concurrent requests
    to one cache are taken one at a time.
  \<^item> The Dolos and mock data sources, the Ogmios client and the RPC servers, which forward requests to
    services or to functions modelled here and translate the answers; metrics and the time source, which only do I/O.
  \<^item> The command line tools, the wizards of \<open>toolkit/partner-chains-cli\<close> and the transaction building of
    \<open>toolkit/smart-contracts/offchain\<close>: prompts, files, processes and calls of the serialization library and of Ogmios.
  \<^item> The Aura worker and import queue of \<open>substrate-extensions/aura\<close>, adaptations of Substrate code around foreign traits, except
    the logs of a proposal; the service, chain specification and composition of providers of the demo node, except its
    slot arithmetic; weights and benchmarks, which are generated; the selection simulator, a statistics tool.
\<close>

section \<open>The bridge along a chain of verified blocks\<close>

lemma length_filter_mono: "(\<And>x. P x \<Longrightarrow> Q x) \<Longrightarrow> length (filter P xs) \<le> length (filter Q xs)"
  by (induction xs) auto

lemma entries_upto_sorted:
  assumes "sorted (map number refs)"
  shows "sorted (map (entries_upto ledger number s) refs)"
proof -
  have "entries_upto ledger number s a \<le> entries_upto ledger number s b" if "number a \<le> number b" for a b
    unfolding entries_upto_def using that
    by (intro length_filter_mono) (blast intro: order_trans)
  then show ?thesis using assms by (auto simp: sorted_wrt_map elim: sorted_wrt_mono_rel [rotated])
qed


lemma demo_mc_chain_5:
  "mc_chain demo_mc_config (\<lambda>h. ucast (hd h)) (demo_mc_header 5) (Some 140000) [block_hash (demo_mc_block 5)]"
proof -
  let ?rows = "demo_mc_rows [0, 1, 2, 3, 4, 5, 6, 7]"
  let ?src = "db_sync_mc_source demo_mc_config (Inr ?rows :: unit block_db)"
  have ok: "block_source_ok demo_mc_config ?rows []"
    by (auto simp: block_source_ok_def chain_ok_def demo_mc_block_def demo_mc_config_def blocks_cache_ok_def)
  have ref: "reference_ok demo_mc_config ?rows (to_mainchain_block (demo_mc_block 5)) 140000"
    unfolding reference_ok_def
    by (rule exI [of _ "demo_mc_block 5"], simp add: stable_in_def is_block_time_valid_def
        min_block_allowed_time_def max_allowed_block_time_def demo_mc_block_def demo_mc_config_def)
  have t: "time_ok demo_mc_config 140000" by (simp add: time_ok_def demo_mc_config_def)
  have d: "value_from_digest (hd_digest (demo_mc_header 5)) = Inr (block_hash (demo_mc_block 5))" by code_simp
  have n: "\<forall>b \<in> set ?rows. (ucast (hd (block_hash b)) :: u32) = block_no b" by code_simp
  have "\<exists>c. block_source_ok demo_mc_config ?rows c \<and> new_verification ?src \<lparr>hd_number = 0, hd_digest = []\<rparr> None 140000
      (mb_hash (to_mainchain_block (demo_mc_block 5))) [] =
      (Ret (Inr \<lparr>idp_mc_block = to_mainchain_block (demo_mc_block 5), idp_previous_mc_block = None\<rparr>), c)"
    by (rule bs.verification_accepts [OF ok t ref]) simp
  then obtain c idp where "new_verification ?src \<lparr>hd_number = 0, hd_digest = []\<rparr> None 140000
      (block_hash (demo_mc_block 5)) [] = (Ret (Inr idp), c)" by auto
  from mc_chain.block [OF mc_chain.genesis ok n t this d] show ?thesis by simp
qed


end
